(* ===== verification/Prelude.thy ===== *)
theory Prelude
  imports Main "HOL-Library.Word"
begin

text \<open>
  Shared vocabulary of the development: the widths of the C++ integers, the outcome of a step that
  can fault, array accesses with their bounds, the bit fields of \<^verbatim>\<open>common/bit_field.h\<close>, and the
  generic argument that an invariant kept by every operation holds after every sequence of them.

  A function that contains an \<^verbatim>\<open>ASSERT\<close>, an array access, a pointer dereference or an
  \<^verbatim>\<open>UNREACHABLE\<close> returns \<open>fault + 'a\<close>.  \<open>Inl f\<close> is a run that reaches the failing check;
  a failing \<^verbatim>\<open>ASSERT\<close> stops a run only under \<^verbatim>\<open>use_debug_asserts\<close>, so a theorem that a run
  is \<open>Inr\<close> describes the behaviour under both settings.
\<close>

unbundle bit_operations_syntax

section \<open>Machine integers\<close>

type_synonym u8 = "8 word"
type_synonym u16 = "16 word"
type_synonym u32 = "32 word"
type_synonym u64 = "64 word"
type_synonym s32 = int
type_synonym s64 = int

named_theorems run_simps \<open>evaluation of the fault monad\<close>
named_theorems bf_simps \<open>reading bit fields\<close>

section \<open>Outcomes\<close>

datatype fault =
    AssertFailed
  | OutOfBounds
  | NullDeref
  | ShiftOutOfRange
  | SignedOverflow
  | UnreachableCode
  | OutOfFuel

type_synonym 'a run = "fault + 'a"

definition bind_run :: "'a run \<Rightarrow> ('a \<Rightarrow> 'b run) \<Rightarrow> 'b run" where
  "bind_run m f = (case m of Inl e \<Rightarrow> Inl e | Inr x \<Rightarrow> f x)"

text \<open>\<^verbatim>\<open>ASSERT(p)\<close> followed by \<open>k\<close>.\<close>

definition ensure :: "bool \<Rightarrow> 'a run \<Rightarrow> 'a run" where
  "ensure p k = (if p then k else Inl AssertFailed)"

lemma bind_run_Inl [simp, run_simps]: "bind_run (Inl e) f = Inl e"
  by (simp add: bind_run_def)

lemma bind_run_Inr [simp, run_simps]: "bind_run (Inr x) f = f x"
  by (simp add: bind_run_def)

lemma bind_run_assoc: "bind_run (bind_run m f) g = bind_run m (\<lambda>x. bind_run (f x) g)"
  by (cases m) simp_all

lemma bind_run_eq_Inr [run_simps]:
  "bind_run m f = Inr y \<longleftrightarrow> (\<exists>x. m = Inr x \<and> f x = Inr y)"
  by (cases m) simp_all

lemma bind_run_eq_Inl:
  "bind_run m f = Inl e \<longleftrightarrow> m = Inl e \<or> (\<exists>x. m = Inr x \<and> f x = Inl e)"
  by (cases m) simp_all

lemma ensure_True [simp, run_simps]: "ensure True k = k"
  by (simp add: ensure_def)

lemma ensure_False [simp, run_simps]: "ensure False k = Inl AssertFailed"
  by (simp add: ensure_def)

lemma ensure_eq_Inr [run_simps]: "ensure p k = Inr y \<longleftrightarrow> p \<and> k = Inr y"
  by (simp add: ensure_def)

text \<open>Runs that end in a state with a property, or at an assertion or an overflow check.\<close>

definition run_ok :: "('a \<Rightarrow> bool) \<Rightarrow> 'a run \<Rightarrow> bool" where
  "run_ok P m \<longleftrightarrow> (case m of Inl e \<Rightarrow> e = AssertFailed \<or> e = SignedOverflow | Inr x \<Rightarrow> P x)"

lemma run_ok_Inr [simp]: "run_ok P (Inr x) \<longleftrightarrow> P x"
  by (simp add: run_ok_def)

lemma run_ok_Inl [simp]: "run_ok P (Inl e) \<longleftrightarrow> e = AssertFailed \<or> e = SignedOverflow"
  by (simp add: run_ok_def)

lemma run_ok_bind: "run_ok Q m \<Longrightarrow> (\<And>x. m = Inr x \<Longrightarrow> Q x \<Longrightarrow> run_ok P (f x)) \<Longrightarrow> run_ok P (bind_run m f)"
  by (cases m) simp_all

lemma run_ok_mono: "run_ok P m \<Longrightarrow> (\<And>x. P x \<Longrightarrow> Q x) \<Longrightarrow> run_ok Q m"
  by (cases m) simp_all

text \<open>Runs that end in a state with a property, or at an assertion where the condition \<open>t\<close> does not hold.\<close>

definition run_post :: "bool \<Rightarrow> ('a \<Rightarrow> bool) \<Rightarrow> 'a run \<Rightarrow> bool" where
  "run_post t P m \<longleftrightarrow> (case m of Inl e \<Rightarrow> \<not> t \<and> e = AssertFailed | Inr x \<Rightarrow> P x)"

lemma run_post_Inr [simp]: "run_post t P (Inr x) \<longleftrightarrow> P x"
  by (simp add: run_post_def)

lemma run_post_Inl [simp]: "run_post t P (Inl e) \<longleftrightarrow> \<not> t \<and> e = AssertFailed"
  by (simp add: run_post_def)

lemma run_post_bind: "run_post t Q m \<Longrightarrow> (\<And>x. m = Inr x \<Longrightarrow> Q x \<Longrightarrow> run_post t P (f x)) \<Longrightarrow> run_post t P (bind_run m f)"
  by (cases m) simp_all

lemma run_post_mono: "run_post t P m \<Longrightarrow> (\<And>x. P x \<Longrightarrow> Q x) \<Longrightarrow> (t' \<Longrightarrow> t) \<Longrightarrow> run_post t' Q m"
  by (cases m) auto

lemma run_post_total: "run_post t P m \<Longrightarrow> t \<Longrightarrow> \<exists>x. m = Inr x \<and> P x"
  by (cases m) simp_all

section \<open>Arrays\<close>

text \<open>
  \<^verbatim>\<open>std::array::operator[]\<close> with an index outside the array is undefined behaviour; the model
  faults there.  Indices of a signed type are \<open>int\<close>.
\<close>

definition aget :: "'a list \<Rightarrow> int \<Rightarrow> 'a run" where
  "aget xs i = (if 0 \<le> i \<and> i < int (length xs) then Inr (xs ! nat i) else Inl OutOfBounds)"

definition aset :: "'a list \<Rightarrow> int \<Rightarrow> 'a \<Rightarrow> 'a list run" where
  "aset xs i v = (if 0 \<le> i \<and> i < int (length xs) then Inr (xs[nat i := v]) else Inl OutOfBounds)"

lemma aget_nat [simp, run_simps]: "i < length xs \<Longrightarrow> aget xs (int i) = Inr (xs ! i)"
  by (simp add: aget_def)

lemma aset_nat [simp, run_simps]: "i < length xs \<Longrightarrow> aset xs (int i) v = Inr (xs[i := v])"
  by (simp add: aset_def)

lemma aget_uint [simp, run_simps]: "unat w < length xs \<Longrightarrow> aget xs (uint w) = Inr (xs ! unat w)"
  by (metis aget_nat of_nat_unat)

lemma aset_uint [simp, run_simps]: "unat w < length xs \<Longrightarrow> aset xs (uint w) v = Inr (xs[unat w := v])"
  by (metis aset_nat of_nat_unat)

lemma aget_eq_Inr: "aget xs i = Inr v \<longleftrightarrow> 0 \<le> i \<and> i < int (length xs) \<and> v = xs ! nat i"
  by (auto simp: aget_def)

lemma aset_eq_Inr: "aset xs i v = Inr ys \<longleftrightarrow> 0 \<le> i \<and> i < int (length xs) \<and> ys = xs[nat i := v]"
  by (auto simp: aset_def)

lemma nth_list_update_if: "i < length xs \<Longrightarrow> xs[i := v] ! j = (if i = j then v else xs ! j)"
  by simp

lemma length_filter_update:
  "i < length xs \<Longrightarrow>
   length (filter P (xs[i := v])) + (if P (xs ! i) then 1 else 0) = length (filter P xs) + (if P v then 1 else 0)"
proof (induction xs arbitrary: i)
  case (Cons x xs)
  then show ?case
  proof (cases i)
    case (Suc j)
    with Cons.prems Cons.IH [of j] show ?thesis by simp
  qed simp
qed simp

section \<open>Signed 64-bit arithmetic\<close>

text \<open>Signed overflow is undefined in C++; \<open>s64_add\<close> faults where it would happen.  \<^verbatim>\<open>Common::WrappingAdd\<close>
  adds through the unsigned type and never does.\<close>

definition s64_range :: "s64 \<Rightarrow> bool" where
  "s64_range x \<longleftrightarrow> - (2 ^ 63) \<le> x \<and> x < 2 ^ 63"

definition s64_add :: "s64 \<Rightarrow> s64 \<Rightarrow> s64 run" where
  "s64_add a b = (if s64_range (a + b) then Inr (a + b) else Inl SignedOverflow)"

definition WrappingAdd :: "s64 \<Rightarrow> s64 \<Rightarrow> s64" where
  "WrappingAdd lhs rhs = sint (word_of_int lhs + word_of_int rhs :: u64)"

lemma WrappingAdd_exact: "s64_range (a + b) \<Longrightarrow> WrappingAdd a b = a + b"
  by (simp add: WrappingAdd_def s64_range_def sint_sbintrunc' signed_take_bit_int_eq_self flip: of_int_add)

lemma WrappingAdd_overflow:
  assumes "0 \<le> a" "0 \<le> b" "a < 2 ^ 63" "b < 2 ^ 63" "\<not> a + b < 2 ^ 63"
  shows "WrappingAdd a b < 0"
proof -
  have "WrappingAdd a b = signed_take_bit 63 (a + b)"
    by (simp add: WrappingAdd_def sint_sbintrunc' flip: of_int_add)
  also have "\<dots> = (a + b + 2 ^ 63 - 2 ^ 64) mod 2 ^ 64 - 2 ^ 63"
    by (simp add: signed_take_bit_eq_take_bit_shift take_bit_eq_mod minus_mod_self2 del: power_numeral)
  also have "\<dots> = a + b - 2 ^ 64"
    using assms by (subst mod_pos_pos_trivial) simp_all
  finally show ?thesis using assms by simp
qed

section \<open>Bit fields\<close>

text \<open>\<^verbatim>\<open>BitField<Position, Bits, T>\<close>: \<^verbatim>\<open>mask\<close>, \<^verbatim>\<open>FormatValue\<close>, \<^verbatim>\<open>ExtractValue\<close> (unsigned and
  signed) and \<^verbatim>\<open>Assign\<close>.\<close>

definition bf_mask :: "nat \<Rightarrow> nat \<Rightarrow> 'a::len word" where
  "bf_mask position bits = push_bit position (drop_bit (LENGTH('a) - bits) (NOT 0))"

definition bf_FormatValue :: "nat \<Rightarrow> nat \<Rightarrow> 'a::len word \<Rightarrow> 'a word" where
  "bf_FormatValue position bits value = push_bit position value AND bf_mask position bits"

definition bf_ExtractValue :: "nat \<Rightarrow> nat \<Rightarrow> 'a::len word \<Rightarrow> 'a word" where
  "bf_ExtractValue position bits storage = drop_bit position (storage AND bf_mask position bits)"

definition bf_ExtractSigned :: "nat \<Rightarrow> nat \<Rightarrow> 'a::len word \<Rightarrow> 'a word" where
  "bf_ExtractSigned position bits storage =
     (let shift = LENGTH('a) - bits
      in signed_drop_bit shift (push_bit (shift - position) storage))"

definition bf_Assign :: "nat \<Rightarrow> nat \<Rightarrow> 'a::len word \<Rightarrow> 'a word \<Rightarrow> 'a word" where
  "bf_Assign position bits value storage =
     (storage AND NOT (bf_mask position bits)) OR bf_FormatValue position bits value"

lemma bit_bf_mask:
  "bits \<le> LENGTH('a) \<Longrightarrow>
   bit (bf_mask position bits :: 'a::len word) n \<longleftrightarrow> n < LENGTH('a) \<and> position \<le> n \<and> n < position + bits"
  by (auto simp: bf_mask_def bit_simps)

lemma bit_bf_ExtractValue:
  "position + bits \<le> LENGTH('a) \<Longrightarrow>
   bit (bf_ExtractValue position bits (w :: 'a::len word)) n \<longleftrightarrow> n < bits \<and> bit w (position + n)"
  by (auto simp: bf_ExtractValue_def bit_simps bit_bf_mask dest: bit_imp_le_length)

lemma bit_bf_Assign:
  "position + bits \<le> LENGTH('a) \<Longrightarrow>
   bit (bf_Assign position bits v (w :: 'a::len word)) n \<longleftrightarrow>
     (if position \<le> n \<and> n < position + bits then bit v (n - position) else bit w n)"
  by (auto simp: bf_Assign_def bf_FormatValue_def bit_simps bit_bf_mask dest: bit_imp_le_length)

lemma bf_ExtractValue_take_bit:
  "position + bits \<le> LENGTH('a) \<Longrightarrow>
   bf_ExtractValue position bits (w :: 'a::len word) = take_bit bits (drop_bit position w)"
  by (rule bit_word_eqI) (auto simp: bit_bf_ExtractValue bit_simps)

lemma bf_Extract_Assign_same [bf_simps]:
  "position + bits \<le> LENGTH('a) \<Longrightarrow>
   bf_ExtractValue position bits (bf_Assign position bits v (w :: 'a::len word)) = take_bit bits v"
  by (rule bit_word_eqI) (auto simp: bit_bf_ExtractValue bit_bf_Assign bit_simps)

lemma bf_Extract_Assign_other [bf_simps]:
  "p + b \<le> LENGTH('a) \<Longrightarrow> q + c \<le> LENGTH('a) \<Longrightarrow> p + b \<le> q \<or> q + c \<le> p \<Longrightarrow>
   bf_ExtractValue p b (bf_Assign q c v (w :: 'a::len word)) = bf_ExtractValue p b w"
  by (rule bit_word_eqI) (auto simp: bit_bf_ExtractValue bit_bf_Assign)

lemma bf_ExtractValue_less:
  "position + bits \<le> LENGTH('a) \<Longrightarrow> bits < LENGTH('a) \<Longrightarrow>
   unat (bf_ExtractValue position bits (w :: 'a::len word)) < 2 ^ bits"
  by (simp add: bf_ExtractValue_take_bit unsigned_take_bit_eq)

section \<open>Machines and their invariants\<close>

primrec run_ops :: "('op \<Rightarrow> 's \<Rightarrow> 's run) \<Rightarrow> 'op list \<Rightarrow> 's \<Rightarrow> 's run" where
  "run_ops step [] s = Inr s"
| "run_ops step (op # ops) s = bind_run (step op s) (run_ops step ops)"

lemma run_ops_append: "run_ops step (xs @ ys) s = bind_run (run_ops step xs s) (run_ops step ys)"
proof (induction xs arbitrary: s)
  case (Cons x xs)
  then show ?case by (cases "step x s") simp_all
qed simp

text \<open>An invariant that every allowed operation keeps: it holds after every run that does not fault.\<close>

locale inv_machine =
  fixes step :: "'op \<Rightarrow> 's \<Rightarrow> 's run" and inv :: "'s \<Rightarrow> bool" and allowed :: "'op \<Rightarrow> bool"
  assumes step_inv: "inv s \<Longrightarrow> allowed op \<Longrightarrow> step op s = Inr s' \<Longrightarrow> inv s'"
begin

lemma run_inv: "inv s \<Longrightarrow> list_all allowed ops \<Longrightarrow> run_ops step ops s = Inr s' \<Longrightarrow> inv s'"
  by (induction ops arbitrary: s) (auto simp: bind_run_eq_Inr intro: step_inv)

end

text \<open>A machine whose allowed operations never fault where the invariant holds: every run completes.\<close>

locale safe_machine = inv_machine +
  assumes step_safe: "inv s \<Longrightarrow> allowed op \<Longrightarrow> \<exists>s'. step op s = Inr s'"
begin

lemma run_safe: "inv s \<Longrightarrow> list_all allowed ops \<Longrightarrow> \<exists>s'. run_ops step ops s = Inr s' \<and> inv s'"
proof (induction ops arbitrary: s)
  case (Cons op ops)
  then have al: "allowed op" by simp
  from step_safe [OF Cons.prems(1) al] obtain s1 where s1: "step op s = Inr s1" by blast
  with step_inv [OF Cons.prems(1) al s1] Cons.IH [of s1] Cons.prems show ?case by simp
qed simp

end

lemma run_ok_ops: "P s \<Longrightarrow> (\<And>s op. P s \<Longrightarrow> op \<in> set ops \<Longrightarrow> run_ok P (step op s)) \<Longrightarrow> run_ok P (run_ops step ops s)"
  by (induction ops arbitrary: s) (auto intro!: run_ok_bind)

text \<open>A machine whose allowed operations keep the invariant or stop at a check.\<close>

locale checked_machine =
  fixes step :: "'op \<Rightarrow> 's \<Rightarrow> 's run" and inv :: "'s \<Rightarrow> bool" and allowed :: "'op \<Rightarrow> bool"
  assumes step_checked: "inv s \<Longrightarrow> allowed op \<Longrightarrow> run_ok inv (step op s)"
begin

lemma run_checked: "inv s \<Longrightarrow> list_all allowed ops \<Longrightarrow> run_ok inv (run_ops step ops s)"
  by (rule run_ok_ops) (auto simp: list_all_iff intro: step_checked)

end

sublocale checked_machine \<subseteq> inv_machine step inv allowed
proof
  fix s op s' assume "inv s" "allowed op" "step op s = Inr s'"
  then show "inv s'" using step_checked [of s op] by simp
qed

end
