(* ===== verification/KAutoObject.thy ===== *)
theory KAutoObject
  imports Prelude
begin

text \<open>
  Reference-counted kernel objects (\<^verbatim>\<open>core/hle/kernel/k_auto_object.h\<close>).  An object is named by a
  number; the store holds its 32-bit count and the sets the kernel keeps.  The compare-exchange
  loops are taken at the iteration whose exchange succeeds: the value read is the value replaced.
\<close>

type_synonym obj = nat

record kernel =
  ref_count :: "obj \<Rightarrow> u32"
  registered_objects :: "obj set"
  registered_in_use_objects :: "obj set"
  destroyed :: "obj list"

section \<open>Operations\<close>

definition KAutoObject_Open :: "obj \<Rightarrow> kernel \<Rightarrow> (bool \<times> kernel) run" where
  "KAutoObject_Open obj k =
     (let cur_ref_count = ref_count k obj
      in if cur_ref_count = 0 then Inr (False, k)
         else ensure (cur_ref_count < cur_ref_count + 1)
           (Inr (True, k\<lparr>ref_count := (ref_count k)(obj := cur_ref_count + 1)\<rparr>)))"

definition KAutoObject_Close :: "obj \<Rightarrow> kernel \<Rightarrow> kernel run" where
  "KAutoObject_Close obj k =
     (let cur_ref_count = ref_count k obj
      in ensure (0 < cur_ref_count)
        (let k1 = k\<lparr>ref_count := (ref_count k)(obj := cur_ref_count - 1)\<rparr>
         in Inr (if cur_ref_count - 1 = 0
                 then k1\<lparr>destroyed := destroyed k1 @ [obj],
                         registered_objects := registered_objects k1 - {obj}\<rparr>
                 else k1)))"

definition UnregisterInUseObject :: "obj \<Rightarrow> kernel \<Rightarrow> kernel" where
  "UnregisterInUseObject obj k =
     k\<lparr>registered_in_use_objects := registered_in_use_objects k - {obj}\<rparr>"

section \<open>Behaviour\<close>

text \<open>An object can be opened without fault when it is alive and its count is not the largest.\<close>

definition openable :: "kernel \<Rightarrow> obj \<Rightarrow> bool" where
  "openable k obj \<longleftrightarrow> ref_count k obj \<noteq> 0 \<and> ref_count k obj \<noteq> - 1"

lemma word_Suc_nonzero: "w \<noteq> - 1 \<Longrightarrow> w + (1 :: 'a::len word) \<noteq> 0"
  by (simp add: eq_neg_iff_add_eq_0)

lemma word_less_Suc: "w \<noteq> - 1 \<Longrightarrow> w < w + (1 :: 'a::len word)"
  by (meson inc_less_eq_triv_imp not_le)

lemma Open_openable:
  "openable k obj \<Longrightarrow>
   KAutoObject_Open obj k = Inr (True, k\<lparr>ref_count := (ref_count k)(obj := ref_count k obj + 1)\<rparr>)"
  by (simp add: KAutoObject_Open_def openable_def word_less_Suc)

lemma Close_alive:
  "ref_count k obj \<noteq> 0 \<Longrightarrow>
   \<exists>k'. KAutoObject_Close obj k = Inr k' \<and> ref_count k' = (ref_count k)(obj := ref_count k obj - 1)"
  by (simp add: KAutoObject_Close_def Let_def word_gt_0)

lemma Close_refs:
  "KAutoObject_Close obj k = Inr k' \<Longrightarrow>
   ref_count k obj \<noteq> 0 \<and> ref_count k' = (ref_count k)(obj := ref_count k obj - 1)"
  by (auto simp: KAutoObject_Close_def Let_def run_simps word_gt_0)

lemma Unregister_refs [simp]: "ref_count (UnregisterInUseObject obj k) = ref_count k"
  by (simp add: UnregisterInUseObject_def)

text \<open>Opening an object and closing it again leaves the store as it was: no count leaks and the
  object is not destroyed.\<close>

lemma Open_Close:
  "openable k obj \<Longrightarrow> bind_run (KAutoObject_Open obj k) (\<lambda>(_, k'). KAutoObject_Close obj k') = Inr k"
  by (simp add: Open_openable KAutoObject_Close_def Let_def openable_def word_gt_0 word_Suc_nonzero)

end
