(* ===== verification/KHandleTable.thy ===== *)
theory KHandleTable
  imports KAutoObject
begin

text \<open>
  The per-process handle table (\<^verbatim>\<open>core/hle/kernel/k_handle_table.{h,cpp}\<close>): 1024 entries, the free
  ones threaded through \<^verbatim>\<open>m_entry_infos\<close> by \<^verbatim>\<open>next_free_index\<close>, the used ones holding a linear id
  in the same 16 bits.  A handle packs an index and a linear id.  The scoped spin lock makes each
  operation one step.
\<close>

section \<open>Handles\<close>

type_synonym Handle = u32

definition CurrentThread :: Handle where "CurrentThread = 0xFFFF8000"
definition CurrentProcess :: Handle where "CurrentProcess = 0xFFFF8001"

definition IsPseudoHandle :: "Handle \<Rightarrow> bool" where
  "IsPseudoHandle handle \<longleftrightarrow> handle = CurrentProcess \<or> handle = CurrentThread"

definition HandlePack_index :: "Handle \<Rightarrow> u32" where
  "HandlePack_index raw = bf_ExtractValue 0 15 raw"

definition HandlePack_linear_id :: "Handle \<Rightarrow> u32" where
  "HandlePack_linear_id raw = bf_ExtractValue 15 15 raw"

definition HandlePack_reserved :: "Handle \<Rightarrow> u32" where
  "HandlePack_reserved raw = bf_ExtractValue 30 2 raw"

definition EncodeHandle :: "u16 \<Rightarrow> u16 \<Rightarrow> Handle" where
  "EncodeHandle index linear_id =
     bf_Assign 30 2 0 (bf_Assign 15 15 (ucast linear_id) (bf_Assign 0 15 (ucast index) 0))"

section \<open>The table\<close>

definition MaxTableSize :: nat where "MaxTableSize = 1024"
definition MinLinearId :: u16 where "MinLinearId = 1"
definition MaxLinearId :: u16 where "MaxLinearId = 0x7FFF"

datatype Result = ResultSuccess | ResultOutOfMemory | ResultOutOfHandles

text \<open>\<^verbatim>\<open>EntryInfo\<close> is a union: one 16-bit word read as a linear id or as a signed index.\<close>

type_synonym EntryInfo = u16

definition GetLinearId :: "EntryInfo \<Rightarrow> u16" where "GetLinearId e = e"
definition GetNextFreeIndex :: "EntryInfo \<Rightarrow> s32" where "GetNextFreeIndex e = sint e"

record KHandleTable =
  m_entry_infos :: "EntryInfo list"
  m_objects :: "obj option list"
  m_free_head_index :: s32
  m_table_size :: u16
  m_max_count :: u16
  m_next_linear_id :: u16
  m_count :: u16

definition new_table :: KHandleTable where
  "new_table = \<lparr>m_entry_infos = replicate MaxTableSize 0, m_objects = replicate MaxTableSize None,
     m_free_head_index = 0, m_table_size = 0, m_max_count = 0, m_next_linear_id = 0, m_count = 0\<rparr>"

text \<open>The loop of \<^verbatim>\<open>Initialize\<close> that frees the entries \<open>i\<close> up to \<open>i + n\<close>.\<close>

primrec free_entries :: "nat \<Rightarrow> nat \<Rightarrow> KHandleTable \<Rightarrow> KHandleTable run" where
  "free_entries i 0 t = Inr t"
| "free_entries i (Suc n) t =
     bind_run (aset (m_objects t) (int i) None) (\<lambda>objs.
     bind_run (aset (m_entry_infos t) (int i) (word_of_int (int i - 1))) (\<lambda>infos.
     free_entries (Suc i) n
       (t\<lparr>m_objects := objs, m_entry_infos := infos, m_free_head_index := int i\<rparr>)))"

definition KHandleTable_Initialize :: "s32 \<Rightarrow> KHandleTable \<Rightarrow> (Result \<times> KHandleTable) run" where
  "KHandleTable_Initialize sz t =
     (if sz > int MaxTableSize then Inr (ResultOutOfMemory, t)
      else
        let t1 = t\<lparr>m_max_count := 0,
                   m_table_size := word_of_int (if sz \<le> 0 then int MaxTableSize else sz),
                   m_next_linear_id := MinLinearId, m_count := 0, m_free_head_index := - 1\<rparr>
        in bind_run (free_entries 0 (unat (m_table_size t1)) t1) (\<lambda>t2. Inr (ResultSuccess, t2)))"

definition AllocateEntry :: "KHandleTable \<Rightarrow> (s32 \<times> KHandleTable) run" where
  "AllocateEntry t =
     ensure (m_count t < m_table_size t)
       (let index = m_free_head_index t
        in bind_run (aget (m_entry_infos t) index) (\<lambda>e.
          Inr (index, t\<lparr>m_free_head_index := GetNextFreeIndex e, m_count := m_count t + 1,
                        m_max_count := max (m_max_count t) (m_count t + 1)\<rparr>)))"

definition FreeEntry :: "s32 \<Rightarrow> KHandleTable \<Rightarrow> KHandleTable run" where
  "FreeEntry index t =
     ensure (0 < m_count t)
       (bind_run (aset (m_objects t) index None) (\<lambda>objs.
        bind_run (aset (m_entry_infos t) index (word_of_int (m_free_head_index t))) (\<lambda>infos.
        Inr (t\<lparr>m_objects := objs, m_entry_infos := infos, m_free_head_index := index,
               m_count := m_count t - 1\<rparr>))))"

definition AllocateLinearId :: "KHandleTable \<Rightarrow> u16 \<times> KHandleTable" where
  "AllocateLinearId t =
     (let next_id = m_next_linear_id t + 1
      in (m_next_linear_id t,
          t\<lparr>m_next_linear_id := if MaxLinearId < next_id then MinLinearId else next_id\<rparr>))"

definition IsValidHandle :: "Handle \<Rightarrow> KHandleTable \<Rightarrow> bool run" where
  "IsValidHandle handle t =
     ensure (HandlePack_reserved handle = 0)
       (if handle = 0 then Inr False
        else if HandlePack_linear_id handle = 0 then Inr False
        else if HandlePack_index handle \<ge> ucast (m_table_size t) then Inr False
        else
          bind_run (aget (m_objects t) (uint (HandlePack_index handle))) (\<lambda>obj.
          if obj = None then Inr False
          else bind_run (aget (m_entry_infos t) (uint (HandlePack_index handle))) (\<lambda>e.
            if ucast (GetLinearId e) \<noteq> HandlePack_linear_id handle then Inr False
            else Inr True)))"

definition GetObjectImpl :: "Handle \<Rightarrow> KHandleTable \<Rightarrow> obj option run" where
  "GetObjectImpl handle t =
     (if HandlePack_reserved handle \<noteq> 0 then Inr None
      else bind_run (IsValidHandle handle t) (\<lambda>valid.
        if valid then aget (m_objects t) (uint (HandlePack_index handle)) else Inr None))"

definition GetObjectByIndexImpl :: "nat \<Rightarrow> KHandleTable \<Rightarrow> (obj \<times> Handle) option run" where
  "GetObjectByIndexImpl index t =
     (if index \<ge> unat (m_table_size t) then Inr None
      else bind_run (aget (m_objects t) (int index)) (\<lambda>obj.
        case obj of
          None \<Rightarrow> Inr None
        | Some ob \<Rightarrow> bind_run (aget (m_entry_infos t) (int index)) (\<lambda>e.
            Inr (Some (ob, EncodeHandle (of_nat index) (GetLinearId e))))))"

section \<open>Public operations\<close>

text \<open>\<^verbatim>\<open>GetObject<T>\<close>: the pseudo-handles of the current process and thread resolve only when the
  requested type is a base of \<^verbatim>\<open>KProcess\<close> or of \<^verbatim>\<open>KThread\<close>; the object found is opened by the
  scoped reference the caller receives.  \<open>cast\<close> is \<^verbatim>\<open>DynamicCast<T*>\<close>.\<close>

datatype requested = RequestedProcess | RequestedThread | RequestedOther

definition GetObjectWithoutPseudoHandle ::
    "(obj \<Rightarrow> bool) \<Rightarrow> Handle \<Rightarrow> KHandleTable \<Rightarrow> obj option run" where
  "GetObjectWithoutPseudoHandle cast handle t =
     bind_run (GetObjectImpl handle t) (\<lambda>r.
       case r of None \<Rightarrow> Inr None | Some ob \<Rightarrow> Inr (if cast ob then Some ob else None))"

definition GetObject ::
    "requested \<Rightarrow> (obj \<Rightarrow> bool) \<Rightarrow> obj option \<Rightarrow> obj option \<Rightarrow> Handle \<Rightarrow> KHandleTable
     \<Rightarrow> obj option run" where
  "GetObject want cast cur_process cur_thread handle t =
     (if want = RequestedProcess \<and> handle = CurrentProcess
      then ensure (cur_process \<noteq> None) (Inr cur_process)
      else if want = RequestedThread \<and> handle = CurrentThread
      then ensure (cur_thread \<noteq> None) (Inr cur_thread)
      else GetObjectWithoutPseudoHandle cast handle t)"

definition GetObjectForIpc ::
    "Handle \<Rightarrow> (obj \<times> obj option) option \<Rightarrow> KHandleTable \<Rightarrow> obj option run" where
  "GetObjectForIpc handle cur_thread t =
     (case cur_thread of
        None \<Rightarrow> Inl AssertFailed
      | Some (thread, owner) \<Rightarrow>
          if handle = CurrentProcess then ensure (owner \<noteq> None) (Inr owner)
          else if handle = CurrentThread then Inr (Some thread)
          else GetObjectImpl handle t)"

definition KHandleTable_Add ::
    "obj \<Rightarrow> KHandleTable \<times> kernel \<Rightarrow> ((Result \<times> Handle option) \<times> KHandleTable \<times> kernel) run" where
  "KHandleTable_Add obj = (\<lambda>(t, k).
     if m_count t < m_table_size t then
       (case AllocateLinearId t of (linear_id, t1) \<Rightarrow>
          bind_run (AllocateEntry t1) (\<lambda>(index, t2).
          bind_run (aset (m_entry_infos t2) index linear_id) (\<lambda>infos.
          bind_run (aset (m_objects t2) index (Some obj)) (\<lambda>objs.
          bind_run (KAutoObject_Open obj k) (\<lambda>(_, k').
          Inr ((ResultSuccess, Some (EncodeHandle (word_of_int index) linear_id)),
               t2\<lparr>m_entry_infos := infos, m_objects := objs\<rparr>, k'))))))
     else Inr ((ResultOutOfHandles, None), t, k))"

definition KHandleTable_Remove ::
    "Handle \<Rightarrow> KHandleTable \<times> kernel \<Rightarrow> (bool \<times> KHandleTable \<times> kernel) run" where
  "KHandleTable_Remove handle = (\<lambda>(t, k).
     if IsPseudoHandle handle then Inr (False, t, k)
     else if HandlePack_reserved handle \<noteq> 0 then Inr (False, t, k)
     else bind_run (IsValidHandle handle t) (\<lambda>valid.
       if valid then
         bind_run (aget (m_objects t) (uint (HandlePack_index handle))) (\<lambda>ob.
         bind_run (FreeEntry (uint (HandlePack_index handle)) t) (\<lambda>t'.
         case ob of
           None \<Rightarrow> Inl NullDeref
         | Some obj \<Rightarrow>
             bind_run (KAutoObject_Close obj (UnregisterInUseObject obj k)) (\<lambda>k'.
             Inr (True, t', k'))))
       else Inr (False, t, k)))"

definition KHandleTable_Reserve :: "KHandleTable \<Rightarrow> ((Result \<times> Handle option) \<times> KHandleTable) run" where
  "KHandleTable_Reserve t =
     (if m_count t < m_table_size t then
        bind_run (AllocateEntry t) (\<lambda>(index, t1).
          case AllocateLinearId t1 of (linear_id, t2) \<Rightarrow>
            Inr ((ResultSuccess, Some (EncodeHandle (word_of_int index) linear_id)), t2))
      else Inr ((ResultOutOfHandles, None), t))"

definition KHandleTable_Unreserve :: "Handle \<Rightarrow> KHandleTable \<Rightarrow> KHandleTable run" where
  "KHandleTable_Unreserve handle t =
     ensure (HandlePack_reserved handle = 0)
       (ensure (HandlePack_linear_id handle \<noteq> 0)
         (if HandlePack_index handle < ucast (m_table_size t) then
            bind_run (aget (m_objects t) (uint (HandlePack_index handle))) (\<lambda>ob.
              ensure (ob = None) (FreeEntry (uint (HandlePack_index handle)) t))
          else Inr t))"

definition KHandleTable_Register ::
    "Handle \<Rightarrow> obj \<Rightarrow> KHandleTable \<times> kernel \<Rightarrow> (KHandleTable \<times> kernel) run" where
  "KHandleTable_Register handle obj = (\<lambda>(t, k).
     ensure (HandlePack_reserved handle = 0)
       (ensure (HandlePack_linear_id handle \<noteq> 0)
         (if HandlePack_index handle < ucast (m_table_size t) then
            bind_run (aget (m_objects t) (uint (HandlePack_index handle))) (\<lambda>ob.
              ensure (ob = None)
                (bind_run (aset (m_entry_infos t) (uint (HandlePack_index handle))
                             (ucast (HandlePack_linear_id handle))) (\<lambda>infos.
                 bind_run (aset (m_objects t) (uint (HandlePack_index handle)) (Some obj)) (\<lambda>objs.
                 bind_run (KAutoObject_Open obj k) (\<lambda>(_, k').
                 Inr (t\<lparr>m_entry_infos := infos, m_objects := objs\<rparr>, k'))))))
          else Inr (t, k))))"

text \<open>The closing loop of \<^verbatim>\<open>Finalize\<close>, over the entries \<open>i\<close> up to \<open>i + n\<close>.\<close>

primrec close_objects :: "nat \<Rightarrow> nat \<Rightarrow> obj option list \<Rightarrow> kernel \<Rightarrow> kernel run" where
  "close_objects i 0 objs k = Inr k"
| "close_objects i (Suc n) objs k =
     bind_run (aget objs (int i)) (\<lambda>ob.
     bind_run (case ob of None \<Rightarrow> Inr k | Some obj \<Rightarrow> KAutoObject_Close obj k)
       (close_objects (Suc i) n objs))"

definition KHandleTable_Finalize :: "KHandleTable \<times> kernel \<Rightarrow> (Result \<times> KHandleTable \<times> kernel) run" where
  "KHandleTable_Finalize = (\<lambda>(t, k).
     bind_run (close_objects 0 (unat (m_table_size t)) (m_objects t) k) (\<lambda>k'.
     Inr (ResultSuccess, t\<lparr>m_table_size := 0\<rparr>, k')))"

text \<open>\<^verbatim>\<open>GetMultipleObjects\<close>: the opening loop stops at the first handle that does not resolve or
  does not cast, and the objects opened so far are closed again.\<close>

fun open_handles ::
    "(obj \<Rightarrow> bool) \<Rightarrow> KHandleTable \<Rightarrow> Handle list \<Rightarrow> obj list \<Rightarrow> kernel \<Rightarrow> (obj list \<times> kernel) run" where
  "open_handles cast t [] out k = Inr (out, k)"
| "open_handles cast t (h # hs) out k =
     bind_run (GetObjectImpl h t) (\<lambda>r.
       case r of
         None \<Rightarrow> Inr (out, k)
       | Some obj \<Rightarrow>
           if \<not> cast obj then Inr (out, k)
           else bind_run (KAutoObject_Open obj k) (\<lambda>(_, k').
             open_handles cast t hs (out @ [obj]) k'))"

primrec close_all :: "obj list \<Rightarrow> kernel \<Rightarrow> kernel run" where
  "close_all [] k = Inr k"
| "close_all (obj # os) k = bind_run (KAutoObject_Close obj k) (close_all os)"

definition GetMultipleObjects ::
    "(obj \<Rightarrow> bool) \<Rightarrow> Handle list \<Rightarrow> KHandleTable \<Rightarrow> kernel \<Rightarrow> (obj list option \<times> kernel) run" where
  "GetMultipleObjects cast handles t k =
     bind_run (open_handles cast t handles [] k) (\<lambda>(out, k1).
       if length out = length handles then Inr (Some out, k1)
       else bind_run (close_all out k1) (\<lambda>k2. Inr (None, k2)))"

section \<open>Packing\<close>

lemma unat_ucast_up_u16: "unat (ucast (l :: u16) :: u32) = unat l"
  by (simp add: unsigned_ucast_eq take_bit_nat_eq_self_iff less_le_trans [OF unsigned_less])

lemmas handle_defs = HandlePack_index_def HandlePack_linear_id_def HandlePack_reserved_def

lemma HandlePack_Encode:
  "HandlePack_index (EncodeHandle i l) = take_bit 15 (ucast i)"
  "HandlePack_linear_id (EncodeHandle i l) = take_bit 15 (ucast l)"
  "HandlePack_reserved (EncodeHandle i l) = 0"
  by (simp_all add: handle_defs EncodeHandle_def bf_simps)

lemma handle_eqI:
  assumes "HandlePack_index g = HandlePack_index h"
    and "HandlePack_linear_id g = HandlePack_linear_id h"
    and "HandlePack_reserved g = HandlePack_reserved h"
  shows "g = h"
proof (rule bit_word_eqI)
  fix n assume n: "n < LENGTH(32)"
  have *: "bit (HandlePack_index g) n = bit (HandlePack_index h) n"
    "bit (HandlePack_linear_id g) (n - 15) = bit (HandlePack_linear_id h) (n - 15)"
    "bit (HandlePack_reserved g) (n - 30) = bit (HandlePack_reserved h) (n - 30)"
    using assms by simp_all
  consider "n < 15" | "15 \<le> n \<and> n < 30" | "30 \<le> n" by linarith
  then show "bit g n = bit h n"
    using * n by cases (auto simp: handle_defs bit_bf_ExtractValue)
qed

lemma take_bit_15_u16: "unat l \<le> 0x7FFF \<Longrightarrow> take_bit 15 (ucast (l :: u16) :: u32) = ucast l"
  by (simp add: word_unat_eq_iff unsigned_take_bit_eq unat_ucast_up_u16 take_bit_nat_eq_self_iff)

lemma HandlePack_index_less: "unat (HandlePack_index h) < 2 ^ 15"
  unfolding HandlePack_index_def by (rule bf_ExtractValue_less) simp_all

lemma HandlePack_linear_id_less: "unat (HandlePack_linear_id h) < 2 ^ 15"
  unfolding HandlePack_linear_id_def by (rule bf_ExtractValue_less) simp_all

lemma take_bit_15_field:
  "unat (w :: u32) < 2 ^ 15 \<Longrightarrow> take_bit 15 (ucast (ucast w :: u16) :: u32) = w"
  by (simp add: word_unat_eq_iff unsigned_take_bit_eq unat_ucast_up_u16 unsigned_ucast_eq
      take_bit_nat_eq_self)

text \<open>A handle without reserved bits is the encoding of its two fields.\<close>

lemma Encode_HandlePack:
  assumes "HandlePack_reserved h = 0"
  shows "EncodeHandle (ucast (HandlePack_index h)) (ucast (HandlePack_linear_id h)) = h"
  by (rule handle_eqI)
    (simp_all add: HandlePack_Encode assms take_bit_15_field HandlePack_index_less
      HandlePack_linear_id_less del: power_numeral)

section \<open>Invariant\<close>

text \<open>\<open>free_chain infos h fs\<close>: following \<^verbatim>\<open>next_free_index\<close> from \<open>h\<close> visits \<open>fs\<close> and ends at \<open>- 1\<close>.\<close>

primrec free_chain :: "EntryInfo list \<Rightarrow> s32 \<Rightarrow> nat list \<Rightarrow> bool" where
  "free_chain infos h [] \<longleftrightarrow> h = - 1"
| "free_chain infos h (i # fs) \<longleftrightarrow>
     h = int i \<and> i < length infos \<and> free_chain infos (GetNextFreeIndex (infos ! i)) fs"

definition ht_inv :: "KHandleTable \<Rightarrow> nat list \<Rightarrow> bool" where
  "ht_inv t fs \<longleftrightarrow>
     length (m_entry_infos t) = MaxTableSize \<and> length (m_objects t) = MaxTableSize \<and>
     unat (m_table_size t) \<le> MaxTableSize \<and> distinct fs \<and>
     (\<forall>i \<in> set fs. i < unat (m_table_size t) \<and> m_objects t ! i = None) \<and>
     free_chain (m_entry_infos t) (m_free_head_index t) fs \<and>
     unat (m_count t) + length fs = unat (m_table_size t) \<and>
     1 \<le> unat (m_next_linear_id t) \<and> unat (m_next_linear_id t) \<le> 0x7FFF \<and>
     (\<forall>i < unat (m_table_size t). m_objects t ! i \<noteq> None \<longrightarrow>
        1 \<le> unat (m_entry_infos t ! i) \<and> unat (m_entry_infos t ! i) \<le> 0x7FFF)"

definition ht_ok :: "KHandleTable \<Rightarrow> bool" where
  "ht_ok t \<longleftrightarrow> (\<exists>fs. ht_inv t fs)"

text \<open>What the table means: the objects reachable through each handle.\<close>

definition ht_map :: "KHandleTable \<Rightarrow> Handle \<Rightarrow> obj option" where
  "ht_map t h =
     (let i = unat (HandlePack_index h)
      in if HandlePack_reserved h = 0 \<and> HandlePack_linear_id h \<noteq> 0 \<and> i < unat (m_table_size t)
            \<and> unat (m_entry_infos t ! i) = unat (HandlePack_linear_id h)
         then m_objects t ! i else None)"

lemma ht_map_cong:
  "m_objects t' = m_objects t \<Longrightarrow> m_entry_infos t' = m_entry_infos t \<Longrightarrow>
   m_table_size t' = m_table_size t \<Longrightarrow> ht_map t' = ht_map t"
  by (rule ext) (simp add: ht_map_def Let_def)

lemma free_chain_update:
  "i \<notin> set fs \<Longrightarrow> free_chain (infos[i := v]) h fs = free_chain infos h fs"
  by (induction fs arbitrary: h) auto

lemma sint_of_small_int: "- 1 \<le> x \<Longrightarrow> x < 1024 \<Longrightarrow> sint (word_of_int x :: u16) = x"
  by (simp add: sint_sbintrunc' signed_take_bit_int_eq_self)

lemma sint_pred_nat: "i < 1024 \<Longrightarrow> sint (word_of_nat i - 1 :: u16) = int i - 1"
  using sint_of_small_int [of "int i - 1"] by simp

lemma free_chain_head:
  "free_chain infos h fs \<Longrightarrow> length infos = MaxTableSize \<Longrightarrow> - 1 \<le> h \<and> h < 1024"
  by (cases fs) (auto simp: MaxTableSize_def)

lemma ucast_size_le: "(HandlePack_index h < ucast (sz :: u16)) = (unat (HandlePack_index h) < unat sz)"
  by (simp add: word_less_nat_alt unat_ucast_up_u16)

text \<open>Lookup is the map: it never faults on a well-formed table.\<close>

lemma GetObjectImpl_map:
  assumes "ht_inv t fs"
  shows "GetObjectImpl h t = Inr (ht_map t h)"
proof -
  let ?i = "unat (HandlePack_index h)"
  have len: "length (m_entry_infos t) = 1024" "length (m_objects t) = 1024" "unat (m_table_size t) \<le> 1024"
    using assms by (auto simp: ht_inv_def MaxTableSize_def)
  have z: "h = 0 \<Longrightarrow> HandlePack_linear_id h = 0"
    by (simp add: HandlePack_linear_id_def bf_ExtractValue_def)
  show ?thesis
    using len z
    by (auto simp: GetObjectImpl_def IsValidHandle_def ht_map_def Let_def not_less [symmetric]
        ucast_size_le GetLinearId_def word_unat_eq_iff unat_ucast_up_u16)
qed

section \<open>Operations keep the invariant and implement the map\<close>

lemmas ht_fields = KHandleTable.simps

lemma free_entries_spec:
  assumes "length (m_entry_infos t) = MaxTableSize" "length (m_objects t) = MaxTableSize"
    and "i + n \<le> MaxTableSize" "m_free_head_index t = int i - 1"
    and "free_chain (m_entry_infos t) (int i - 1) (rev [0..<i])" "\<forall>j < i. m_objects t ! j = None"
  shows "\<exists>infos objs. free_entries i n t =
      Inr (t\<lparr>m_objects := objs, m_entry_infos := infos, m_free_head_index := int (i + n) - 1\<rparr>) \<and>
    length infos = MaxTableSize \<and> length objs = MaxTableSize \<and>
    free_chain infos (int (i + n) - 1) (rev [0..<i + n]) \<and> (\<forall>j < i + n. objs ! j = None)"
  using assms
proof (induction n arbitrary: i t)
  case 0
  then show ?case
    by (intro exI [of _ "m_entry_infos t"] exI [of _ "m_objects t"]) simp
next
  case (Suc n)
  let ?t = "t\<lparr>m_objects := (m_objects t)[i := None],
      m_entry_infos := (m_entry_infos t)[i := word_of_int (int i - 1)], m_free_head_index := int i\<rparr>"
  have "free_chain (m_entry_infos ?t) (int (Suc i) - 1) (rev [0..<Suc i])"
    using Suc.prems
    by (simp add: free_chain_update GetNextFreeIndex_def sint_pred_nat MaxTableSize_def)
  moreover have "\<forall>j < Suc i. m_objects ?t ! j = None"
    using Suc.prems by (auto simp: nth_list_update_if less_Suc_eq)
  ultimately show ?case
    using Suc.IH [of ?t "Suc i"] Suc.prems by (auto simp: algebra_simps)
qed

lemma Initialize_spec:
  assumes "length (m_entry_infos t) = MaxTableSize" "length (m_objects t) = MaxTableSize"
    and sz: "sz \<le> int MaxTableSize"
  shows "\<exists>t'. KHandleTable_Initialize sz t = Inr (ResultSuccess, t') \<and>
     ht_inv t' (rev [0..<unat (m_table_size t')]) \<and> ht_map t' = Map.empty \<and> m_count t' = 0 \<and>
     int (unat (m_table_size t')) = (if sz \<le> 0 then int MaxTableSize else sz)"
proof -
  let ?n = "if sz \<le> 0 then int MaxTableSize else sz"
  let ?w = "word_of_int ?n :: u16"
  let ?t = "t\<lparr>m_max_count := 0, m_table_size := ?w, m_next_linear_id := MinLinearId, m_count := 0,
      m_free_head_index := - 1\<rparr>"
  have n: "0 \<le> ?n" "?n \<le> 1024" using sz by (auto simp: MaxTableSize_def)
  then have w: "int (unat ?w) = ?n"
    by (auto simp: unsigned_of_int take_bit_int_eq_self)
  from free_entries_spec [of ?t 0 "unat ?w"] assms w n
  obtain infos objs where
    "free_entries 0 (unat ?w) ?t =
       Inr (?t\<lparr>m_objects := objs, m_entry_infos := infos, m_free_head_index := int (unat ?w) - 1\<rparr>)"
    "length infos = MaxTableSize" "length objs = MaxTableSize"
    "free_chain infos (int (unat ?w) - 1) (rev [0..<unat ?w])" "\<forall>j < unat ?w. objs ! j = None"
    by (auto simp: MaxTableSize_def simp del: of_nat_unat)
  then show ?thesis
    using sz w n
    by (auto simp: KHandleTable_Initialize_def Let_def ht_inv_def ht_map_def MinLinearId_def
        MaxTableSize_def fun_eq_iff simp del: of_nat_unat)
qed

lemma ht_inv_free_count:
  "ht_inv t fs \<Longrightarrow> m_count t < m_table_size t \<longleftrightarrow> fs \<noteq> []"
  by (cases fs) (auto simp: ht_inv_def word_less_nat_alt)

lemma ht_inv_used_count:
  assumes "ht_inv t fs" "i < unat (m_table_size t)" "i \<notin> set fs"
  shows "0 < m_count t"
proof -
  have "insert i (set fs) \<subseteq> {..<unat (m_table_size t)}" using assms by (auto simp: ht_inv_def)
  then have "card (insert i (set fs)) \<le> unat (m_table_size t)"
    by (metis card_lessThan card_mono finite_lessThan)
  then show ?thesis using assms by (auto simp: ht_inv_def distinct_card word_less_nat_alt)
qed

lemma AllocateEntry_spec:
  assumes "ht_inv t (i # fs)"
  shows "\<exists>t'. AllocateEntry t = Inr (int i, t') \<and> ht_inv t' fs \<and> i < unat (m_table_size t) \<and>
    i \<notin> set fs \<and> m_objects t ! i = None \<and> m_objects t' = m_objects t \<and>
    m_entry_infos t' = m_entry_infos t \<and> m_table_size t' = m_table_size t \<and>
    m_next_linear_id t' = m_next_linear_id t \<and> m_count t' = m_count t + 1"
proof -
  have "unat (m_count t) + 1 < 2 ^ LENGTH(16)" using assms by (auto simp: ht_inv_def MaxTableSize_def)
  then have "unat (m_count t + 1) = unat (m_count t) + 1" by (simp add: unat_word_ariths)
  then show ?thesis
    using assms ht_inv_free_count [OF assms]
    by (auto simp: AllocateEntry_def Let_def ht_inv_def)
qed

lemma AllocateLinearId_spec:
  assumes "ht_inv t fs"
  shows "\<exists>t'. AllocateLinearId t = (m_next_linear_id t, t') \<and> ht_inv t' fs \<and>
    ht_map t' = ht_map t \<and> m_objects t' = m_objects t \<and> m_entry_infos t' = m_entry_infos t \<and>
    m_table_size t' = m_table_size t \<and> m_count t' = m_count t"
proof -
  have "unat (m_next_linear_id t) + 1 < 2 ^ LENGTH(16)" using assms by (simp add: ht_inv_def)
  then have "unat (m_next_linear_id t + 1) = unat (m_next_linear_id t) + 1"
    by (simp add: unat_word_ariths)
  then show ?thesis
    using assms
    by (auto simp: AllocateLinearId_def Let_def ht_inv_def ht_map_def fun_eq_iff MaxLinearId_def
        MinLinearId_def word_less_nat_alt)
qed

text \<open>Storing an object in an allocated entry, and freeing a used one.\<close>

lemma ht_inv_store:
  assumes "ht_inv t fs" "i < unat (m_table_size t)" "i \<notin> set fs"
    and "1 \<le> unat l" "unat l \<le> 0x7FFF"
  shows "ht_inv (t\<lparr>m_entry_infos := (m_entry_infos t)[i := l], m_objects := (m_objects t)[i := Some ob]\<rparr>) fs"
  using assms unfolding ht_inv_def
  by (auto simp: free_chain_update nth_list_update MaxTableSize_def)

lemma handle_of_fields:
  assumes "HandlePack_reserved h = 0" "unat (HandlePack_index h) = i" "unat (HandlePack_linear_id h) = unat l"
  shows "h = EncodeHandle (of_nat i) (l :: u16)"
proof -
  have "ucast (HandlePack_index h) = (of_nat i :: u16)"
    using assms(2) by (auto simp: word_unat_eq_iff unsigned_ucast_eq unsigned_of_nat)
  moreover have "ucast (HandlePack_linear_id h) = l"
    using assms(3) unsigned_less [of l, where 'a = nat]
    by (simp add: word_unat_eq_iff unsigned_ucast_eq take_bit_nat_eq_self_iff)
  ultimately show ?thesis using Encode_HandlePack [OF assms(1)] by simp
qed

lemma Encode_fields:
  assumes "i < 1024" "unat (l :: u16) \<le> 0x7FFF"
  shows "unat (HandlePack_index (EncodeHandle (of_nat i) l)) = i"
    and "unat (HandlePack_linear_id (EncodeHandle (of_nat i) l)) = unat l"
    and "HandlePack_reserved (EncodeHandle (of_nat i) l) = 0"
proof -
  have "unat (of_nat i :: u16) = i" using assms(1) by (simp add: unat_of_nat)
  then show "unat (HandlePack_index (EncodeHandle (of_nat i) l)) = i"
    using assms(1) by (simp add: HandlePack_Encode take_bit_15_u16 unat_ucast_up_u16)
qed (use assms in \<open>simp_all add: HandlePack_Encode take_bit_15_u16 unat_ucast_up_u16\<close>)

lemma ht_map_fresh:
  assumes "ht_inv t fs" "i < unat (m_table_size t)" "m_objects t ! i = None" "unat l \<le> 0x7FFF"
  shows "ht_map t (EncodeHandle (of_nat i) l) = None"
proof -
  have "i < 1024" using assms by (auto simp: ht_inv_def MaxTableSize_def)
  then show ?thesis using assms(3) Encode_fields(1) [OF _ assms(4)] by (simp add: ht_map_def)
qed

lemma ht_map_store:
  assumes "ht_inv t fs" "i < unat (m_table_size t)" "m_objects t ! i = None"
    and l: "1 \<le> unat l" "unat l \<le> 0x7FFF"
  shows "ht_map (t\<lparr>m_entry_infos := (m_entry_infos t)[i := l], m_objects := (m_objects t)[i := Some ob]\<rparr>)
    = (ht_map t)(EncodeHandle (of_nat i) l \<mapsto> ob)" (is "?L = ?R")
proof -
  have i: "i < 1024" "length (m_entry_infos t) = 1024" "length (m_objects t) = 1024"
    using assms by (auto simp: ht_inv_def MaxTableSize_def)
  note enc = Encode_fields [OF i(1) l(2)]
  have ln: "HandlePack_linear_id (EncodeHandle (of_nat i) l) \<noteq> 0"
    using enc(2) l(1) by (metis not_one_le_zero unsigned_0)
  show "?L = ?R"
  proof
    fix h
    show "?L h = ?R h"
    proof (cases "h = EncodeHandle (of_nat i) l")
      case True
      then show ?thesis using enc ln i assms(2) by (simp add: ht_map_def)
    next
      case False
      then have "HandlePack_reserved h = 0 \<Longrightarrow> unat (HandlePack_index h) = i \<Longrightarrow>
        unat l \<noteq> unat (HandlePack_linear_id h)"
        using handle_of_fields [of h i l] by auto
      with False i assms(2,3) show ?thesis
        by (auto simp: ht_map_def Let_def nth_list_update)
    qed
  qed
qed

lemma FreeEntry_spec:
  assumes "ht_inv t fs" "i < unat (m_table_size t)" "i \<notin> set fs"
  shows "\<exists>t'. FreeEntry (int i) t = Inr t' \<and> ht_inv t' (i # fs) \<and>
    ht_map t' = (\<lambda>h. if unat (HandlePack_index h) = i then None else ht_map t h) \<and>
    m_objects t' = (m_objects t)[i := None] \<and> m_table_size t' = m_table_size t \<and>
    m_count t' = m_count t - 1"
proof -
  have pos: "0 < m_count t" using ht_inv_used_count [OF assms] .
  then have c: "unat (m_count t - 1) = unat (m_count t) - 1" "1 \<le> unat (m_count t)"
    by (simp_all add: unat_sub word_le_nat_alt word_less_nat_alt)
  have h: "- 1 \<le> m_free_head_index t \<and> m_free_head_index t < 1024"
    using assms(1) free_chain_head by (auto simp: ht_inv_def)
  have i: "i < 1024" "length (m_entry_infos t) = 1024" "length (m_objects t) = 1024"
    using assms by (auto simp: ht_inv_def MaxTableSize_def)
  let ?t = "t\<lparr>m_objects := (m_objects t)[i := None],
      m_entry_infos := (m_entry_infos t)[i := word_of_int (m_free_head_index t)],
      m_free_head_index := int i, m_count := m_count t - 1\<rparr>"
  have "FreeEntry (int i) t = Inr ?t" using pos i by (simp add: FreeEntry_def)
  moreover have "ht_inv ?t (i # fs)"
    using assms c h i unfolding ht_inv_def
    by (auto simp: free_chain_update nth_list_update GetNextFreeIndex_def sint_of_small_int)
  moreover have "ht_map ?t = (\<lambda>h. if unat (HandlePack_index h) = i then None else ht_map t h)"
    using i by (auto simp: ht_map_def Let_def nth_list_update fun_eq_iff)
  ultimately show ?thesis by auto
qed

lemma pseudo_handle_reserved: "IsPseudoHandle h \<Longrightarrow> HandlePack_reserved h \<noteq> 0"
  by (auto simp: IsPseudoHandle_def CurrentProcess_def CurrentThread_def HandlePack_reserved_def
      bf_ExtractValue_take_bit)

lemma ht_map_used: "ht_inv t fs \<Longrightarrow> ht_map t h = Some ob \<Longrightarrow>
  unat (HandlePack_index h) < unat (m_table_size t) \<and> unat (HandlePack_index h) \<notin> set fs \<and>
  m_objects t ! unat (HandlePack_index h) = Some ob \<and> HandlePack_reserved h = 0 \<and> \<not> IsPseudoHandle h"
  by (auto simp: ht_map_def ht_inv_def Let_def dest: pseudo_handle_reserved split: if_splits)

text \<open>Two handles with the same index cannot both resolve.\<close>

lemma ht_map_index_unique:
  assumes "ht_inv t fs" "ht_map t g \<noteq> None" "ht_map t h \<noteq> None"
    and "HandlePack_index g = HandlePack_index h"
  shows "g = h"
  using assms(2-4) by (intro handle_eqI [of g h, OF assms(4)])
    (auto simp: ht_map_def Let_def word_unat_eq_iff split: if_splits)

section \<open>The public operations\<close>

lemma Add_spec:
  assumes inv: "ht_inv t fs" and op: "openable k ob"
  shows "case fs of
      [] \<Rightarrow> KHandleTable_Add ob (t, k) = Inr ((ResultOutOfHandles, None), t, k)
    | i # fs' \<Rightarrow> \<exists>h t' k'. KHandleTable_Add ob (t, k) = Inr ((ResultSuccess, Some h), t', k') \<and>
        h = EncodeHandle (of_nat i) (m_next_linear_id t) \<and> ht_inv t' fs' \<and> ht_map t h = None \<and>
        ht_map t' = (ht_map t)(h \<mapsto> ob) \<and> m_count t' = m_count t + 1 \<and>
        m_objects t' = (m_objects t)[i := Some ob] \<and> m_table_size t' = m_table_size t \<and>
        i < unat (m_table_size t) \<and> m_objects t ! i = None \<and>
        k' = k\<lparr>ref_count := (ref_count k)(ob := ref_count k ob + 1)\<rparr>"
proof (cases fs)
  case Nil
  then show ?thesis
    using ht_inv_free_count [OF inv] by (simp add: KHandleTable_Add_def)
next
  case (Cons i fs')
  let ?l = "m_next_linear_id t"
  have l: "1 \<le> unat ?l" "unat ?l \<le> 0x7FFF" using inv by (auto simp: ht_inv_def)
  from AllocateLinearId_spec [OF inv] obtain t1 where
    t1: "AllocateLinearId t = (?l, t1)" "ht_inv t1 fs" "ht_map t1 = ht_map t"
      "m_objects t1 = m_objects t" "m_table_size t1 = m_table_size t" "m_count t1 = m_count t"
    by blast
  from AllocateEntry_spec [OF t1(2) [unfolded Cons]] obtain t2 where
    t2: "AllocateEntry t1 = Inr (int i, t2)" "ht_inv t2 fs'" "i < unat (m_table_size t1)"
      "i \<notin> set fs'" "m_objects t1 ! i = None" "m_objects t2 = m_objects t1"
      "m_entry_infos t2 = m_entry_infos t1" "m_table_size t2 = m_table_size t1"
      "m_count t2 = m_count t1 + 1"
    by blast
  have len: "i < length (m_entry_infos t2)" "i < length (m_objects t2)"
    using t2 by (auto simp: ht_inv_def)
  have map2: "ht_map t2 = ht_map t" using t1(3) ht_map_cong [of t2 t1] t2 by simp
  have used: "i < unat (m_table_size t2)" "m_objects t2 ! i = None" using t2 by auto
  show ?thesis
    using ht_inv_free_count [OF inv] Cons t1 t2 len l map2
      ht_inv_store [OF t2(2) used(1) t2(4) l, of ob] ht_map_store [OF t2(2) used l, of ob]
      ht_map_fresh [OF t2(2) used l(2)]
    by (auto simp: KHandleTable_Add_def Open_openable [OF op])
qed

lemma Remove_spec:
  assumes inv: "ht_inv t fs" and alive: "\<forall>ob. ht_map t h = Some ob \<longrightarrow> ref_count k ob \<noteq> 0"
  shows "case ht_map t h of
      None \<Rightarrow> KHandleTable_Remove h (t, k) = Inr (False, t, k)
    | Some ob \<Rightarrow> \<exists>t' k'. KHandleTable_Remove h (t, k) = Inr (True, t', k') \<and>
        ht_inv t' (unat (HandlePack_index h) # fs) \<and> ht_map t' = (ht_map t)(h := None) \<and>
        m_count t' = m_count t - 1 \<and> m_table_size t' = m_table_size t \<and>
        m_objects t' = (m_objects t)[unat (HandlePack_index h) := None] \<and>
        unat (HandlePack_index h) < unat (m_table_size t) \<and>
        m_objects t ! unat (HandlePack_index h) = Some ob \<and> KAutoObject_Close ob (UnregisterInUseObject ob k) = Inr k'"
proof -
  let ?i = "unat (HandlePack_index h)"
  have get: "GetObjectImpl h t = Inr (ht_map t h)" by (rule GetObjectImpl_map [OF inv])
  show ?thesis
  proof (cases "ht_map t h")
    case None
    with get show ?thesis
      by (auto simp: KHandleTable_Remove_def GetObjectImpl_def IsValidHandle_def Let_def aget_def
          bind_run_eq_Inr split: if_splits)
  next
    case (Some ob)
    note used = ht_map_used [OF inv Some]
    have valid: "IsValidHandle h t = Inr True"
      using get Some used by (auto simp: GetObjectImpl_def bind_run_eq_Inr split: if_splits)
    have len: "?i < length (m_objects t)" using used inv by (auto simp: ht_inv_def)
    from FreeEntry_spec [OF inv, of ?i] used obtain t' where
      t': "FreeEntry (int ?i) t = Inr t'" "ht_inv t' (?i # fs)"
        "ht_map t' = (\<lambda>g. if unat (HandlePack_index g) = ?i then None else ht_map t g)"
        "m_count t' = m_count t - 1" "m_table_size t' = m_table_size t"
        "m_objects t' = (m_objects t)[?i := None]"
      by blast
    have uniq: "unat (HandlePack_index g) = ?i \<Longrightarrow> g \<noteq> h \<Longrightarrow> ht_map t g = None" for g
      using ht_map_index_unique [OF inv, of g h] Some
        word_unat_eq_iff [of "HandlePack_index g" "HandlePack_index h"]
      by (cases "ht_map t g") auto
    have map': "ht_map t' = (ht_map t)(h := None)"
      unfolding t'(3) by (rule ext) (simp add: uniq)
    from Close_alive [of "UnregisterInUseObject ob k" ob] alive Some obtain k' where
      k': "KAutoObject_Close ob (UnregisterInUseObject ob k) = Inr k'" by auto
    show ?thesis
      using Some used valid len t' k' map' by (simp add: KHandleTable_Remove_def)
  qed
qed

lemma Reserve_spec:
  assumes inv: "ht_inv t fs"
  shows "case fs of
      [] \<Rightarrow> KHandleTable_Reserve t = Inr ((ResultOutOfHandles, None), t)
    | i # fs' \<Rightarrow> \<exists>t'. KHandleTable_Reserve t =
          Inr ((ResultSuccess, Some (EncodeHandle (of_nat i) (m_next_linear_id t))), t') \<and>
        ht_inv t' fs' \<and> ht_map t' = ht_map t \<and> m_objects t' ! i = None \<and> m_table_size t' = m_table_size t"
proof (cases fs)
  case Nil
  then show ?thesis
    using ht_inv_free_count [OF inv] by (simp add: KHandleTable_Reserve_def)
next
  case (Cons i fs')
  from AllocateEntry_spec [OF inv [unfolded Cons]] obtain t1 where
    t1: "AllocateEntry t = Inr (int i, t1)" "ht_inv t1 fs'" "m_objects t ! i = None"
      "m_objects t1 = m_objects t" "m_entry_infos t1 = m_entry_infos t"
      "m_table_size t1 = m_table_size t" "m_next_linear_id t1 = m_next_linear_id t"
    by blast
  from AllocateLinearId_spec [OF t1(2)] obtain t2 where
    t2: "AllocateLinearId t1 = (m_next_linear_id t1, t2)" "ht_inv t2 fs'" "ht_map t2 = ht_map t1"
      "m_objects t2 = m_objects t1" "m_table_size t2 = m_table_size t1"
    by blast
  have "ht_map t1 = ht_map t" using t1 by (intro ht_map_cong)
  then show ?thesis
    using ht_inv_free_count [OF inv] Cons t1 t2 by (simp add: KHandleTable_Reserve_def)
qed

text \<open>A reserved handle: its entry is allocated and holds no object yet.\<close>

definition reserved_handle :: "KHandleTable \<Rightarrow> nat list \<Rightarrow> Handle \<Rightarrow> bool" where
  "reserved_handle t fs h \<longleftrightarrow>
     HandlePack_reserved h = 0 \<and> HandlePack_linear_id h \<noteq> 0 \<and>
     unat (HandlePack_index h) < unat (m_table_size t) \<and> unat (HandlePack_index h) \<notin> set fs \<and>
     m_objects t ! unat (HandlePack_index h) = None"

lemma Register_spec:
  assumes inv: "ht_inv t fs" and rs: "reserved_handle t fs h" and op: "openable k ob"
  shows "\<exists>t'. KHandleTable_Register h ob (t, k) =
      Inr (t', k\<lparr>ref_count := (ref_count k)(ob := ref_count k ob + 1)\<rparr>) \<and>
    ht_inv t' fs \<and> ht_map t' = (ht_map t)(h \<mapsto> ob) \<and> ht_map t h = None"
proof -
  let ?i = "unat (HandlePack_index h)" and ?l = "ucast (HandlePack_linear_id h) :: u16"
  have "unat ?l = unat (HandlePack_linear_id h)"
    using HandlePack_linear_id_less [of h]
    by (simp add: unsigned_ucast_eq take_bit_nat_eq_self_iff)
  then have l: "1 \<le> unat ?l" "unat ?l \<le> 0x7FFF" "unat (HandlePack_linear_id h) = unat ?l"
    using rs HandlePack_linear_id_less [of h]
    by (auto simp: reserved_handle_def unat_eq_zero Suc_le_eq simp flip: unat_gt_0)
  have enc: "EncodeHandle (of_nat ?i) ?l = h"
    using handle_of_fields [of h ?i ?l] rs l by (simp add: reserved_handle_def)
  have len: "?i < length (m_objects t)" "?i < length (m_entry_infos t)"
    using rs inv by (auto simp: reserved_handle_def ht_inv_def)
  show ?thesis
    using rs len ht_inv_store [OF inv _ _ l(1,2), of ?i ob] ht_map_store [OF inv _ _ l(1,2), of ?i ob] enc
      ht_map_fresh [OF inv _ _ l(2), of ?i]
    by (simp add: KHandleTable_Register_def reserved_handle_def ucast_size_le Open_openable [OF op])
qed

lemma Unreserve_spec:
  assumes inv: "ht_inv t fs" and rs: "reserved_handle t fs h"
  shows "\<exists>t'. KHandleTable_Unreserve h t = Inr t' \<and> ht_inv t' (unat (HandlePack_index h) # fs) \<and>
    ht_map t' = ht_map t"
proof -
  let ?i = "unat (HandlePack_index h)"
  have i: "?i < unat (m_table_size t)" "?i \<notin> set fs" "m_objects t ! ?i = None" "?i < length (m_objects t)"
    using rs inv by (auto simp: reserved_handle_def ht_inv_def)
  from FreeEntry_spec [OF inv i(1,2)] obtain t' where
    t': "FreeEntry (int ?i) t = Inr t'" "ht_inv t' (?i # fs)"
      "ht_map t' = (\<lambda>g. if unat (HandlePack_index g) = ?i then None else ht_map t g)"
    by blast
  have "ht_map t' = ht_map t"
    using t'(3) i(3) by (auto simp: fun_eq_iff ht_map_def Let_def)
  with t' i rs show ?thesis
    by (simp add: KHandleTable_Unreserve_def reserved_handle_def ucast_size_le)
qed

section \<open>References held by the table\<close>

definition holders :: "KHandleTable \<Rightarrow> obj \<Rightarrow> nat set" where
  "holders t ob = {i. i < unat (m_table_size t) \<and> m_objects t ! i = Some ob}"

text \<open>Every entry owns one reference of its object.\<close>

definition refs_ok :: "KHandleTable \<Rightarrow> kernel \<Rightarrow> bool" where
  "refs_ok t k \<longleftrightarrow> (\<forall>ob. card (holders t ob) \<le> unat (ref_count k ob))"

lemma finite_holders [simp]: "finite (holders t ob)"
  by (simp add: holders_def)

lemma holders_store:
  assumes "m_objects t' = (m_objects t)[i := Some ob]" "m_table_size t' = m_table_size t"
    and "i < unat (m_table_size t)" "m_objects t ! i = None" "unat (m_table_size t) \<le> length (m_objects t)"
  shows "card (holders t' p) = card (holders t p) + (if p = ob then 1 else 0)"
proof -
  have "holders t' p = (if p = ob then insert i (holders t p) else holders t p)"
    using assms by (auto simp: holders_def nth_list_update)
  moreover have "i \<notin> holders t p" using assms(4) by (simp add: holders_def)
  ultimately show ?thesis by auto
qed

lemma holders_free:
  assumes "m_objects t' = (m_objects t)[i := None]" "m_table_size t' = m_table_size t"
    and "i < unat (m_table_size t)" "m_objects t ! i = Some ob" "unat (m_table_size t) \<le> length (m_objects t)"
  shows "card (holders t' p) = card (holders t p) - (if p = ob then 1 else 0)"
proof -
  have "holders t' p = (if p = ob then holders t p - {i} else holders t p)"
    using assms by (auto simp: holders_def nth_list_update)
  moreover have "i \<in> holders t ob" using assms(3,4) by (simp add: holders_def)
  ultimately show ?thesis by simp
qed

lemma refs_ok_alive: "refs_ok t k \<Longrightarrow> ht_map t h = Some ob \<Longrightarrow> ht_inv t fs \<Longrightarrow> ref_count k ob \<noteq> 0"
proof -
  assume a: "refs_ok t k" "ht_map t h = Some ob" "ht_inv t fs"
  then have "unat (HandlePack_index h) \<in> holders t ob"
    using ht_map_used [OF a(3,2)] by (simp add: holders_def)
  then have "0 < card (holders t ob)" using card_gt_0_iff by fastforce
  with a(1) show ?thesis by (metis le_zero_eq less_numeral_extra(3) refs_ok_def unsigned_0)
qed

lemma unat_inc: "w \<noteq> - 1 \<Longrightarrow> unat (w + 1) = unat (w :: 'a::len word) + 1"
  using unatSuc [of w] word_Suc_nonzero [of w] by (simp add: add.commute)

lemma unat_dec: "w \<noteq> 0 \<Longrightarrow> unat (w - 1) = unat (w :: 'a::len word) - 1"
  by (simp add: unat_minus_one)

section \<open>The interface of an object table\<close>

text \<open>What the owner of a table relies on: a lookup function, an \<open>add\<close> that fails without effect or
  binds a fresh handle, a \<open>remove\<close> that unbinds exactly one.\<close>

locale object_table =
  fixes lookup :: "'t \<Rightarrow> 'h \<Rightarrow> 'o option"
    and add :: "'o \<Rightarrow> 't \<Rightarrow> ('h option \<times> 't) run"
    and remove :: "'h \<Rightarrow> 't \<Rightarrow> (bool \<times> 't) run"
    and inv :: "'t \<Rightarrow> bool" and admissible :: "'t \<Rightarrow> 'o \<Rightarrow> bool"
  assumes add_law: "inv s \<Longrightarrow> admissible s ob \<Longrightarrow>
      add ob s = Inr (None, s) \<or>
      (\<exists>h s'. add ob s = Inr (Some h, s') \<and> inv s' \<and> lookup s h = None \<and> lookup s' = (lookup s)(h \<mapsto> ob))"
    and remove_absent: "inv s \<Longrightarrow> lookup s h = None \<Longrightarrow> remove h s = Inr (False, s)"
    and remove_present: "inv s \<Longrightarrow> lookup s h = Some ob \<Longrightarrow>
      \<exists>s'. remove h s = Inr (True, s') \<and> inv s' \<and> lookup s' = (lookup s)(h := None)"
begin

lemma add_bound:
  assumes "inv s" "admissible s ob" "add ob s = Inr (Some h, s')"
  shows "inv s' \<and> lookup s h = None \<and> lookup s' = (lookup s)(h \<mapsto> ob)"
  using add_law [OF assms(1,2)] assms(3) by auto

lemma add_remove:
  assumes "inv s" "admissible s ob" "add ob s = Inr (Some h, s1)"
  shows "\<exists>s2. remove h s1 = Inr (True, s2) \<and> inv s2 \<and> lookup s2 = lookup s"
proof -
  note b = add_bound [OF assms]
  then obtain s2 where "remove h s1 = Inr (True, s2)" "inv s2" "lookup s2 = (lookup s1)(h := None)"
    using remove_present [of s1 h ob] by auto
  moreover have "(lookup s)(h := None) = lookup s" using b by (auto simp: fun_eq_iff)
  ultimately show ?thesis using b by auto
qed

lemma remove_twice:
  assumes "inv s" "remove h s = Inr (True, s1)"
  shows "remove h s1 = Inr (False, s1)"
proof (cases "lookup s h")
  case None
  then show ?thesis using remove_absent [OF assms(1)] assms(2) by simp
next
  case (Some ob)
  then show ?thesis using remove_present [OF assms(1) Some] remove_absent [of s1 h] assms(2) by auto
qed

lemma remove_keeps_others:
  assumes "inv s" "remove h s = Inr (b, s1)" "g \<noteq> h"
  shows "lookup s1 g = lookup s g"
  using remove_absent [of s h] remove_present [of s h] assms by (cases "lookup s h") auto

end

text \<open>The handle table and the objects it refers to.\<close>

definition ht_lookup :: "KHandleTable \<times> kernel \<Rightarrow> Handle \<Rightarrow> obj option" where
  "ht_lookup s = ht_map (fst s)"

definition ht_add :: "obj \<Rightarrow> KHandleTable \<times> kernel \<Rightarrow> (Handle option \<times> KHandleTable \<times> kernel) run" where
  "ht_add ob s = bind_run (KHandleTable_Add ob s) (\<lambda>((_, h), s'). Inr (h, s'))"

definition ht_state_ok :: "KHandleTable \<times> kernel \<Rightarrow> bool" where
  "ht_state_ok s \<longleftrightarrow> ht_ok (fst s) \<and> refs_ok (fst s) (snd s)"

definition ht_admissible :: "KHandleTable \<times> kernel \<Rightarrow> obj \<Rightarrow> bool" where
  "ht_admissible s ob \<longleftrightarrow> openable (snd s) ob"

lemma refs_ok_add:
  assumes "refs_ok t k" "openable k ob" "ht_inv t fs"
    and "m_objects t' = (m_objects t)[i := Some ob]" "m_table_size t' = m_table_size t"
    and "i < unat (m_table_size t)" "m_objects t ! i = None"
  shows "refs_ok t' (k\<lparr>ref_count := (ref_count k)(ob := ref_count k ob + 1)\<rparr>)"
  using assms holders_store [OF assms(4,5,6,7)]
  by (auto simp: refs_ok_def openable_def unat_inc ht_inv_def)

lemma refs_ok_remove:
  assumes "refs_ok t k" "ht_inv t fs" "KAutoObject_Close ob (UnregisterInUseObject ob k) = Inr k'"
    and "m_objects t' = (m_objects t)[i := None]" "m_table_size t' = m_table_size t"
    and "i < unat (m_table_size t)" "m_objects t ! i = Some ob"
  shows "refs_ok t' k'"
  using assms holders_free [OF assms(4,5,6,7)] Close_refs [OF assms(3)]
  by (auto simp: refs_ok_def unat_dec ht_inv_def diff_le_mono)

interpretation ht: object_table ht_lookup ht_add KHandleTable_Remove ht_state_ok ht_admissible
proof
  fix s :: "KHandleTable \<times> kernel" and ob
  assume s: "ht_state_ok s" and adm: "ht_admissible s ob"
  obtain t k where tk: "s = (t, k)" by (cases s)
  with s obtain fs where inv: "ht_inv t fs" and r: "refs_ok t k" by (auto simp: ht_state_ok_def ht_ok_def)
  have op: "openable k ob" using adm tk by (simp add: ht_admissible_def)
  show "ht_add ob s = Inr (None, s) \<or>
    (\<exists>h s'. ht_add ob s = Inr (Some h, s') \<and> ht_state_ok s' \<and> ht_lookup s h = None \<and>
       ht_lookup s' = (ht_lookup s)(h \<mapsto> ob))"
    using Add_spec [OF inv op] refs_ok_add [OF r op inv]
    by (cases fs) (auto simp: tk ht_add_def ht_lookup_def ht_state_ok_def ht_ok_def)
next
  fix s :: "KHandleTable \<times> kernel" and h
  assume s: "ht_state_ok s" and n: "ht_lookup s h = None"
  obtain t k where tk: "s = (t, k)" by (cases s)
  with s obtain fs where inv: "ht_inv t fs" by (auto simp: ht_state_ok_def ht_ok_def)
  show "KHandleTable_Remove h s = Inr (False, s)"
    using Remove_spec [OF inv, of h k] n by (simp add: tk ht_lookup_def)
next
  fix s :: "KHandleTable \<times> kernel" and h ob
  assume s: "ht_state_ok s" and n: "ht_lookup s h = Some ob"
  obtain t k where tk: "s = (t, k)" by (cases s)
  with s obtain fs where inv: "ht_inv t fs" and r: "refs_ok t k" by (auto simp: ht_state_ok_def ht_ok_def)
  show "\<exists>s'. KHandleTable_Remove h s = Inr (True, s') \<and> ht_state_ok s' \<and>
      ht_lookup s' = (ht_lookup s)(h := None)"
    using Remove_spec [OF inv, of h k] n refs_ok_alive [OF r _ inv] refs_ok_remove [OF r inv]
    by (fastforce simp: tk ht_lookup_def ht_state_ok_def ht_ok_def)
qed

section \<open>Opening several handles\<close>

definition bump_refs :: "kernel \<Rightarrow> obj list \<Rightarrow> kernel" where
  "bump_refs k os = k\<lparr>ref_count := (\<lambda>p. ref_count k p + of_nat (count_list os p))\<rparr>"

lemma bump_refs_Nil [simp]: "bump_refs k [] = k"
  by (simp add: bump_refs_def)

lemma bump_refs_snoc:
  "bump_refs k (os @ [p]) =
     (bump_refs k os)\<lparr>ref_count := (ref_count (bump_refs k os))(p := ref_count (bump_refs k os) p + 1)\<rparr>"
  by (rule kernel.equality) (auto simp: bump_refs_def fun_eq_iff)

lemma bumped_unat:
  assumes "unat (ref_count k p) + n < 2 ^ 32" "length os \<le> n"
  shows "unat (ref_count (bump_refs k os) p) = unat (ref_count k p) + count_list os p"
proof -
  have "count_list os p \<le> n" using assms(2) count_le_length [of os p] by linarith
  with assms(1) show ?thesis
    by (simp add: bump_refs_def unat_word_ariths unat_of_nat)
qed

lemma bumped_openable:
  assumes "unat (ref_count k p) + n < 2 ^ 32" "length os < n" "ref_count k p \<noteq> 0"
  shows "openable (bump_refs k os) p"
proof -
  have u: "unat (ref_count (bump_refs k os) p) = unat (ref_count k p) + count_list os p"
    using bumped_unat [OF assms(1)] assms(2) by simp
  moreover have "count_list os p < n" using assms(2) count_le_length [of os p] by linarith
  moreover have "unat (- 1 :: u32) = 2 ^ 32 - 1" by (simp add: unsigned_minus_1_eq_mask mask_eq_exp_minus_1)
  ultimately show ?thesis
    using assms(1,3) by (auto simp: openable_def simp flip: unat_gt_0)
qed

lemma open_handles_spec:
  assumes inv: "ht_inv t fs" and r: "refs_ok t k" and room: "\<forall>p. unat (ref_count k p) + n < 2 ^ 32"
    and "length out + length hs \<le> n"
  shows "\<exists>new. open_handles cast t hs out (bump_refs k out) = Inr (out @ new, bump_refs k (out @ new)) \<and>
    length new \<le> length hs \<and> (\<forall>j < length new. ht_map t (hs ! j) = Some (new ! j) \<and> cast (new ! j)) \<and>
    (length new < length hs \<longrightarrow>
       (\<forall>ob. ht_map t (hs ! length new) = Some ob \<longrightarrow> \<not> cast ob)) \<and>
    (\<forall>p \<in> set new. ref_count k p \<noteq> 0)"
  using assms(4)
proof (induction hs arbitrary: out)
  case Nil
  show ?case by (intro exI [of _ "[]"]) simp
next
  case (Cons h hs)
  note get = GetObjectImpl_map [OF inv, of h]
  show ?case
  proof (cases "\<exists>ob. ht_map t h = Some ob \<and> cast ob")
    case False
    then show ?thesis
      using get by (intro exI [of _ "[]"]) (auto split: option.splits)
  next
    case True
    then obtain ob where ob: "ht_map t h = Some ob" "cast ob" by blast
    have nz: "ref_count k ob \<noteq> 0" by (rule refs_ok_alive [OF r ob(1) inv])
    have "openable (bump_refs k out) ob"
      using bumped_openable [of k ob n out] room Cons.prems nz by simp
    then have op: "open_handles cast t (h # hs) out (bump_refs k out) =
        open_handles cast t hs (out @ [ob]) (bump_refs k (out @ [ob]))"
      using get ob by (simp add: Open_openable bump_refs_snoc)
    from Cons.IH [of "out @ [ob]"] Cons.prems obtain new where
      "open_handles cast t hs (out @ [ob]) (bump_refs k (out @ [ob])) =
         Inr ((out @ [ob]) @ new, bump_refs k ((out @ [ob]) @ new))"
      "length new \<le> length hs" "\<forall>j < length new. ht_map t (hs ! j) = Some (new ! j) \<and> cast (new ! j)"
      "length new < length hs \<longrightarrow> (\<forall>ob. ht_map t (hs ! length new) = Some ob \<longrightarrow> \<not> cast ob)"
      "\<forall>p \<in> set new. ref_count k p \<noteq> 0"
      by auto
    with op ob nz show ?thesis
      by (intro exI [of _ "ob # new"]) (auto simp: nth_Cons split: nat.splits)
  qed
qed

lemma close_all_bumped:
  assumes "\<forall>p. unat (ref_count k p) + n < 2 ^ 32" "length os \<le> n" "\<forall>p \<in> set os. ref_count k p \<noteq> 0"
  shows "close_all os (bump_refs k os) = Inr k"
  using assms(2,3)
proof (induction os)
  case (Cons p os)
  have u: "unat (ref_count (bump_refs k os) p) = unat (ref_count k p) + count_list os p"
    using assms(1) Cons.prems by (intro bumped_unat [of _ _ n]) auto
  have nz: "ref_count (bump_refs k os) p \<noteq> 0"
    using u Cons.prems(2) by (auto simp: unat_eq_zero)
  have eq: "bump_refs k (p # os) =
      (bump_refs k os)\<lparr>ref_count := (ref_count (bump_refs k os))(p := ref_count (bump_refs k os) p + 1)\<rparr>"
    by (rule kernel.equality) (auto simp: bump_refs_def fun_eq_iff)
  have "ref_count (bump_refs k os) p + 1 \<noteq> 0"
    using bumped_openable [of k p n os] assms(1) Cons.prems word_Suc_nonzero
    by (auto simp: openable_def)
  then have "KAutoObject_Close p (bump_refs k (p # os)) = Inr (bump_refs k os)"
    unfolding eq using nz by (simp add: KAutoObject_Close_def Let_def word_gt_0)
  then show ?case using Cons.IH Cons.prems by simp
qed simp

section \<open>Finalisation\<close>

lemma close_objects_spec:
  assumes "\<forall>p. card {j. i \<le> j \<and> j < i + n \<and> objs ! j = Some p} \<le> unat (ref_count k p)"
    and "i + n \<le> length objs"
  shows "\<exists>k'. close_objects i n objs k = Inr k' \<and>
    (\<forall>p. unat (ref_count k' p) =
       unat (ref_count k p) - card {j. i \<le> j \<and> j < i + n \<and> objs ! j = Some p})"
  using assms
proof (induction n arbitrary: i k)
  case 0
  have "{j. i \<le> j \<and> j < i + 0 \<and> objs ! j = Some p} = {}" for p by auto
  then show ?case by (simp only: card.empty) simp
next
  case (Suc n)
  let ?S = "\<lambda>i n p. {j. i \<le> j \<and> j < i + n \<and> objs ! j = Some p}"
  have split: "?S i (Suc n) p = (if objs ! i = Some p then insert i (?S (Suc i) n p) else ?S (Suc i) n p)" for p
    by (auto simp: Suc_le_eq order.order_iff_strict)
  have card: "card (?S i (Suc n) p) = card (?S (Suc i) n p) + (if objs ! i = Some p then 1 else 0)" for p
    unfolding split by simp
  show ?case
  proof (cases "objs ! i")
    case None
    then show ?thesis
      using Suc.IH [of "Suc i" k] Suc.prems card by auto
  next
    case (Some ob)
    have c: "card (?S i (Suc n) p) = card (?S (Suc i) n p) + (if p = ob then 1 else 0)" for p
      unfolding card Some by simp
    have nz: "ref_count k ob \<noteq> 0"
      using Suc.prems(1) [rule_format, of ob] unfolding c by auto
    from Close_alive [OF nz] obtain k1 where
      k1: "KAutoObject_Close ob k = Inr k1" "ref_count k1 = (ref_count k)(ob := ref_count k ob - 1)"
      by blast
    have u: "unat (ref_count k1 p) = unat (ref_count k p) - (if p = ob then 1 else 0)" for p
      using nz by (simp add: k1(2) unat_dec)
    have "card (?S (Suc i) n p) \<le> unat (ref_count k1 p)" for p
      using Suc.prems(1) [rule_format, of p] unfolding c u by (simp split: if_splits)
    then obtain k' where "close_objects (Suc i) n objs k1 = Inr k'"
      "\<forall>p. unat (ref_count k' p) = unat (ref_count k1 p) - card (?S (Suc i) n p)"
      using Suc.IH [of "Suc i" k1] Suc.prems(2) by auto
    moreover have "unat (ref_count k p) - card (?S i (Suc n) p) =
        unat (ref_count k1 p) - card (?S (Suc i) n p)" for p
      unfolding c u by simp
    ultimately show ?thesis
      using Some Suc.prems(2) k1(1) by simp
  qed
qed

section \<open>Properties\<close>

definition fresh_kernel :: kernel where
  "fresh_kernel = \<lparr>ref_count = (\<lambda>_. 1), registered_objects = {}, registered_in_use_objects = {},
     destroyed = []\<rparr>"

text \<open>Initialising a table with more than 1024 entries fails with \<^verbatim>\<open>ResultOutOfMemory\<close> and changes
  nothing; any other size gives, without fault, a well-formed table of that size (1024 for a size that
  is not positive) whose free list holds every entry and in which no handle resolves.\<close>

theorem handle_table_initialize:
  "if sz > 1024 then KHandleTable_Initialize sz new_table = Inr (ResultOutOfMemory, new_table)
   else \<exists>t. KHandleTable_Initialize sz new_table = Inr (ResultSuccess, t) \<and> ht_state_ok (t, k) \<and>
     int (unat (m_table_size t)) = (if sz \<le> 0 then 1024 else sz) \<and> m_count t = 0 \<and>
     (\<forall>h. GetObjectImpl h t = Inr None)"
proof (cases "sz > 1024")
  case True
  then show ?thesis by (simp add: KHandleTable_Initialize_def MaxTableSize_def)
next
  case False
  with Initialize_spec [of new_table sz] obtain t where
    t: "KHandleTable_Initialize sz new_table = Inr (ResultSuccess, t)"
      "ht_inv t (rev [0..<unat (m_table_size t)])" "ht_map t = Map.empty" "m_count t = 0"
      "int (unat (m_table_size t)) = (if sz \<le> 0 then 1024 else sz)"
    by (auto simp: new_table_def MaxTableSize_def)
  have "holders t ob = {}" for ob using t(2) by (auto simp: holders_def ht_inv_def)
  then have "ht_state_ok (t, k)" using t(2) by (auto simp: ht_state_ok_def ht_ok_def refs_ok_def)
  with t False show ?thesis using GetObjectImpl_map [OF t(2)] by auto
qed

lemma example_table:
  obtains t where "ht_state_ok (t, fresh_kernel)" "m_count t < m_table_size t"
    "KHandleTable_Initialize 4 new_table = Inr (ResultSuccess, t)" "\<And>h. GetObjectImpl h t = Inr None"
proof -
  from Initialize_spec [of new_table 4] obtain t where
    t: "KHandleTable_Initialize 4 new_table = Inr (ResultSuccess, t)"
      "ht_inv t (rev [0..<unat (m_table_size t)])" "m_count t = 0" "int (unat (m_table_size t)) = 4"
      "ht_map t = Map.empty"
    by (auto simp: new_table_def MaxTableSize_def)
  have "holders t ob = {}" for ob using t(2) by (auto simp: holders_def ht_inv_def)
  then show ?thesis
    using that [of t] t ht_inv_free_count [OF t(2)] GetObjectImpl_map [OF t(2)]
    by (auto simp: ht_state_ok_def ht_ok_def refs_ok_def simp del: of_nat_unat)
qed

lemma example_added:
  obtains t h t1 k1 where "KHandleTable_Initialize 4 new_table = Inr (ResultSuccess, t)"
    "KHandleTable_Add 7 (t, fresh_kernel) = Inr ((ResultSuccess, Some h), t1, k1)"
    "ht_state_ok (t1, k1)" "GetObjectImpl h t1 = Inr (Some 7)" "ref_count k1 7 = 2"
    "ht_state_ok (t, fresh_kernel)"
proof -
  obtain t where t: "ht_state_ok (t, fresh_kernel)" "m_count t < m_table_size t"
    "KHandleTable_Initialize 4 new_table = Inr (ResultSuccess, t)" by (rule example_table) blast
  have op: "openable fresh_kernel 7" by (simp add: openable_def fresh_kernel_def)
  obtain fs where inv: "ht_inv t fs" using t(1) by (auto simp: ht_state_ok_def ht_ok_def)
  from Add_spec [OF inv op] ht_inv_free_count [OF inv] t(2) obtain h t1 k1 where
    a: "KHandleTable_Add 7 (t, fresh_kernel) = Inr ((ResultSuccess, Some h), t1, k1)"
      "k1 = fresh_kernel\<lparr>ref_count := (ref_count fresh_kernel)(7 := ref_count fresh_kernel 7 + 1)\<rparr>"
    by (cases fs) auto
  have "ht_add 7 (t, fresh_kernel) = Inr (Some h, t1, k1)" using a by (simp add: ht_add_def)
  from ht.add_bound [OF t(1) _ this] op
  have "ht_state_ok (t1, k1)" "ht_map t1 h = Some 7" by (auto simp: ht_admissible_def ht_lookup_def)
  moreover then obtain fs1 where "ht_inv t1 fs1" by (auto simp: ht_state_ok_def ht_ok_def)
  ultimately show ?thesis
    using that [OF t(3) a(1)] t(1) a(2) GetObjectImpl_map by (simp add: fresh_kernel_def)
qed

text \<open>C1: Adding a live object to a well-formed table: when every entry is taken the result is
  \<^verbatim>\<open>ResultOutOfHandles\<close> and nothing changes; otherwise a handle that resolved to nothing now resolves to
  the object, every other handle resolves as before, the object has one more reference, and the table
  is well-formed again.  No assertion fails and no index is out of bounds.\<close>

theorem handle_table_add:
  assumes "ht_state_ok (t, k)" "openable k ob"
  shows "if m_count t < m_table_size t then
      \<exists>h t' k'. KHandleTable_Add ob (t, k) = Inr ((ResultSuccess, Some h), t', k') \<and> ht_state_ok (t', k') \<and>
        GetObjectImpl h t = Inr None \<and> GetObjectImpl h t' = Inr (Some ob) \<and>
        (\<forall>g. g \<noteq> h \<longrightarrow> GetObjectImpl g t' = GetObjectImpl g t) \<and>
        ref_count k' = (ref_count k)(ob := ref_count k ob + 1) \<and> m_count t' = m_count t + 1
    else KHandleTable_Add ob (t, k) = Inr ((ResultOutOfHandles, None), t, k)"
proof -
  obtain fs where inv: "ht_inv t fs" and r: "refs_ok t k"
    using assms(1) by (auto simp: ht_state_ok_def ht_ok_def)
  show ?thesis
  proof (cases fs)
    case Nil
    then show ?thesis using Add_spec [OF inv assms(2)] ht_inv_free_count [OF inv] by simp
  next
    case (Cons i fs')
    with Add_spec [OF inv assms(2)] obtain h t' where
      a: "KHandleTable_Add ob (t, k) =
            Inr ((ResultSuccess, Some h), t', k\<lparr>ref_count := (ref_count k)(ob := ref_count k ob + 1)\<rparr>)"
        "ht_inv t' fs'" "ht_map t h = None" "ht_map t' = (ht_map t)(h \<mapsto> ob)" "m_count t' = m_count t + 1"
      by auto
    have "ht_add ob (t, k) = Inr (Some h, t', k\<lparr>ref_count := (ref_count k)(ob := ref_count k ob + 1)\<rparr>)"
      using a(1) by (simp add: ht_add_def)
    with ht.add_bound [OF assms(1)] assms(2)
    have "ht_state_ok (t', k\<lparr>ref_count := (ref_count k)(ob := ref_count k ob + 1)\<rparr>)"
      by (simp add: ht_admissible_def)
    then show ?thesis
      using a Cons ht_inv_free_count [OF inv] GetObjectImpl_map [OF inv] GetObjectImpl_map [OF a(2)] by simp
  qed
qed

theorem handle_table_add_witness:
  "\<exists>t. KHandleTable_Initialize 4 new_table = Inr (ResultSuccess, t) \<and>
     (\<exists>h t' k'. KHandleTable_Add 7 (t, fresh_kernel) = Inr ((ResultSuccess, Some h), t', k') \<and>
        GetObjectImpl h t' = Inr (Some 7) \<and> ref_count k' 7 = 2)"
proof -
  obtain t where t: "ht_state_ok (t, fresh_kernel)" "m_count t < m_table_size t"
    "KHandleTable_Initialize 4 new_table = Inr (ResultSuccess, t)" by (rule example_table) blast
  have "openable fresh_kernel 7" by (simp add: openable_def fresh_kernel_def)
  from handle_table_add [OF t(1) this] t(2,3) show ?thesis by (auto simp: fresh_kernel_def)
qed

text \<open>C2: Removing a handle from a well-formed table: a handle that does not resolve is refused and
  nothing changes; a handle that resolves is unbound, all others keep their objects, the object loses
  exactly one reference, and removing the same handle again is refused.\<close>

theorem handle_table_remove:
  assumes "ht_state_ok (t, k)"
  shows "\<exists>r. GetObjectImpl h t = Inr r \<and>
    (case r of
       None \<Rightarrow> KHandleTable_Remove h (t, k) = Inr (False, t, k)
     | Some ob \<Rightarrow> \<exists>t' k'. KHandleTable_Remove h (t, k) = Inr (True, t', k') \<and> ht_state_ok (t', k') \<and>
         GetObjectImpl h t' = Inr None \<and> (\<forall>g. g \<noteq> h \<longrightarrow> GetObjectImpl g t' = GetObjectImpl g t) \<and>
         ref_count k' = (ref_count k)(ob := ref_count k ob - 1) \<and>
         KHandleTable_Remove h (t', k') = Inr (False, t', k'))"
proof -
  obtain fs where inv: "ht_inv t fs" and r: "refs_ok t k"
    using assms(1) by (auto simp: ht_state_ok_def ht_ok_def)
  note get = GetObjectImpl_map [OF inv]
  show ?thesis
  proof (cases "ht_map t h")
    case None
    then show ?thesis
      using get ht.remove_absent [OF assms, of h] by (simp add: ht_lookup_def)
  next
    case (Some ob)
    from ht.remove_present [OF assms, of h ob] Some obtain t' k' where
      a: "KHandleTable_Remove h (t, k) = Inr (True, t', k')" "ht_state_ok (t', k')"
        "ht_map t' = (ht_map t)(h := None)"
      by (auto simp: ht_lookup_def)
    then obtain fs' where inv': "ht_inv t' fs'" by (auto simp: ht_state_ok_def ht_ok_def)
    have "ref_count k' = (ref_count k)(ob := ref_count k ob - 1)"
      using Remove_spec [OF inv, of h k] Some a(1) refs_ok_alive [OF r _ inv]
      by (auto dest!: Close_refs)
    then show ?thesis
      using a Some get GetObjectImpl_map [OF inv'] ht.remove_twice [OF assms a(1)] by simp
  qed
qed

theorem handle_table_remove_witness:
  "\<exists>t h t1 k1 t2 k2. KHandleTable_Initialize 4 new_table = Inr (ResultSuccess, t) \<and>
     KHandleTable_Add 7 (t, fresh_kernel) = Inr ((ResultSuccess, Some h), t1, k1) \<and>
     KHandleTable_Remove h (t1, k1) = Inr (True, t2, k2) \<and> ref_count k2 7 = 1 \<and>
     KHandleTable_Remove h (t2, k2) = Inr (False, t2, k2)"
proof -
  obtain t h t1 k1 where a: "KHandleTable_Initialize 4 new_table = Inr (ResultSuccess, t)"
    "KHandleTable_Add 7 (t, fresh_kernel) = Inr ((ResultSuccess, Some h), t1, k1)"
    "ht_state_ok (t1, k1)" "GetObjectImpl h t1 = Inr (Some 7)" "ref_count k1 7 = 2"
    by (rule example_added) blast
  with handle_table_remove [OF a(3), of h] show ?thesis by auto
qed

text \<open>C3: Adding a live object and removing the handle it got restores every lookup and every reference
  count, and destroys nothing.\<close>

theorem handle_table_add_remove:
  assumes "ht_state_ok (t, k)" "openable k ob"
    and "KHandleTable_Add ob (t, k) = Inr ((ResultSuccess, Some h), t1, k1)"
  shows "\<exists>t2 k2. KHandleTable_Remove h (t1, k1) = Inr (True, t2, k2) \<and> ht_state_ok (t2, k2) \<and>
    (\<forall>g. GetObjectImpl g t2 = GetObjectImpl g t) \<and> ref_count k2 = ref_count k \<and> destroyed k2 = destroyed k"
proof -
  obtain fs where inv: "ht_inv t fs" and r: "refs_ok t k"
    using assms(1) by (auto simp: ht_state_ok_def ht_ok_def)
  have add: "ht_add ob (t, k) = Inr (Some h, t1, k1)" using assms(3) by (simp add: ht_add_def)
  have adm: "ht_admissible (t, k) ob" using assms(2) by (simp add: ht_admissible_def)
  from ht.add_bound [OF assms(1) adm add]
  have t1: "ht_state_ok (t1, k1)" "ht_map t1 h = Some ob" by (auto simp: ht_lookup_def)
  from ht.add_remove [OF assms(1) adm add] obtain t2 k2 where
    rm: "KHandleTable_Remove h (t1, k1) = Inr (True, t2, k2)" "ht_state_ok (t2, k2)" "ht_map t2 = ht_map t"
    by (auto simp: ht_lookup_def)
  obtain fs1 fs2 where inv1: "ht_inv t1 fs1" "refs_ok t1 k1" and inv2: "ht_inv t2 fs2"
    using t1(1) rm(2) by (auto simp: ht_state_ok_def ht_ok_def)
  have k1: "k1 = k\<lparr>ref_count := (ref_count k)(ob := ref_count k ob + 1)\<rparr>"
    using Add_spec [OF inv assms(2)] assms(3) by (cases fs) auto
  have close: "KAutoObject_Close ob (UnregisterInUseObject ob k1) = Inr k2"
    using Remove_spec [OF inv1(1), of h k1] t1(2) rm(1) refs_ok_alive [OF inv1(2) _ inv1(1)] by auto
  have "ref_count k2 = ref_count k \<and> destroyed k2 = destroyed k"
    using close assms(2)
    by (auto simp: KAutoObject_Close_def UnregisterInUseObject_def k1 Let_def run_simps openable_def)
  then show ?thesis
    using rm GetObjectImpl_map [OF inv] GetObjectImpl_map [OF inv2] by simp
qed

theorem handle_table_add_remove_witness:
  "\<exists>t h t1 k1 t2 k2. KHandleTable_Initialize 4 new_table = Inr (ResultSuccess, t) \<and>
     KHandleTable_Add 7 (t, fresh_kernel) = Inr ((ResultSuccess, Some h), t1, k1) \<and>
     KHandleTable_Remove h (t1, k1) = Inr (True, t2, k2) \<and> ref_count k2 = ref_count fresh_kernel"
proof -
  obtain t h t1 k1 where a: "KHandleTable_Initialize 4 new_table = Inr (ResultSuccess, t)"
    "KHandleTable_Add 7 (t, fresh_kernel) = Inr ((ResultSuccess, Some h), t1, k1)"
    "ht_state_ok (t, fresh_kernel)"
    by (rule example_added) blast
  have "openable fresh_kernel 7" by (simp add: openable_def fresh_kernel_def)
  from handle_table_add_remove [OF a(3) this a(2)] a show ?thesis by blast
qed

text \<open>C4: \<^verbatim>\<open>GetMultipleObjects\<close> is all or nothing: it succeeds exactly when every handle resolves to an
  object of the requested type, then each returned object has been opened once per occurrence; otherwise
  every reference it took is given back and the kernel is exactly as before.\<close>

theorem get_multiple_objects:
  assumes "ht_state_ok (t, k)" "\<forall>p. unat (ref_count k p) + length hs < 2 ^ 32"
  shows "if \<forall>h \<in> set hs. \<exists>ob. GetObjectImpl h t = Inr (Some ob) \<and> cast ob then
      \<exists>out k'. GetMultipleObjects cast hs t k = Inr (Some out, k') \<and>
        map (\<lambda>h. GetObjectImpl h t) hs = map (\<lambda>ob. Inr (Some ob)) out \<and>
        ref_count k' = (\<lambda>p. ref_count k p + of_nat (count_list out p))
    else GetMultipleObjects cast hs t k = Inr (None, k)"
proof -
  obtain fs where inv: "ht_inv t fs" and r: "refs_ok t k"
    using assms(1) by (auto simp: ht_state_ok_def ht_ok_def)
  note get = GetObjectImpl_map [OF inv]
  from open_handles_spec [OF inv r assms(2), of "[]" hs cast] obtain new where
    new: "open_handles cast t hs [] k = Inr (new, bump_refs k new)" "length new \<le> length hs"
      "\<forall>j < length new. ht_map t (hs ! j) = Some (new ! j) \<and> cast (new ! j)"
      "length new < length hs \<longrightarrow> (\<forall>ob. ht_map t (hs ! length new) = Some ob \<longrightarrow> \<not> cast ob)"
      "\<forall>p \<in> set new. ref_count k p \<noteq> 0"
    by auto
  have all: "(\<forall>h \<in> set hs. \<exists>ob. ht_map t h = Some ob \<and> cast ob) \<longleftrightarrow> length new = length hs"
    using new(2-4) by (metis in_set_conv_nth le_neq_implies_less nth_mem)
  show ?thesis
  proof (cases "length new = length hs")
    case True
    moreover have "map (\<lambda>h. ht_map t h) hs = map Some new"
      using new(3) True by (intro nth_equalityI) simp_all
    ultimately show ?thesis
      using all new(1) by (simp add: get GetMultipleObjects_def bump_refs_def)
        (metis (no_types, lifting) comp_apply list.map_comp map_eq_conv)
  next
    case False
    have "close_all new (bump_refs k new) = Inr k"
      using close_all_bumped [OF assms(2)] new by blast
    with False all new(1) show ?thesis by (auto simp: get GetMultipleObjects_def)
  qed
qed

theorem get_multiple_objects_witness:
  "\<exists>t h t1 k1. KHandleTable_Initialize 4 new_table = Inr (ResultSuccess, t) \<and>
     KHandleTable_Add 7 (t, fresh_kernel) = Inr ((ResultSuccess, Some h), t1, k1) \<and>
     GetMultipleObjects (\<lambda>_. False) [h, h] t1 k1 = Inr (None, k1) \<and>
     (\<exists>k'. GetMultipleObjects (\<lambda>_. True) [h, h] t1 k1 = Inr (Some [7, 7], k') \<and> ref_count k' 7 = 4)"
proof -
  obtain t h t1 k1 where a: "KHandleTable_Initialize 4 new_table = Inr (ResultSuccess, t)"
    "KHandleTable_Add 7 (t, fresh_kernel) = Inr ((ResultSuccess, Some h), t1, k1)"
    "ht_state_ok (t1, k1)" "GetObjectImpl h t1 = Inr (Some 7)" "ref_count k1 7 = 2"
    "ht_state_ok (t, fresh_kernel)"
    by (rule example_added) blast
  obtain fs where inv: "ht_inv t fs" using a(6) by (auto simp: ht_state_ok_def ht_ok_def)
  have "openable fresh_kernel 7" by (simp add: openable_def fresh_kernel_def)
  from Add_spec [OF inv this] a(2)
  have "k1 = fresh_kernel\<lparr>ref_count := (ref_count fresh_kernel)(7 := ref_count fresh_kernel 7 + 1)\<rparr>"
    by (cases fs) auto
  then have room: "\<forall>p. unat (ref_count k1 p) + length [h, h] < 2 ^ 32" by (simp add: fresh_kernel_def)
  show ?thesis
    using get_multiple_objects [OF a(3) room, of "\<lambda>_. True"]
      get_multiple_objects [OF a(3) room, of "\<lambda>_. False"] a
    by (auto simp: length_Suc_conv)
qed

text \<open>C6: Finalising a well-formed table gives back exactly the references it holds: each object loses one
  reference per entry that names it, and afterwards no handle resolves.\<close>

theorem handle_table_finalize:
  assumes "ht_state_ok (t, k)"
  shows "\<exists>t' k'. KHandleTable_Finalize (t, k) = Inr (ResultSuccess, t', k') \<and>
    (\<forall>ob. unat (ref_count k' ob) =
       unat (ref_count k ob) - card {i. i < unat (m_table_size t) \<and> m_objects t ! i = Some ob}) \<and>
    (\<forall>h. GetObjectImpl h t' = Inr None)"
proof -
  obtain fs where inv: "ht_inv t fs" and r: "refs_ok t k"
    using assms(1) by (auto simp: ht_state_ok_def ht_ok_def)
  have le: "0 + unat (m_table_size t) \<le> length (m_objects t)" using inv by (simp add: ht_inv_def)
  from close_objects_spec [of 0 "unat (m_table_size t)" "m_objects t" k, OF _ le] r obtain k' where
    "close_objects 0 (unat (m_table_size t)) (m_objects t) k = Inr k'"
    "\<forall>p. unat (ref_count k' p) = unat (ref_count k p) - card (holders t p)"
    by (auto simp: refs_ok_def holders_def)
  moreover have "GetObjectImpl h (t\<lparr>m_table_size := 0\<rparr>) = Inr None" for h
    by (simp add: GetObjectImpl_def IsValidHandle_def)
  ultimately show ?thesis by (simp add: KHandleTable_Finalize_def holders_def)
qed

theorem handle_table_finalize_witness:
  "\<exists>t h t1 k1 t2 k2. KHandleTable_Initialize 4 new_table = Inr (ResultSuccess, t) \<and>
     KHandleTable_Add 7 (t, fresh_kernel) = Inr ((ResultSuccess, Some h), t1, k1) \<and>
     KHandleTable_Finalize (t1, k1) = Inr (ResultSuccess, t2, k2) \<and> GetObjectImpl h t2 = Inr None"
proof -
  obtain t h t1 k1 where a: "KHandleTable_Initialize 4 new_table = Inr (ResultSuccess, t)"
    "KHandleTable_Add 7 (t, fresh_kernel) = Inr ((ResultSuccess, Some h), t1, k1)" "ht_state_ok (t1, k1)"
    by (rule example_added) blast
  from handle_table_finalize [OF a(3)] a show ?thesis by blast
qed

text \<open>C5: The two-step allocation.  \<^verbatim>\<open>Reserve\<close> takes an entry without making anything resolve; \<^verbatim>\<open>Register\<close> then
  binds the reserved handle to an object exactly as \<^verbatim>\<open>Add\<close> would; \<^verbatim>\<open>Unreserve\<close> gives the entry back.
  A full table refuses the reservation unchanged.\<close>

theorem handle_table_reserve:
  assumes "ht_inv t fs" "openable k ob"
  shows "if m_count t < m_table_size t then
      \<exists>h t1 fs1 t2 t3. KHandleTable_Reserve t = Inr ((ResultSuccess, Some h), t1) \<and> ht_inv t1 fs1 \<and>
        (\<forall>g. GetObjectImpl g t1 = GetObjectImpl g t) \<and>
        KHandleTable_Register h ob (t1, k) =
          Inr (t2, k\<lparr>ref_count := (ref_count k)(ob := ref_count k ob + 1)\<rparr>) \<and> ht_inv t2 fs1 \<and>
        GetObjectImpl h t2 = Inr (Some ob) \<and> (\<forall>g. g \<noteq> h \<longrightarrow> GetObjectImpl g t2 = GetObjectImpl g t) \<and>
        KHandleTable_Unreserve h t1 = Inr t3 \<and> ht_inv t3 fs \<and>
        (\<forall>g. GetObjectImpl g t3 = GetObjectImpl g t)
    else KHandleTable_Reserve t = Inr ((ResultOutOfHandles, None), t)"
proof (cases fs)
  case Nil
  then show ?thesis using Reserve_spec [OF assms(1)] ht_inv_free_count [OF assms(1)] by simp
next
  case (Cons i fs1)
  let ?h = "EncodeHandle (of_nat i) (m_next_linear_id t)"
  from Reserve_spec [OF assms(1)] Cons obtain t1 where
    t1: "KHandleTable_Reserve t = Inr ((ResultSuccess, Some ?h), t1)" "ht_inv t1 fs1"
      "ht_map t1 = ht_map t" "m_objects t1 ! i = None" "m_table_size t1 = m_table_size t"
    by auto
  have i: "i < unat (m_table_size t)" "i < 1024" "i \<notin> set fs1"
    and l: "unat (m_next_linear_id t) \<le> 0x7FFF" "1 \<le> unat (m_next_linear_id t)"
    using assms(1) Cons by (auto simp: ht_inv_def MaxTableSize_def)
  note enc = Encode_fields [OF i(2) l(1)]
  have rs: "reserved_handle t1 fs1 ?h"
    using t1 i l enc by (auto simp: reserved_handle_def word_unat_eq_iff)
  from Register_spec [OF t1(2) rs assms(2)] obtain t2 where
    t2: "KHandleTable_Register ?h ob (t1, k) = Inr (t2, k\<lparr>ref_count := (ref_count k)(ob := ref_count k ob + 1)\<rparr>)"
      "ht_inv t2 fs1" "ht_map t2 = (ht_map t1)(?h \<mapsto> ob)" by blast
  from Unreserve_spec [OF t1(2) rs] enc(1) Cons obtain t3 where
    t3: "KHandleTable_Unreserve ?h t1 = Inr t3" "ht_inv t3 fs" "ht_map t3 = ht_map t1" by auto
  show ?thesis
    using ht_inv_free_count [OF assms(1)] Cons t1 t2 t3 GetObjectImpl_map [OF assms(1)]
      GetObjectImpl_map [OF t1(2)] GetObjectImpl_map [OF t2(2)] GetObjectImpl_map [OF t3(2)]
    by auto
qed

theorem handle_table_reserve_witness:
  "\<exists>t h t1 t2 k2. KHandleTable_Initialize 4 new_table = Inr (ResultSuccess, t) \<and>
     KHandleTable_Reserve t = Inr ((ResultSuccess, Some h), t1) \<and>
     KHandleTable_Register h 7 (t1, fresh_kernel) = Inr (t2, k2) \<and> GetObjectImpl h t2 = Inr (Some 7)"
proof -
  obtain t where t: "ht_state_ok (t, fresh_kernel)" "m_count t < m_table_size t"
    "KHandleTable_Initialize 4 new_table = Inr (ResultSuccess, t)"
    by (rule example_table) blast
  then obtain fs where inv: "ht_inv t fs" by (auto simp: ht_state_ok_def ht_ok_def)
  have "openable fresh_kernel 7" by (simp add: openable_def fresh_kernel_def)
  from handle_table_reserve [OF inv this] t show ?thesis by auto
qed

end
