(* ===== verification/KResourceLimit.thy ===== *)
theory KResourceLimit
  imports Prelude
begin

text \<open>
  Per-process resource accounting (\<^verbatim>\<open>core/hle/kernel/k_resource_limit.{h,cpp}\<close>) and the scoped
  reservation that wraps it (\<^verbatim>\<open>k_scoped_resource_reservation.h\<close>).  Each operation holds the light lock;
  the condition wait inside \<^verbatim>\<open>Reserve\<close> gives it up, so what the clock shows and what other threads do
  between two looks at the counters is an argument of the model: a list of rounds.
\<close>

section \<open>State\<close>

datatype LimitableResource =
    PhysicalMemoryMax | ThreadCountMax | EventCountMax | TransferMemoryCountMax | SessionCountMax

datatype LimitResult = LimitSuccess | ResultInvalidState

type_synonym ResourceArray = "LimitableResource \<Rightarrow> s64"

record KResourceLimit =
  m_limit_values :: ResourceArray
  m_current_values :: ResourceArray
  m_current_hints :: ResourceArray
  m_peak_values :: ResourceArray
  m_waiter_count :: s32

definition new_limit :: KResourceLimit where
  "new_limit = \<lparr>m_limit_values = (\<lambda>_. 0), m_current_values = (\<lambda>_. 0), m_current_hints = (\<lambda>_. 0),
     m_peak_values = (\<lambda>_. 0), m_waiter_count = 0\<rparr>"

section \<open>Operations\<close>

text \<open>The assertions the getters share.\<close>

definition counters_sane :: "LimitableResource \<Rightarrow> KResourceLimit \<Rightarrow> bool" where
  "counters_sane which r \<longleftrightarrow>
     m_current_values r which \<le> m_limit_values r which \<and>
     m_current_hints r which \<le> m_current_values r which"

definition GetLimitValue :: "LimitableResource \<Rightarrow> KResourceLimit \<Rightarrow> s64 run" where
  "GetLimitValue which r =
     (let value = m_limit_values r which in ensure (0 \<le> value) (ensure (counters_sane which r) (Inr value)))"

definition GetCurrentValue :: "LimitableResource \<Rightarrow> KResourceLimit \<Rightarrow> s64 run" where
  "GetCurrentValue which r =
     (let value = m_current_values r which in ensure (0 \<le> value) (ensure (counters_sane which r) (Inr value)))"

definition GetPeakValue :: "LimitableResource \<Rightarrow> KResourceLimit \<Rightarrow> s64 run" where
  "GetPeakValue which r =
     (let value = m_peak_values r which in ensure (0 \<le> value) (ensure (counters_sane which r) (Inr value)))"

definition GetFreeValue :: "LimitableResource \<Rightarrow> KResourceLimit \<Rightarrow> s64 run" where
  "GetFreeValue which r =
     ensure (0 \<le> m_current_values r which)
       (ensure (counters_sane which r)
         (s64_add (m_limit_values r which) (- m_current_values r which)))"

definition SetLimitValue :: "LimitableResource \<Rightarrow> s64 \<Rightarrow> KResourceLimit \<Rightarrow> LimitResult \<times> KResourceLimit" where
  "SetLimitValue which value r =
     (if m_current_values r which \<le> value then
        (LimitSuccess,
         r\<lparr>m_limit_values := (m_limit_values r)(which := value),
           m_peak_values := (m_peak_values r)(which := m_current_values r which)\<rparr>)
      else (ResultInvalidState, r))"

text \<open>One round: the tick the timer shows, and what the other threads do while this one waits.\<close>

type_synonym round = "s64 \<times> (KResourceLimit \<Rightarrow> KResourceLimit)"

fun reserve_loop ::
    "LimitableResource \<Rightarrow> s64 \<Rightarrow> s64 \<Rightarrow> round list \<Rightarrow> KResourceLimit \<Rightarrow> (bool \<times> KResourceLimit) run" where
  "reserve_loop which value timeout rounds r =
     ensure (m_current_values r which \<le> m_limit_values r which)
     (ensure (m_current_hints r which \<le> m_current_values r which)
     (if WrappingAdd (m_current_values r which) value \<le> m_current_values r which then Inr (False, r)
      else bind_run (s64_add (m_current_values r which) value) (\<lambda>new_value.
        if new_value \<le> m_limit_values r which then
          bind_run (s64_add (m_current_hints r which) value) (\<lambda>new_hint.
          Inr (True, r\<lparr>m_current_values := (m_current_values r)(which := new_value),
                       m_current_hints := (m_current_hints r)(which := new_hint),
                       m_peak_values := (m_peak_values r)(which := max (m_peak_values r which) new_value)\<rparr>))
        else
          bind_run (s64_add (m_current_hints r which) value) (\<lambda>new_hint.
          if new_hint \<le> m_limit_values r which then
            (case rounds of
               [] \<Rightarrow> Inl OutOfFuel
             | (tick, others) # rest \<Rightarrow>
                 if timeout < 0 \<or> tick < timeout then
                   (let r1 = others (r\<lparr>m_waiter_count := m_waiter_count r + 1\<rparr>)
                    in reserve_loop which value timeout rest
                         (r1\<lparr>m_waiter_count := m_waiter_count r1 - 1\<rparr>))
                 else Inr (False, r))
          else Inr (False, r)))))"

declare reserve_loop.simps [simp del]

definition Reserve ::
    "LimitableResource \<Rightarrow> s64 \<Rightarrow> s64 \<Rightarrow> round list \<Rightarrow> KResourceLimit \<Rightarrow> (bool \<times> KResourceLimit) run" where
  "Reserve which value timeout rounds r =
     ensure (0 \<le> value)
     (ensure (m_current_hints r which \<le> m_current_values r which)
     (if m_current_hints r which \<ge> m_limit_values r which then Inr (False, r)
      else reserve_loop which value timeout rounds r))"

definition DefaultTimeout :: s64 where "DefaultTimeout = 10000000000"

definition ReserveDefault ::
    "LimitableResource \<Rightarrow> s64 \<Rightarrow> s64 \<Rightarrow> round list \<Rightarrow> KResourceLimit \<Rightarrow> (bool \<times> KResourceLimit) run" where
  "ReserveDefault which value tick rounds r =
     bind_run (s64_add tick DefaultTimeout) (\<lambda>timeout. Reserve which value timeout rounds r)"

text \<open>\<^verbatim>\<open>Release\<close> also says whether the waiting threads are woken.\<close>

definition Release ::
    "LimitableResource \<Rightarrow> s64 \<Rightarrow> s64 \<Rightarrow> KResourceLimit \<Rightarrow> (bool \<times> KResourceLimit) run" where
  "Release which value hint r =
     ensure (0 \<le> value)
     (ensure (0 \<le> hint)
     (ensure (m_current_values r which \<le> m_limit_values r which)
     (ensure (m_current_hints r which \<le> m_current_values r which)
     (ensure (value \<le> m_current_values r which)
     (ensure (hint \<le> m_current_hints r which)
     (Inr (m_waiter_count r \<noteq> 0,
           r\<lparr>m_current_values := (m_current_values r)(which := m_current_values r which - value),
             m_current_hints := (m_current_hints r)(which := m_current_hints r which - hint)\<rparr>)))))))"

definition CreateResourceLimitForProcess :: "s64 \<Rightarrow> KResourceLimit run" where
  "CreateResourceLimitForProcess physical_memory_size =
     (case SetLimitValue PhysicalMemoryMax physical_memory_size new_limit of (s1, r1) \<Rightarrow>
      ensure (s1 = LimitSuccess)
      (case SetLimitValue ThreadCountMax 800 r1 of (s2, r2) \<Rightarrow>
      ensure (s2 = LimitSuccess)
      (case SetLimitValue EventCountMax 900 r2 of (s3, r3) \<Rightarrow>
      ensure (s3 = LimitSuccess)
      (case SetLimitValue TransferMemoryCountMax 200 r3 of (s4, r4) \<Rightarrow>
      ensure (s4 = LimitSuccess)
      (case SetLimitValue SessionCountMax 1133 r4 of (s5, r5) \<Rightarrow>
      ensure (s5 = LimitSuccess) (Inr r5))))))"

section \<open>Scoped reservation\<close>

record KScopedResourceReservation =
  has_limit :: bool
  res_value :: s64
  res_resource :: LimitableResource
  m_succeeded :: bool

definition scoped_construct ::
    "bool \<Rightarrow> LimitableResource \<Rightarrow> s64 \<Rightarrow> s64 \<Rightarrow> round list \<Rightarrow> KResourceLimit
     \<Rightarrow> (KScopedResourceReservation \<times> KResourceLimit) run" where
  "scoped_construct lim which v timeout rounds r =
     (if lim \<and> v \<noteq> 0 then
        bind_run (Reserve which v timeout rounds r) (\<lambda>(ok, r').
          Inr (\<lparr>has_limit = lim, res_value = v, res_resource = which, m_succeeded = ok\<rparr>, r'))
      else Inr (\<lparr>has_limit = lim, res_value = v, res_resource = which, m_succeeded = True\<rparr>, r))"

definition scoped_destruct :: "KScopedResourceReservation \<Rightarrow> KResourceLimit \<Rightarrow> KResourceLimit run" where
  "scoped_destruct sc r =
     (if has_limit sc \<and> res_value sc \<noteq> 0 \<and> m_succeeded sc
      then bind_run (Release (res_resource sc) (res_value sc) (res_value sc) r) (\<lambda>(_, r'). Inr r')
      else Inr r)"

definition scoped_commit :: "KScopedResourceReservation \<Rightarrow> KScopedResourceReservation" where
  "scoped_commit sc = sc\<lparr>has_limit := False\<rparr>"

section \<open>Invariant\<close>

definition rl_ok :: "KResourceLimit \<Rightarrow> bool" where
  "rl_ok r \<longleftrightarrow> (\<forall>w. 0 \<le> m_current_hints r w \<and> m_current_hints r w \<le> m_current_values r w \<and>
     m_current_values r w \<le> m_peak_values r w \<and> m_peak_values r w \<le> m_limit_values r w \<and>
     m_limit_values r w < 2 ^ 63)"

lemma rl_okD: "rl_ok r \<Longrightarrow> 0 \<le> m_current_hints r w \<and> m_current_hints r w \<le> m_current_values r w \<and>
     m_current_values r w \<le> m_peak_values r w \<and> m_peak_values r w \<le> m_limit_values r w \<and>
     m_limit_values r w < 2 ^ 63"
  by (auto simp: rl_ok_def)

lemma SetLimitValue_ok: "rl_ok r \<Longrightarrow> value < 2 ^ 63 \<Longrightarrow> SetLimitValue which value r = (s, r') \<Longrightarrow> rl_ok r'"
  by (fastforce simp: rl_ok_def SetLimitValue_def split: if_splits)

lemma Release_ok:
  assumes "rl_ok r" "0 \<le> value" "0 \<le> hint" "value \<le> m_current_values r which" "hint \<le> m_current_hints r which"
    and "m_current_hints r which - hint \<le> m_current_values r which - value"
  shows "\<exists>r'. Release which value hint r = Inr (m_waiter_count r \<noteq> 0, r') \<and> rl_ok r' \<and>
    m_current_values r' = (m_current_values r)(which := m_current_values r which - value) \<and>
    m_current_hints r' = (m_current_hints r)(which := m_current_hints r which - hint) \<and>
    m_limit_values r' = m_limit_values r \<and> m_peak_values r' = m_peak_values r"
proof -
  let ?r = "r\<lparr>m_current_values := (m_current_values r)(which := m_current_values r which - value),
      m_current_hints := (m_current_hints r)(which := m_current_hints r which - hint)\<rparr>"
  have "Release which value hint r = Inr (m_waiter_count r \<noteq> 0, ?r)"
    using assms(2-5) rl_okD [OF assms(1), of which] by (simp add: Release_def)
  moreover have "rl_ok ?r"
    unfolding rl_ok_def
  proof
    fix w
    show "0 \<le> m_current_hints ?r w \<and> m_current_hints ?r w \<le> m_current_values ?r w \<and>
      m_current_values ?r w \<le> m_peak_values ?r w \<and> m_peak_values ?r w \<le> m_limit_values ?r w \<and>
      m_limit_values ?r w < 2 ^ 63"
      using assms(2-6) rl_okD [OF assms(1), of w] by (cases "w = which") auto
  qed
  ultimately show ?thesis by auto
qed

text \<open>What a successful reservation does to the counters.\<close>

definition reserved :: "LimitableResource \<Rightarrow> s64 \<Rightarrow> KResourceLimit \<Rightarrow> KResourceLimit" where
  "reserved which value r =
     r\<lparr>m_current_values := (m_current_values r)(which := m_current_values r which + value),
       m_current_hints := (m_current_hints r)(which := m_current_hints r which + value),
       m_peak_values := (m_peak_values r)(which := max (m_peak_values r which) (m_current_values r which + value))\<rparr>"

lemma reserved_ok:
  "rl_ok r \<Longrightarrow> 0 \<le> value \<Longrightarrow> m_current_values r which + value \<le> m_limit_values r which \<Longrightarrow>
   rl_ok (reserved which value r)"
  by (fastforce simp: rl_ok_def reserved_def max_def)

text \<open>One look at the counters, under the invariant: no assertion fails, no addition overflows.\<close>

lemma reserve_loop_unfold:
  assumes "rl_ok r" "0 \<le> value" "value < 2 ^ 63"
  shows "reserve_loop which value timeout rounds r =
    (if value = 0 \<or> \<not> m_current_values r which + value < 2 ^ 63 then Inr (False, r)
     else if m_current_values r which + value \<le> m_limit_values r which then Inr (True, reserved which value r)
     else if m_current_hints r which + value \<le> m_limit_values r which then
       (case rounds of
          [] \<Rightarrow> Inl OutOfFuel
        | (tick, others) # rest \<Rightarrow>
            if timeout < 0 \<or> tick < timeout then
              (let r1 = others (r\<lparr>m_waiter_count := m_waiter_count r + 1\<rparr>)
               in reserve_loop which value timeout rest (r1\<lparr>m_waiter_count := m_waiter_count r1 - 1\<rparr>))
            else Inr (False, r))
     else Inr (False, r))"
proof -
  let ?c = "m_current_values r which"
  have c: "0 \<le> ?c" "?c < 2 ^ 63" "m_current_hints r which \<le> ?c" "?c \<le> m_limit_values r which"
    "0 \<le> m_current_hints r which"
    using rl_okD [OF assms(1), of which] by linarith+
  show ?thesis
  proof (cases "value = 0 \<or> \<not> ?c + value < 2 ^ 63")
    case True
    then have "WrappingAdd ?c value \<le> ?c"
      using WrappingAdd_exact [of ?c "value"] WrappingAdd_overflow [OF c(1) assms(2) c(2) assms(3)] c
      by (auto simp: s64_range_def)
    then show ?thesis using True c by (subst reserve_loop.simps) simp
  next
    case False
    then have "s64_range (?c + value)" "s64_range (m_current_hints r which + value)"
      using c assms(2) by (auto simp: s64_range_def)
    then show ?thesis
      using False c assms(2)
      by (subst reserve_loop.simps)
        (simp add: WrappingAdd_exact s64_add_def reserved_def split: list.split)
  qed
qed

section \<open>Reservation under interference\<close>

text \<open>The other threads keep the invariant between two looks.\<close>

definition rounds_ok :: "round list \<Rightarrow> bool" where
  "rounds_ok rounds \<longleftrightarrow> (\<forall>(tick, others) \<in> set rounds. \<forall>r. rl_ok r \<longrightarrow> rl_ok (others r))"

lemma rl_ok_waiters [simp]: "rl_ok (r\<lparr>m_waiter_count := n\<rparr>) = rl_ok r"
  by (simp add: rl_ok_def)

text \<open>The state in which a reservation is granted.\<close>

definition grants :: "LimitableResource \<Rightarrow> s64 \<Rightarrow> KResourceLimit \<Rightarrow> bool" where
  "grants which v r \<longleftrightarrow> rl_ok r \<and> 0 < v \<and> m_current_values r which + v \<le> m_limit_values r which"

text \<open>The state another look finds after the rounds that have passed.\<close>

primrec after_rounds :: "round list \<Rightarrow> KResourceLimit \<Rightarrow> KResourceLimit" where
  "after_rounds [] r = r"
| "after_rounds (rd # rounds) r =
     (let r1 = snd rd (r\<lparr>m_waiter_count := m_waiter_count r + 1\<rparr>)
      in after_rounds rounds (r1\<lparr>m_waiter_count := m_waiter_count r1 - 1\<rparr>))"

definition granted_after :: "LimitableResource \<Rightarrow> s64 \<Rightarrow> round list \<Rightarrow> KResourceLimit \<Rightarrow> KResourceLimit \<Rightarrow> bool" where
  "granted_after which v rounds r r0 \<longleftrightarrow> grants which v r0 \<and> (\<exists>k\<le>length rounds. r0 = after_rounds (take k rounds) r)"

definition reserve_outcome ::
    "LimitableResource \<Rightarrow> s64 \<Rightarrow> round list \<Rightarrow> KResourceLimit \<Rightarrow> (bool \<times> KResourceLimit) run \<Rightarrow> bool" where
  "reserve_outcome which v rounds r res =
     (case res of
        Inl e \<Rightarrow> e = OutOfFuel
      | Inr (b, r') \<Rightarrow> rl_ok r' \<and> (b \<longrightarrow> (\<exists>r0. granted_after which v rounds r r0 \<and> r' = reserved which v r0)))"

lemma granted_after_now: "grants which v r \<Longrightarrow> granted_after which v rounds r r"
  by (auto simp: granted_after_def intro!: exI [of _ 0])

lemma granted_after_round:
  assumes "granted_after which v rounds (r1\<lparr>m_waiter_count := m_waiter_count r1 - 1\<rparr>) r0" "r1 = others (r\<lparr>m_waiter_count := m_waiter_count r + 1\<rparr>)"
  shows "granted_after which v ((tick, others) # rounds) r r0"
proof -
  obtain k where "k \<le> length rounds" "r0 = after_rounds (take k rounds) (r1\<lparr>m_waiter_count := m_waiter_count r1 - 1\<rparr>)"
    using assms(1) by (auto simp: granted_after_def)
  with assms show ?thesis by (auto simp: granted_after_def Let_def intro!: exI [of _ "Suc k"])
qed

lemma reserve_outcome_now:
  "rl_ok r \<Longrightarrow> reserve_outcome which v rounds r (Inr (False, r))"
  "rl_ok r \<Longrightarrow> 0 < v \<Longrightarrow> m_current_values r which + v \<le> m_limit_values r which \<Longrightarrow>
     reserve_outcome which v rounds r (Inr (True, reserved which v r))"
  using granted_after_now [of which v r rounds] reserved_ok [of r v which] by (auto simp: reserve_outcome_def grants_def)

lemma reserve_outcome_round:
  "reserve_outcome which v rounds (r1\<lparr>m_waiter_count := m_waiter_count r1 - 1\<rparr>) res \<Longrightarrow> r1 = others (r\<lparr>m_waiter_count := m_waiter_count r + 1\<rparr>) \<Longrightarrow>
   reserve_outcome which v ((tick, others) # rounds) r res"
  by (cases res) (auto simp: reserve_outcome_def intro!: exI [where x = "r0" for r0] granted_after_round)

lemma reserve_loop_outcome:
  assumes "rl_ok r" "rounds_ok rounds" "0 \<le> v" "v < 2 ^ 63"
  shows "reserve_outcome which v rounds r (reserve_loop which v timeout rounds r)"
  using assms(1,2)
proof (induction rounds arbitrary: r)
  case Nil
  then show ?case
    using assms(3) reserve_outcome_now [OF Nil(1), where rounds = "[]"]
    by (simp add: reserve_loop_unfold [OF Nil(1) assms(3,4)]) (simp add: reserve_outcome_def)
next
  case (Cons rd rounds)
  obtain tick others where rd: "rd = (tick, others)" by (cases rd)
  let ?r1 = "others (r\<lparr>m_waiter_count := m_waiter_count r + 1\<rparr>)"
  have "rl_ok (?r1\<lparr>m_waiter_count := m_waiter_count ?r1 - 1\<rparr>)"
    using Cons.prems by (auto simp: rounds_ok_def rd)
  moreover have "rounds_ok rounds" using Cons.prems(2) by (simp add: rounds_ok_def)
  ultimately have "reserve_outcome which v rounds (?r1\<lparr>m_waiter_count := m_waiter_count ?r1 - 1\<rparr>)
      (reserve_loop which v timeout rounds (?r1\<lparr>m_waiter_count := m_waiter_count ?r1 - 1\<rparr>))"
    by (rule Cons.IH)
  then have "reserve_outcome which v ((tick, others) # rounds) r
      (reserve_loop which v timeout rounds (?r1\<lparr>m_waiter_count := m_waiter_count ?r1 - 1\<rparr>))"
    by (rule reserve_outcome_round) simp
  then show ?case
    using assms(3) reserve_outcome_now [OF Cons.prems(1), where rounds = "(tick, others) # rounds"] by (simp add: reserve_loop_unfold [OF Cons.prems(1) assms(3,4)] rd Let_def)
qed

lemma Reserve_outcome:
  assumes "rl_ok r" "rounds_ok rounds" "0 \<le> v" "v < 2 ^ 63"
  shows "reserve_outcome which v rounds r (Reserve which v timeout rounds r)"
  using reserve_loop_outcome [OF assms] assms(1,3) rl_okD [OF assms(1), of which]
  by (simp add: Reserve_def) (simp add: reserve_outcome_def)

lemma reserve_loop_returns:
  assumes "rl_ok r" "rounds_ok rounds" "0 \<le> v" "v < 2 ^ 63" "0 \<le> timeout"
    and "\<exists>rd \<in> set rounds. timeout \<le> fst rd"
  shows "\<exists>b r'. reserve_loop which v timeout rounds r = Inr (b, r')"
  using assms(1,2,6)
proof (induction rounds arbitrary: r)
  case (Cons rd rounds)
  obtain tick others where rd: "rd = (tick, others)" by (cases rd)
  let ?r1 = "others (r\<lparr>m_waiter_count := m_waiter_count r + 1\<rparr>)"
  have ok: "rl_ok (?r1\<lparr>m_waiter_count := m_waiter_count ?r1 - 1\<rparr>)" "rounds_ok rounds"
    using Cons.prems by (auto simp: rounds_ok_def rd)
  show ?case
  proof (cases "tick < timeout")
    case True
    then have "\<exists>rd \<in> set rounds. timeout \<le> fst rd" using Cons.prems(3) rd by auto
    from Cons.IH [OF ok this] True show ?thesis
      by (auto simp: reserve_loop_unfold [OF Cons.prems(1) assms(3,4)] rd Let_def)
  next
    case False
    then show ?thesis
      using assms(5) by (auto simp: reserve_loop_unfold [OF Cons.prems(1) assms(3,4)] rd)
  qed
qed simp

section \<open>Interface: an account that grants and takes back\<close>

locale account =
  fixes take_from :: "'w \<Rightarrow> s64 \<Rightarrow> 'env \<Rightarrow> 's \<Rightarrow> (bool \<times> 's) run"
    and give_back :: "'w \<Rightarrow> s64 \<Rightarrow> 's \<Rightarrow> 's run"
    and usage :: "'s \<Rightarrow> 'w \<Rightarrow> s64 \<times> s64" and ok :: "'s \<Rightarrow> bool" and env_ok :: "'env \<Rightarrow> bool"
    and granted :: "'w \<Rightarrow> s64 \<Rightarrow> 'env \<Rightarrow> 's \<Rightarrow> 's \<Rightarrow> bool"
  assumes take_law: "ok s \<Longrightarrow> env_ok e \<Longrightarrow> 0 < v \<Longrightarrow> v < 2 ^ 63 \<Longrightarrow> take_from w v e s = Inr (b, s') \<Longrightarrow>
      ok s' \<and> (b \<longrightarrow> (\<exists>s0. granted w v e s s0 \<and>
        usage s' = (usage s0)(w := (fst (usage s0 w) + v, snd (usage s0 w) + v))))"
    and granted_nonneg: "granted w v e s s0 \<Longrightarrow> 0 \<le> fst (usage s0 w) \<and> 0 \<le> snd (usage s0 w)"
    and give_law: "ok s \<Longrightarrow> 0 \<le> v \<Longrightarrow> v \<le> fst (usage s w) \<Longrightarrow> v \<le> snd (usage s w) \<Longrightarrow>
      \<exists>s'. give_back w v s = Inr s' \<and> ok s' \<and>
        usage s' = (usage s)(w := (fst (usage s w) - v, snd (usage s w) - v))"
begin

lemma take_give:
  assumes "ok s" "env_ok e" "0 < v" "v < 2 ^ 63" "take_from w v e s = Inr (True, s1)"
  shows "\<exists>s0 s2. granted w v e s s0 \<and> usage s1 = (usage s0)(w := (fst (usage s0 w) + v, snd (usage s0 w) + v)) \<and> give_back w v s1 = Inr s2 \<and> ok s2 \<and> usage s2 = usage s0"
proof -
  from take_law [OF assms(1-5)] obtain s0 where s0: "ok s1" "granted w v e s s0"
    "usage s1 = (usage s0)(w := (fst (usage s0 w) + v, snd (usage s0 w) + v))" by auto
  with granted_nonneg [OF s0(2)] give_law [of s1 v w] assms(3) obtain s2 where
    "give_back w v s1 = Inr s2" "ok s2" "usage s2 = (usage s1)(w := (fst (usage s0 w), snd (usage s0 w)))"
    by auto
  then show ?thesis using s0 by (intro exI [of _ s0] exI [of _ s2]) auto
qed

end

definition rl_usage :: "KResourceLimit \<Rightarrow> LimitableResource \<Rightarrow> s64 \<times> s64" where
  "rl_usage r w = (m_current_values r w, m_current_hints r w)"

definition rl_give :: "LimitableResource \<Rightarrow> s64 \<Rightarrow> KResourceLimit \<Rightarrow> KResourceLimit run" where
  "rl_give w v r = bind_run (Release w v v r) (\<lambda>(_, r'). Inr r')"

definition rl_take ::
    "LimitableResource \<Rightarrow> s64 \<Rightarrow> s64 \<times> round list \<Rightarrow> KResourceLimit \<Rightarrow> (bool \<times> KResourceLimit) run" where
  "rl_take w v env r = Reserve w v (fst env) (snd env) r"

interpretation rl: account rl_take rl_give rl_usage rl_ok "\<lambda>env. rounds_ok (snd env)" "\<lambda>w v env. granted_after w v (snd env)"
proof
  fix s :: KResourceLimit and e :: "s64 \<times> round list" and v w b s'
  assume a: "rl_ok s" "rounds_ok (snd e)" "0 < v" "v < 2 ^ 63" "rl_take w v e s = Inr (b, s')"
  then show "rl_ok s' \<and> (b \<longrightarrow> (\<exists>s0. granted_after w v (snd e) s s0 \<and>
      rl_usage s' = (rl_usage s0)(w := (fst (rl_usage s0 w) + v, snd (rl_usage s0 w) + v))))"
    using Reserve_outcome [OF a(1,2), of v w "fst e"]
    by (auto simp: rl_take_def reserve_outcome_def rl_usage_def reserved_def fun_eq_iff)
next
  fix w v s s0 and e :: "s64 \<times> round list"
  assume "granted_after w v (snd e) s s0"
  then have "rl_ok s0" by (simp add: granted_after_def grants_def)
  from rl_okD [OF this, of w] show "0 \<le> fst (rl_usage s0 w) \<and> 0 \<le> snd (rl_usage s0 w)"
    by (auto simp: rl_usage_def)
next
  fix s v w
  assume "rl_ok s" "0 \<le> v" "v \<le> fst (rl_usage s w)" "v \<le> snd (rl_usage s w)"
  then obtain r' where "Release w v v s = Inr (m_waiter_count s \<noteq> 0, r')" "rl_ok r'"
    "m_current_values r' = (m_current_values s)(w := m_current_values s w - v)"
    "m_current_hints r' = (m_current_hints s)(w := m_current_hints s w - v)"
    using Release_ok [of s v v w] rl_okD [of s w] by (auto simp: rl_usage_def)
  then show "\<exists>s'. rl_give w v s = Inr s' \<and> rl_ok s' \<and>
      rl_usage s' = (rl_usage s)(w := (fst (rl_usage s w) - v, snd (rl_usage s w) - v))"
    by (auto simp: rl_give_def rl_usage_def fun_eq_iff)
qed

section \<open>Properties\<close>

text \<open>C7: A reservation never exceeds the limit, whatever other threads do while it waits, as long as they
  keep the accounting sound: no assertion fails and no addition overflows; the accounting stays sound; and
  when it succeeds, the amount is positive and was added to the usage and the hint of a state in which it
  still fitted under the limit.\<close>

theorem reserve_within_limit:
  assumes "rl_ok r" "rounds_ok rounds" "0 \<le> v" "v < 2 ^ 63"
  shows "case Reserve which v timeout rounds r of
      Inl e \<Rightarrow> e = OutOfFuel
    | Inr (b, r') \<Rightarrow> rl_ok r' \<and> (b \<longrightarrow> (\<exists>r0. rl_ok r0 \<and> 0 < v \<and>
        m_current_values r0 which + v \<le> m_limit_values r0 which \<and>
        m_current_values r' = (m_current_values r0)(which := m_current_values r0 which + v) \<and>
        m_current_hints r' = (m_current_hints r0)(which := m_current_hints r0 which + v) \<and>
        m_limit_values r' = m_limit_values r0))"
  using Reserve_outcome [OF assms, of which timeout]
  by (auto simp: reserve_outcome_def granted_after_def grants_def reserved_def split: sum.splits)

lemma process_limit: "CreateResourceLimitForProcess 0x1000 = Inr
   (new_limit\<lparr>m_limit_values := ((m_limit_values new_limit)(PhysicalMemoryMax := 0x1000, ThreadCountMax := 800,
      EventCountMax := 900, TransferMemoryCountMax := 200, SessionCountMax := 1133))\<rparr>)"
  by (simp add: CreateResourceLimitForProcess_def SetLimitValue_def new_limit_def fun_eq_iff)

lemma process_limit_ok: "CreateResourceLimitForProcess 0x1000 = Inr r \<Longrightarrow> rl_ok r"
  by (auto simp: process_limit rl_ok_def new_limit_def)

theorem reserve_within_limit_witness:
  "\<exists>r b r'. CreateResourceLimitForProcess 0x1000 = Inr r \<and>
     Reserve ThreadCountMax 800 0 [] r = Inr (b, r') \<and> b \<and> rl_ok r' \<and> m_current_values r' ThreadCountMax = 800"
proof -
  obtain r where r: "CreateResourceLimitForProcess 0x1000 = Inr r" using process_limit by blast
  have "\<exists>r'. Reserve ThreadCountMax 800 0 [] r = Inr (True, r') \<and> m_current_values r' ThreadCountMax = 800"
    using r reserve_loop_unfold [OF process_limit_ok [OF r], of 800 ThreadCountMax 0 "[]"]
    by (auto simp: Reserve_def process_limit new_limit_def reserved_def)
  then show ?thesis
    using reserve_within_limit [OF process_limit_ok [OF r], of "[]" 800 ThreadCountMax 0] r
    by (auto simp: rounds_ok_def)
qed

text \<open>C8: A reservation with a timeout comes back: as soon as one of the rounds shows the deadline, \<^verbatim>\<open>Reserve\<close>
  returns a verdict.\<close>

theorem reserve_returns:
  assumes "rl_ok r" "rounds_ok rounds" "0 \<le> v" "v < 2 ^ 63" "0 \<le> timeout"
    and "\<exists>rd \<in> set rounds. timeout \<le> fst rd"
  shows "\<exists>b r'. Reserve which v timeout rounds r = Inr (b, r')"
  using reserve_loop_returns [OF assms, of which] assms(3) rl_okD [OF assms(1), of which]
  by (auto simp: Reserve_def)

text \<open>All threads are in use and none of them will be given back soon.\<close>

definition sample_full :: KResourceLimit where
  "sample_full = \<lparr>m_limit_values = (\<lambda>_. 800), m_current_values = (\<lambda>_. 800), m_current_hints = (\<lambda>_. 0), m_peak_values = (\<lambda>_. 800),
     m_waiter_count = 0\<rparr>"

lemma sample_full_ok: "rl_ok sample_full"
  by (simp add: rl_ok_def sample_full_def)

theorem reserve_returns_witness:
  "(\<exists>b r'. Reserve ThreadCountMax 1 5 [(1, id), (5, id)] sample_full = Inr (b, r')) \<and>
   Reserve ThreadCountMax 1 5 [(1, id)] sample_full = Inl OutOfFuel"
proof
  show "\<exists>b r'. Reserve ThreadCountMax 1 5 [(1, id), (5, id)] sample_full = Inr (b, r')"
    using reserve_returns [OF sample_full_ok, of "[(1, id), (5, id)]" 1 5 ThreadCountMax] by (auto simp: rounds_ok_def)
  have *: "rl_ok (sample_full\<lparr>m_waiter_count := n\<rparr>)" for n using sample_full_ok by simp
  show "Reserve ThreadCountMax 1 5 [(1, id)] sample_full = Inl OutOfFuel"
    by (simp add: Reserve_def reserve_loop_unfold [OF sample_full_ok] reserve_loop_unfold [OF *])
      (simp add: sample_full_def)
qed

text \<open>C9: A scoped reservation that succeeded added its amount to the usage and the hint of the state it found at once or after some
  of the rounds it waited.  Dropped without \<^verbatim>\<open>Commit\<close> it gives back exactly that amount: right away this restores the
  usage and the hints of the state it took them from, and later, whatever else has been reserved and released since, it lowers both by
  the amount and leaves everything else alone.  After \<^verbatim>\<open>Commit\<close> dropping it changes nothing.\<close>

theorem scoped_reservation_releases:
  assumes "rl_ok r" "rounds_ok rounds" "0 < v" "v < 2 ^ 63"
    and "scoped_construct True which v timeout rounds r = Inr (sc, r1)" "m_succeeded sc"
  shows "(\<exists>k\<le>length rounds. \<exists>r0 r2. r0 = after_rounds (take k rounds) r \<and>
      m_current_values r1 = (m_current_values r0)(which := m_current_values r0 which + v) \<and>
      m_current_hints r1 = (m_current_hints r0)(which := m_current_hints r0 which + v) \<and>
      scoped_destruct sc r1 = Inr r2 \<and> rl_ok r2 \<and>
      m_current_values r2 = m_current_values r0 \<and> m_current_hints r2 = m_current_hints r0) \<and>
    (\<forall>r'. rl_ok r' \<and> v \<le> m_current_hints r' which \<longrightarrow>
      scoped_destruct sc r' = Inr (r'\<lparr>m_current_values := (m_current_values r')(which := m_current_values r' which - v),
        m_current_hints := (m_current_hints r')(which := m_current_hints r' which - v)\<rparr>)) \<and>
    (\<forall>r'. scoped_destruct (scoped_commit sc) r' = Inr r')"
proof -
  have res: "rl_take which v (timeout, rounds) r = Inr (True, r1)"
    and sc: "sc = \<lparr>has_limit = True, res_value = v, res_resource = which, m_succeeded = True\<rparr>"
    using assms(3,5,6) by (auto simp: scoped_construct_def bind_run_eq_Inr rl_take_def split: if_splits)
  from rl.take_give [OF assms(1) _ assms(3,4) res] assms(2) obtain r0 r2 where r0: "granted_after which v rounds r r0"
      "rl_usage r1 = (rl_usage r0)(which := (fst (rl_usage r0 which) + v, snd (rl_usage r0 which) + v))"
      "rl_give which v r1 = Inr r2" "rl_ok r2" "rl_usage r2 = rl_usage r0" by auto
  have "scoped_destruct sc r1 = Inr r2" using r0(3) assms(3) sc by (auto simp: scoped_destruct_def rl_give_def)
  moreover have "m_current_values r1 = (m_current_values r0)(which := m_current_values r0 which + v)"
    "m_current_hints r1 = (m_current_hints r0)(which := m_current_hints r0 which + v)"
    "m_current_values r2 = m_current_values r0" "m_current_hints r2 = m_current_hints r0"
    using r0(2,5) by (auto simp: rl_usage_def fun_eq_iff split: if_splits)
  moreover obtain k where "k \<le> length rounds" "r0 = after_rounds (take k rounds) r" using r0(1) by (auto simp: granted_after_def)
  moreover have "scoped_destruct sc r' = Inr (r'\<lparr>m_current_values := (m_current_values r')(which := m_current_values r' which - v),
      m_current_hints := (m_current_hints r')(which := m_current_hints r' which - v)\<rparr>)"
    if "rl_ok r'" "v \<le> m_current_hints r' which" for r'
    using that rl_okD [OF that(1), of which] assms(3) sc by (simp add: scoped_destruct_def Release_def)
  moreover have "scoped_destruct (scoped_commit sc) r' = Inr r'" for r'
    by (simp add: scoped_destruct_def scoped_commit_def)
  ultimately show ?thesis using r0(4) by blast
qed

theorem scoped_reservation_releases_witness:
  "\<exists>r sc r1 r2. CreateResourceLimitForProcess 0x1000 = Inr r \<and>
     scoped_construct True EventCountMax 3 0 [] r = Inr (sc, r1) \<and> m_succeeded sc \<and>
     m_current_values r1 EventCountMax = 3 \<and>
     scoped_destruct sc r1 = Inr r2 \<and> rl_ok r2 \<and> m_current_values r2 EventCountMax = 0"
proof -
  obtain r where r: "CreateResourceLimitForProcess 0x1000 = Inr r" using process_limit by blast
  have "\<exists>sc r1. scoped_construct True EventCountMax 3 0 [] r = Inr (sc, r1) \<and> m_succeeded sc"
    using r reserve_loop_unfold [OF process_limit_ok [OF r], of 3 EventCountMax 0 "[]"]
    by (auto simp: scoped_construct_def Reserve_def process_limit new_limit_def reserved_def)
  then obtain sc r1 where c: "scoped_construct True EventCountMax 3 0 [] r = Inr (sc, r1)" "m_succeeded sc"
    by blast
  have "rounds_ok []" by (simp add: rounds_ok_def)
  from scoped_reservation_releases [OF process_limit_ok [OF r] this _ _ c] obtain r2 where
    "m_current_values r1 = (m_current_values r)(EventCountMax := m_current_values r EventCountMax + 3)"
    "scoped_destruct sc r1 = Inr r2" "rl_ok r2" "m_current_values r2 = m_current_values r" by auto
  moreover have "m_current_values r EventCountMax = 0" using r by (auto simp: process_limit new_limit_def)
  ultimately show ?thesis using r c by auto
qed

end
