(* ===== verification/LifecycleManager.thy ===== *)
theory LifecycleManager
  imports Prelude
begin

text \<open>
  The applet lifecycle (\<^verbatim>\<open>core/hle/service/am/lifecycle_manager.{h,cpp}\<close>) and the part of
  \<^verbatim>\<open>am/applet.cpp\<close> that drives it: what messages an applet is owed, in which order it gets them, when the
  system event is signalled, which focus state it is told, and whether its process runs.
\<close>

section \<open>State\<close>

datatype ActivityState = ForegroundVisible | ForegroundObscured | BackgroundVisible | BackgroundObscured
datatype FocusHandlingMode = AlwaysSuspend | SuspendHomeSleep | NoSuspend
datatype SuspendMode = NoOverride | ForceResume | ForceSuspend

text \<open>\<^verbatim>\<open>FocusState\<close> has no enumerator for zero, the value both focus fields start with.\<close>

datatype FocusState = FocusZero | InFocus | NotInFocus | Background

datatype AppletMessage =
    NoMessage | ChangeIntoForeground | ChangeIntoBackground | Exit | ApplicationExited
  | FocusStateChanged | Resume | DetectShortPressingHomeButton | DetectLongPressingHomeButton
  | DetectShortPressingPowerButton | DetectMiddlePressingPowerButton | DetectLongPressingPowerButton
  | RequestToPrepareSleep | FinishedSleepSequence | SleepRequiredByHighTemperature
  | SleepRequiredByLowBattery | AutoPowerDown | OperationModeChanged | PerformanceModeChanged
  | DetectReceivingCecSystemStandby | SdCardRemoved | LaunchApplicationRequested | RequestToDisplay
  | ShowApplicationLogo | HideApplicationLogo | ForceHideApplicationLogo | FloatingApplicationDetected
  | DetectShortPressingCaptureButton | AlbumScreenShotTaken | AlbumRecordingSaved

record LifecycleManager =
  m_system_event :: bool
  m_operation_mode_changed_system_event :: bool
  m_unordered_messages :: "AppletMessage list"
  m_is_application :: bool
  m_focus_state_changed_notification_enabled :: bool
  m_operation_mode_changed_notification_enabled :: bool
  m_performance_mode_changed_notification_enabled :: bool
  m_resume_notification_enabled :: bool
  m_requested_request_to_display_state :: bool
  m_acknowledged_request_to_display_state :: bool
  m_has_resume :: bool
  m_has_focus_state_changed :: bool
  m_has_album_recording_saved :: bool
  m_has_album_screen_shot_taken :: bool
  m_has_auto_power_down :: bool
  m_has_sleep_required_by_low_battery :: bool
  m_has_sleep_required_by_high_temperature :: bool
  m_has_sd_card_removed :: bool
  m_has_performance_mode_changed :: bool
  m_has_operation_mode_changed :: bool
  m_has_requested_request_to_prepare_sleep :: bool
  m_has_acknowledged_request_to_prepare_sleep :: bool
  m_has_requested_exit :: bool
  m_has_acknowledged_exit :: bool
  m_applet_message_available :: bool
  m_forced_suspend :: bool
  m_focus_handling_mode :: FocusHandlingMode
  m_activity_state :: ActivityState
  m_suspend_mode :: SuspendMode
  m_requested_focus_state :: FocusState
  m_acknowledged_focus_state :: FocusState

definition new_LifecycleManager :: "bool \<Rightarrow> LifecycleManager" where
  "new_LifecycleManager is_application = \<lparr>
     m_system_event = False, m_operation_mode_changed_system_event = False, m_unordered_messages = [],
     m_is_application = is_application, m_focus_state_changed_notification_enabled = True,
     m_operation_mode_changed_notification_enabled = True,
     m_performance_mode_changed_notification_enabled = True, m_resume_notification_enabled = False,
     m_requested_request_to_display_state = False, m_acknowledged_request_to_display_state = False,
     m_has_resume = False, m_has_focus_state_changed = True, m_has_album_recording_saved = False,
     m_has_album_screen_shot_taken = False, m_has_auto_power_down = False,
     m_has_sleep_required_by_low_battery = False, m_has_sleep_required_by_high_temperature = False,
     m_has_sd_card_removed = False, m_has_performance_mode_changed = False,
     m_has_operation_mode_changed = False, m_has_requested_request_to_prepare_sleep = False,
     m_has_acknowledged_request_to_prepare_sleep = False, m_has_requested_exit = False,
     m_has_acknowledged_exit = False, m_applet_message_available = False, m_forced_suspend = False,
     m_focus_handling_mode = SuspendHomeSleep, m_activity_state = ForegroundVisible,
     m_suspend_mode = NoOverride, m_requested_focus_state = FocusZero,
     m_acknowledged_focus_state = FocusZero\<rparr>"

section \<open>Messages and the system event\<close>

definition ShouldSignalSystemEvent :: "LifecycleManager \<Rightarrow> bool" where
  "ShouldSignalSystemEvent m \<longleftrightarrow>
     (if m_focus_state_changed_notification_enabled m \<and> \<not> m_is_application m \<and>
         m_requested_focus_state m \<noteq> m_acknowledged_focus_state m then True
      else if m_focus_state_changed_notification_enabled m \<and> m_is_application m \<and>
         m_has_focus_state_changed m then True
      else m_unordered_messages m \<noteq> [] \<or> m_has_resume m \<or>
        (m_has_requested_exit m \<noteq> m_has_acknowledged_exit m) \<or>
        (m_has_requested_request_to_prepare_sleep m \<noteq> m_has_acknowledged_request_to_prepare_sleep m) \<or>
        m_has_operation_mode_changed m \<or> m_has_performance_mode_changed m \<or>
        m_has_sd_card_removed m \<or> m_has_sleep_required_by_high_temperature m \<or>
        m_has_sleep_required_by_low_battery m \<or> m_has_auto_power_down m \<or>
        (m_requested_request_to_display_state m \<noteq> m_acknowledged_request_to_display_state m) \<or>
        m_has_album_screen_shot_taken m \<or> m_has_album_recording_saved m)"

definition SignalSystemEventIfNeeded :: "LifecycleManager \<Rightarrow> LifecycleManager" where
  "SignalSystemEventIfNeeded m =
     (let applet_message_available = m_applet_message_available m
      in if applet_message_available \<noteq> ShouldSignalSystemEvent m then
           (if \<not> applet_message_available
            then m\<lparr>m_system_event := True, m_applet_message_available := True\<rparr>
            else m\<lparr>m_system_event := False, m_applet_message_available := False\<rparr>)
         else m)"

definition PushUnorderedMessage :: "AppletMessage \<Rightarrow> LifecycleManager \<Rightarrow> LifecycleManager" where
  "PushUnorderedMessage message m =
     SignalSystemEventIfNeeded (m\<lparr>m_unordered_messages := m_unordered_messages m @ [message]\<rparr>)"

text \<open>The tail of \<^verbatim>\<open>PopMessageInOrderOfPriority\<close>, after the focus notification.\<close>

definition PopAfterFocus :: "LifecycleManager \<Rightarrow> AppletMessage \<times> LifecycleManager" where
  "PopAfterFocus m =
     (if m_has_requested_request_to_prepare_sleep m \<noteq> m_has_acknowledged_request_to_prepare_sleep m
      then (RequestToPrepareSleep, m\<lparr>m_has_acknowledged_request_to_prepare_sleep := True\<rparr>)
      else if m_requested_request_to_display_state m \<noteq> m_acknowledged_request_to_display_state m
      then (RequestToDisplay,
            m\<lparr>m_acknowledged_request_to_display_state := m_requested_request_to_display_state m\<rparr>)
      else if m_has_operation_mode_changed m
      then (OperationModeChanged, m\<lparr>m_has_operation_mode_changed := False\<rparr>)
      else if m_has_performance_mode_changed m
      then (PerformanceModeChanged, m\<lparr>m_has_performance_mode_changed := False\<rparr>)
      else if m_has_sd_card_removed m then (SdCardRemoved, m\<lparr>m_has_sd_card_removed := False\<rparr>)
      else if m_has_sleep_required_by_high_temperature m
      then (SleepRequiredByHighTemperature, m\<lparr>m_has_sleep_required_by_high_temperature := False\<rparr>)
      else if m_has_sleep_required_by_low_battery m
      then (SleepRequiredByLowBattery, m\<lparr>m_has_sleep_required_by_low_battery := False\<rparr>)
      else if m_has_auto_power_down m then (AutoPowerDown, m\<lparr>m_has_auto_power_down := False\<rparr>)
      else if m_has_album_screen_shot_taken m
      then (AlbumScreenShotTaken, m\<lparr>m_has_album_screen_shot_taken := False\<rparr>)
      else if m_has_album_recording_saved m
      then (AlbumRecordingSaved, m\<lparr>m_has_album_recording_saved := False\<rparr>)
      else case m_unordered_messages m of
        message # rest \<Rightarrow> (message, m\<lparr>m_unordered_messages := rest\<rparr>)
      | [] \<Rightarrow> (NoMessage, m))"

definition PopMessageInOrderOfPriority :: "LifecycleManager \<Rightarrow> (AppletMessage \<times> LifecycleManager) run" where
  "PopMessageInOrderOfPriority m =
     (if m_has_resume m then Inr (Resume, m\<lparr>m_has_resume := False\<rparr>)
      else if m_has_acknowledged_exit m \<noteq> m_has_requested_exit m
      then Inr (Exit, m\<lparr>m_has_acknowledged_exit := m_has_requested_exit m\<rparr>)
      else if m_focus_state_changed_notification_enabled m \<and> \<not> m_is_application m \<and>
        m_requested_focus_state m \<noteq> m_acknowledged_focus_state m
      then
        let m1 = m\<lparr>m_acknowledged_focus_state := m_requested_focus_state m\<rparr>
        in (case m_requested_focus_state m of
              InFocus \<Rightarrow> Inr (ChangeIntoForeground, m1)
            | NotInFocus \<Rightarrow> Inr (ChangeIntoBackground, m1)
            | _ \<Rightarrow> Inl AssertFailed)
      else if m_focus_state_changed_notification_enabled m \<and> m_is_application m \<and>
        m_has_focus_state_changed m
      then Inr (FocusStateChanged, m\<lparr>m_has_focus_state_changed := False\<rparr>)
      else Inr (PopAfterFocus m))"

definition PopMessage :: "LifecycleManager \<Rightarrow> ((bool \<times> AppletMessage) \<times> LifecycleManager) run" where
  "PopMessage m =
     bind_run (PopMessageInOrderOfPriority m) (\<lambda>(message, m1).
     Inr ((message \<noteq> NoMessage, message), SignalSystemEventIfNeeded m1))"

definition OnOperationAndPerformanceModeChanged :: "LifecycleManager \<Rightarrow> LifecycleManager" where
  "OnOperationAndPerformanceModeChanged m =
     (let m1 = (if m_operation_mode_changed_notification_enabled m
                then m\<lparr>m_has_operation_mode_changed := True\<rparr> else m);
          m2 = (if m_performance_mode_changed_notification_enabled m1
                then m1\<lparr>m_has_performance_mode_changed := True\<rparr> else m1)
      in SignalSystemEventIfNeeded (m2\<lparr>m_operation_mode_changed_system_event := True\<rparr>))"

section \<open>Accessors of the header\<close>

definition GetAndClearFocusState :: "LifecycleManager \<Rightarrow> FocusState \<times> LifecycleManager" where
  "GetAndClearFocusState m =
     (m_requested_focus_state m, m\<lparr>m_acknowledged_focus_state := m_requested_focus_state m\<rparr>)"

definition SetFocusState :: "FocusState \<Rightarrow> LifecycleManager \<Rightarrow> LifecycleManager" where
  "SetFocusState state m =
     (let m1 = (if m_requested_focus_state m \<noteq> state then m\<lparr>m_has_focus_state_changed := True\<rparr> else m)
      in SignalSystemEventIfNeeded (m1\<lparr>m_requested_focus_state := state\<rparr>))"

definition RequestExit :: "LifecycleManager \<Rightarrow> LifecycleManager" where
  "RequestExit m = SignalSystemEventIfNeeded (m\<lparr>m_has_requested_exit := True\<rparr>)"

definition RequestResumeNotification :: "LifecycleManager \<Rightarrow> LifecycleManager" where
  "RequestResumeNotification m =
     (if m_resume_notification_enabled m then m\<lparr>m_has_resume := True\<rparr> else m)"

definition SetFocusStateChangedNotificationEnabled :: "bool \<Rightarrow> LifecycleManager \<Rightarrow> LifecycleManager" where
  "SetFocusStateChangedNotificationEnabled enabled m =
     SignalSystemEventIfNeeded (m\<lparr>m_focus_state_changed_notification_enabled := enabled\<rparr>)"

definition SetOperationModeChangedNotificationEnabled :: "bool \<Rightarrow> LifecycleManager \<Rightarrow> LifecycleManager" where
  "SetOperationModeChangedNotificationEnabled enabled m =
     SignalSystemEventIfNeeded (m\<lparr>m_operation_mode_changed_notification_enabled := enabled\<rparr>)"

definition SetPerformanceModeChangedNotificationEnabled :: "bool \<Rightarrow> LifecycleManager \<Rightarrow> LifecycleManager" where
  "SetPerformanceModeChangedNotificationEnabled enabled m =
     SignalSystemEventIfNeeded (m\<lparr>m_performance_mode_changed_notification_enabled := enabled\<rparr>)"

definition SetResumeNotificationEnabled :: "bool \<Rightarrow> LifecycleManager \<Rightarrow> LifecycleManager" where
  "SetResumeNotificationEnabled enabled m = m\<lparr>m_resume_notification_enabled := enabled\<rparr>"

definition SetActivityState :: "ActivityState \<Rightarrow> LifecycleManager \<Rightarrow> LifecycleManager" where
  "SetActivityState state m = m\<lparr>m_activity_state := state\<rparr>"

definition SetSuspendMode :: "SuspendMode \<Rightarrow> LifecycleManager \<Rightarrow> LifecycleManager" where
  "SetSuspendMode mode m = m\<lparr>m_suspend_mode := mode\<rparr>"

definition SetForcedSuspend :: "bool \<Rightarrow> LifecycleManager \<Rightarrow> LifecycleManager" where
  "SetForcedSuspend enabled m = m\<lparr>m_forced_suspend := enabled\<rparr>"

section \<open>Suspension and focus\<close>

definition SetFocusHandlingMode :: "bool \<Rightarrow> LifecycleManager \<Rightarrow> LifecycleManager" where
  "SetFocusHandlingMode suspend m =
     (case m_focus_handling_mode m of
        AlwaysSuspend \<Rightarrow> if \<not> suspend then m\<lparr>m_focus_handling_mode := NoSuspend\<rparr> else m
      | SuspendHomeSleep \<Rightarrow> if \<not> suspend then m\<lparr>m_focus_handling_mode := NoSuspend\<rparr> else m
      | NoSuspend \<Rightarrow> if suspend then m\<lparr>m_focus_handling_mode := SuspendHomeSleep\<rparr> else m)"

definition SetOutOfFocusSuspendingEnabled :: "bool \<Rightarrow> LifecycleManager \<Rightarrow> LifecycleManager" where
  "SetOutOfFocusSuspendingEnabled enabled m =
     (case m_focus_handling_mode m of
        AlwaysSuspend \<Rightarrow> if \<not> enabled then m\<lparr>m_focus_handling_mode := SuspendHomeSleep\<rparr> else m
      | SuspendHomeSleep \<Rightarrow> if enabled then m\<lparr>m_focus_handling_mode := AlwaysSuspend\<rparr> else m
      | NoSuspend \<Rightarrow> if enabled then m\<lparr>m_focus_handling_mode := AlwaysSuspend\<rparr> else m)"

definition RemoveForceResumeIfPossible :: "LifecycleManager \<Rightarrow> LifecycleManager" where
  "RemoveForceResumeIfPossible m =
     (if m_suspend_mode m \<noteq> ForceResume then m
      else if m_activity_state m = ForegroundVisible \<or> m_activity_state m = ForegroundObscured
      then m\<lparr>m_suspend_mode := NoOverride\<rparr>
      else case m_focus_handling_mode m of
        AlwaysSuspend \<Rightarrow> m\<lparr>m_suspend_mode := NoOverride\<rparr>
      | SuspendHomeSleep \<Rightarrow> m\<lparr>m_suspend_mode := NoOverride\<rparr>
      | NoSuspend \<Rightarrow> if \<not> m_is_application m then m\<lparr>m_suspend_mode := NoOverride\<rparr> else m)"

definition IsRunnable :: "LifecycleManager \<Rightarrow> bool" where
  "IsRunnable m =
     (if m_forced_suspend m then False
      else case m_suspend_mode m of
        ForceResume \<Rightarrow> m_has_requested_exit m
      | ForceSuspend \<Rightarrow> False
      | NoOverride \<Rightarrow>
          if m_has_requested_exit m then True
          else if m_activity_state m = ForegroundVisible then True
          else if m_activity_state m = ForegroundObscured then
            (case m_focus_handling_mode m of
               AlwaysSuspend \<Rightarrow> False | SuspendHomeSleep \<Rightarrow> True | NoSuspend \<Rightarrow> True)
          else m_focus_handling_mode m = NoSuspend)"

definition GetFocusStateWhileForegroundObscured :: "LifecycleManager \<Rightarrow> FocusState" where
  "GetFocusStateWhileForegroundObscured m =
     (case m_focus_handling_mode m of
        AlwaysSuspend \<Rightarrow> InFocus | SuspendHomeSleep \<Rightarrow> NotInFocus | NoSuspend \<Rightarrow> NotInFocus)"

definition GetFocusStateWhileBackground :: "bool \<Rightarrow> LifecycleManager \<Rightarrow> FocusState" where
  "GetFocusStateWhileBackground is_obscured m =
     (case m_focus_handling_mode m of
        AlwaysSuspend \<Rightarrow> InFocus
      | SuspendHomeSleep \<Rightarrow> (if is_obscured then NotInFocus else InFocus)
      | NoSuspend \<Rightarrow> (if m_is_application m then Background else NotInFocus))"

definition NewFocusState :: "LifecycleManager \<Rightarrow> FocusState" where
  "NewFocusState m =
     (if m_suspend_mode m = NoOverride then
        (case m_activity_state m of
           ForegroundVisible \<Rightarrow> InFocus
         | ForegroundObscured \<Rightarrow> GetFocusStateWhileForegroundObscured m
         | BackgroundVisible \<Rightarrow> GetFocusStateWhileBackground False m
         | BackgroundObscured \<Rightarrow> GetFocusStateWhileBackground True m)
      else GetFocusStateWhileBackground False m)"

definition UpdateRequestedFocusState :: "LifecycleManager \<Rightarrow> bool \<times> LifecycleManager" where
  "UpdateRequestedFocusState m =
     (if NewFocusState m \<noteq> m_requested_focus_state m
      then (True, m\<lparr>m_requested_focus_state := NewFocusState m\<rparr>)
      else (False, m))"

section \<open>The applet that owns the manager\<close>

record Applet =
  lifecycle_manager :: LifecycleManager
  is_activity_runnable :: bool
  process_suspended :: bool
  is_interactible :: bool
  input_enabled :: bool
  is_completed :: bool
  state_changed_event :: bool

definition UpdateSuspensionStateLocked :: "bool \<Rightarrow> Applet \<Rightarrow> Applet" where
  "UpdateSuspensionStateLocked force_message a =
     (let m1 = RemoveForceResumeIfPossible (lifecycle_manager a);
          curr_activity_runnable = IsRunnable m1;
          was_changed = (curr_activity_runnable \<noteq> is_activity_runnable a);
          a1 = a\<lparr>lifecycle_manager := m1\<rparr>;
          a2 = (if was_changed then
                  (if curr_activity_runnable then a1\<lparr>process_suspended := False\<rparr>
                   else a1\<lparr>process_suspended := True,
                           lifecycle_manager := RequestResumeNotification m1\<rparr>)
                    \<lparr>is_activity_runnable := curr_activity_runnable\<rparr>
                else a1)
      in if m_forced_suspend (lifecycle_manager a2) then a2
         else case UpdateRequestedFocusState (lifecycle_manager a2) of (changed, m2) \<Rightarrow>
           a2\<lparr>lifecycle_manager :=
             if changed \<or> was_changed \<or> force_message then SignalSystemEventIfNeeded m2 else m2\<rparr>)"

definition SetInteractibleLocked :: "bool \<Rightarrow> Applet \<Rightarrow> Applet" where
  "SetInteractibleLocked interactible a =
     (if is_interactible a = interactible then a
      else a\<lparr>is_interactible := interactible,
             input_enabled := interactible \<and> \<not> m_has_requested_exit (lifecycle_manager a)\<rparr>)"

definition OnProcessTerminatedLocked :: "Applet \<Rightarrow> Applet" where
  "OnProcessTerminatedLocked a = a\<lparr>is_completed := True, state_changed_event := True\<rparr>"

section \<open>What the applet is owed\<close>

text \<open>The messages an applet will receive, in the order it will receive them.\<close>

definition owed :: "bool \<Rightarrow> AppletMessage \<Rightarrow> AppletMessage list" where
  "owed b msg = (if b then [msg] else [])"

lemma owed_simps [simp]: "owed True msg = [msg]" "owed False msg = []"
  by (simp_all add: owed_def)

lemma owed_eq_Nil [simp]: "owed b msg = [] \<longleftrightarrow> \<not> b"
  by (simp add: owed_def)

definition focus_message :: "FocusState \<Rightarrow> AppletMessage" where
  "focus_message state = (if state = InFocus then ChangeIntoForeground else ChangeIntoBackground)"

definition pending_late :: "LifecycleManager \<Rightarrow> AppletMessage list" where
  "pending_late m =
     owed (m_has_requested_request_to_prepare_sleep m \<noteq> m_has_acknowledged_request_to_prepare_sleep m)
       RequestToPrepareSleep @
     owed (m_requested_request_to_display_state m \<noteq> m_acknowledged_request_to_display_state m)
       RequestToDisplay @
     owed (m_has_operation_mode_changed m) OperationModeChanged @
     owed (m_has_performance_mode_changed m) PerformanceModeChanged @
     owed (m_has_sd_card_removed m) SdCardRemoved @
     owed (m_has_sleep_required_by_high_temperature m) SleepRequiredByHighTemperature @
     owed (m_has_sleep_required_by_low_battery m) SleepRequiredByLowBattery @
     owed (m_has_auto_power_down m) AutoPowerDown @
     owed (m_has_album_screen_shot_taken m) AlbumScreenShotTaken @
     owed (m_has_album_recording_saved m) AlbumRecordingSaved @
     m_unordered_messages m"

definition pending_messages :: "LifecycleManager \<Rightarrow> AppletMessage list" where
  "pending_messages m =
     owed (m_has_resume m) Resume @
     owed (m_has_acknowledged_exit m \<noteq> m_has_requested_exit m) Exit @
     owed (m_focus_state_changed_notification_enabled m \<and> \<not> m_is_application m \<and>
       m_requested_focus_state m \<noteq> m_acknowledged_focus_state m) (focus_message (m_requested_focus_state m)) @
     owed (m_focus_state_changed_notification_enabled m \<and> m_is_application m \<and> m_has_focus_state_changed m)
       FocusStateChanged @
     pending_late m"

definition lm_inv :: "LifecycleManager \<Rightarrow> bool" where
  "lm_inv m \<longleftrightarrow>
     (\<not> m_is_application m \<longrightarrow> m_requested_focus_state m \<noteq> Background) \<and>
     (m_requested_focus_state m = FocusZero \<longrightarrow> m_acknowledged_focus_state m = FocusZero) \<and>
     (m_has_acknowledged_request_to_prepare_sleep m \<longrightarrow> m_has_requested_request_to_prepare_sleep m) \<and>
     NoMessage \<notin> set (m_unordered_messages m) \<and>
     m_system_event m = m_applet_message_available m"

lemma ShouldSignal_pending: "ShouldSignalSystemEvent m \<longleftrightarrow> pending_messages m \<noteq> []"
  by (auto simp: ShouldSignalSystemEvent_def pending_messages_def pending_late_def)

lemma Signal_cases:
  "SignalSystemEventIfNeeded m = m\<lparr>m_system_event := m_system_event m\<rparr> \<or>
   SignalSystemEventIfNeeded m = m\<lparr>m_system_event := True, m_applet_message_available := True\<rparr> \<or>
   SignalSystemEventIfNeeded m = m\<lparr>m_system_event := False, m_applet_message_available := False\<rparr>"
  by (simp add: SignalSystemEventIfNeeded_def Let_def)

lemma pending_Signal [simp]: "pending_messages (SignalSystemEventIfNeeded m) = pending_messages m"
  by (simp add: SignalSystemEventIfNeeded_def Let_def pending_messages_def pending_late_def)

lemma lm_inv_Signal: "lm_inv m \<Longrightarrow> lm_inv (SignalSystemEventIfNeeded m)"
  by (simp add: SignalSystemEventIfNeeded_def Let_def lm_inv_def)

lemma event_Signal:
  "lm_inv m \<Longrightarrow> m_system_event (SignalSystemEventIfNeeded m) \<longleftrightarrow> pending_messages m \<noteq> []"
  by (auto simp: SignalSystemEventIfNeeded_def Let_def lm_inv_def ShouldSignal_pending)

lemmas late_defs = PopAfterFocus_def pending_late_def lm_inv_def

lemma PopAfterFocus_pending:
  assumes "lm_inv m" "PopAfterFocus m = (msg, m')"
  shows "(case pending_late m of [] \<Rightarrow> msg = NoMessage \<and> m' = m
    | x # xs \<Rightarrow> msg = x \<and> x \<noteq> NoMessage \<and> pending_late m' = xs) \<and> lm_inv m' \<and>
    m_has_resume m' = m_has_resume m \<and> m_has_acknowledged_exit m' = m_has_acknowledged_exit m \<and>
    m_has_requested_exit m' = m_has_requested_exit m \<and>
    m_focus_state_changed_notification_enabled m' = m_focus_state_changed_notification_enabled m \<and>
    m_is_application m' = m_is_application m \<and> m_has_focus_state_changed m' = m_has_focus_state_changed m \<and>
    m_requested_focus_state m' = m_requested_focus_state m \<and>
    m_acknowledged_focus_state m' = m_acknowledged_focus_state m"
  using assms
  by (simp only: PopAfterFocus_def split: if_split_asm list.split_asm; clarsimp simp: pending_late_def lm_inv_def)

lemma focus_cases:
  "lm_inv m \<Longrightarrow> \<not> m_is_application m \<Longrightarrow> m_requested_focus_state m \<noteq> m_acknowledged_focus_state m \<Longrightarrow>
   m_requested_focus_state m = InFocus \<or> m_requested_focus_state m = NotInFocus"
  by (cases "m_requested_focus_state m") (auto simp: lm_inv_def)

lemma Pop_pending:
  assumes inv: "lm_inv m"
  shows "\<exists>msg m'. PopMessageInOrderOfPriority m = Inr (msg, m') \<and> lm_inv m' \<and>
    (case pending_messages m of [] \<Rightarrow> msg = NoMessage \<and> pending_messages m' = []
     | x # xs \<Rightarrow> msg = x \<and> x \<noteq> NoMessage \<and> pending_messages m' = xs)"
proof -
  consider (resume) "m_has_resume m"
    | (exit) "\<not> m_has_resume m" "m_has_acknowledged_exit m \<noteq> m_has_requested_exit m"
    | (focus) "\<not> m_has_resume m" "m_has_acknowledged_exit m = m_has_requested_exit m"
        "m_focus_state_changed_notification_enabled m" "\<not> m_is_application m"
        "m_requested_focus_state m \<noteq> m_acknowledged_focus_state m"
    | (app) "\<not> m_has_resume m" "m_has_acknowledged_exit m = m_has_requested_exit m"
        "m_focus_state_changed_notification_enabled m" "m_is_application m" "m_has_focus_state_changed m"
    | (late) "\<not> m_has_resume m" "m_has_acknowledged_exit m = m_has_requested_exit m"
        "\<not> (m_focus_state_changed_notification_enabled m \<and> \<not> m_is_application m \<and>
           m_requested_focus_state m \<noteq> m_acknowledged_focus_state m)"
        "\<not> (m_focus_state_changed_notification_enabled m \<and> m_is_application m \<and> m_has_focus_state_changed m)"
    by blast
  then show ?thesis
  proof cases
    case resume
    then show ?thesis
      using inv
      by (simp add: PopMessageInOrderOfPriority_def pending_messages_def pending_late_def lm_inv_def)
  next
    case exit
    then show ?thesis
      using inv
      by (simp add: PopMessageInOrderOfPriority_def pending_messages_def pending_late_def lm_inv_def)
  next
    case focus
    from focus_cases [OF inv focus(4,5)] show ?thesis
      using inv focus
      by (elim disjE; simp add: PopMessageInOrderOfPriority_def pending_messages_def pending_late_def
          lm_inv_def focus_message_def)
  next
    case app
    then show ?thesis
      using inv
      by (simp add: PopMessageInOrderOfPriority_def pending_messages_def pending_late_def lm_inv_def)
  next
    case late
    obtain msg m' where pop: "PopAfterFocus m = (msg, m')" by (cases "PopAfterFocus m")
    have eq: "pending_messages m = pending_late m" using late by (auto simp: pending_messages_def)
    from PopAfterFocus_pending [OF inv pop] late have "pending_messages m' = pending_late m'"
      by (auto simp: pending_messages_def)
    with PopAfterFocus_pending [OF inv pop] late eq pop show ?thesis
      by (auto simp: PopMessageInOrderOfPriority_def split: list.splits)
  qed
qed

section \<open>Every operation\<close>

datatype lm_op =
    OpPushUnorderedMessage AppletMessage | OpPopMessage | OpOnOperationAndPerformanceModeChanged
  | OpGetAndClearFocusState | OpSetFocusState FocusState | OpRequestExit | OpRequestResumeNotification
  | OpSetFocusStateChangedNotificationEnabled bool | OpSetOperationModeChangedNotificationEnabled bool
  | OpSetPerformanceModeChangedNotificationEnabled bool | OpSetResumeNotificationEnabled bool
  | OpSetActivityState ActivityState | OpSetSuspendMode SuspendMode | OpSetForcedSuspend bool
  | OpSetFocusHandlingMode bool | OpSetOutOfFocusSuspendingEnabled bool | OpRemoveForceResumeIfPossible
  | OpUpdateRequestedFocusState | OpSignalSystemEventIfNeeded

fun lm_step :: "lm_op \<Rightarrow> LifecycleManager \<Rightarrow> LifecycleManager run" where
  "lm_step (OpPushUnorderedMessage msg) m = Inr (PushUnorderedMessage msg m)"
| "lm_step OpPopMessage m = bind_run (PopMessage m) (\<lambda>(r, m'). Inr m')"
| "lm_step OpOnOperationAndPerformanceModeChanged m = Inr (OnOperationAndPerformanceModeChanged m)"
| "lm_step OpGetAndClearFocusState m = Inr (snd (GetAndClearFocusState m))"
| "lm_step (OpSetFocusState state) m = Inr (SetFocusState state m)"
| "lm_step OpRequestExit m = Inr (RequestExit m)"
| "lm_step OpRequestResumeNotification m = Inr (RequestResumeNotification m)"
| "lm_step (OpSetFocusStateChangedNotificationEnabled b) m = Inr (SetFocusStateChangedNotificationEnabled b m)"
| "lm_step (OpSetOperationModeChangedNotificationEnabled b) m = Inr (SetOperationModeChangedNotificationEnabled b m)"
| "lm_step (OpSetPerformanceModeChangedNotificationEnabled b) m = Inr (SetPerformanceModeChangedNotificationEnabled b m)"
| "lm_step (OpSetResumeNotificationEnabled b) m = Inr (SetResumeNotificationEnabled b m)"
| "lm_step (OpSetActivityState state) m = Inr (SetActivityState state m)"
| "lm_step (OpSetSuspendMode mode) m = Inr (SetSuspendMode mode m)"
| "lm_step (OpSetForcedSuspend b) m = Inr (SetForcedSuspend b m)"
| "lm_step (OpSetFocusHandlingMode b) m = Inr (SetFocusHandlingMode b m)"
| "lm_step (OpSetOutOfFocusSuspendingEnabled b) m = Inr (SetOutOfFocusSuspendingEnabled b m)"
| "lm_step OpRemoveForceResumeIfPossible m = Inr (RemoveForceResumeIfPossible m)"
| "lm_step OpUpdateRequestedFocusState m = Inr (snd (UpdateRequestedFocusState m))"
| "lm_step OpSignalSystemEventIfNeeded m = Inr (SignalSystemEventIfNeeded m)"

text \<open>Callers never push \<^verbatim>\<open>AppletMessage::None\<close> and never set \<^verbatim>\<open>FocusState::Background\<close> or zero by hand.\<close>

fun lm_allowed :: "lm_op \<Rightarrow> bool" where
  "lm_allowed (OpPushUnorderedMessage msg) = (msg \<noteq> NoMessage)"
| "lm_allowed (OpSetFocusState state) = (state = InFocus \<or> state = NotInFocus)"
| "lm_allowed _ = True"

lemma NewFocusState_known:
  "NewFocusState m \<noteq> FocusZero \<and> (NewFocusState m = Background \<longrightarrow> m_is_application m)"
  by (simp add: NewFocusState_def GetFocusStateWhileForegroundObscured_def GetFocusStateWhileBackground_def
      split: ActivityState.split FocusHandlingMode.split)

lemma new_LifecycleManager_inv: "lm_inv (new_LifecycleManager b)"
  by (simp add: new_LifecycleManager_def lm_inv_def)

lemma PopMessage_inv:
  assumes "lm_inv m"
  shows "\<exists>r m'. PopMessage m = Inr (r, m') \<and> lm_inv m'"
  using Pop_pending [OF assms] by (auto simp: PopMessage_def lm_inv_Signal)

lemma RemoveForceResume_inv: "lm_inv m \<Longrightarrow> lm_inv (RemoveForceResumeIfPossible m)"
  by (simp add: RemoveForceResumeIfPossible_def lm_inv_def split: FocusHandlingMode.split)

lemma UpdateRequestedFocusState_inv: "lm_inv m \<Longrightarrow> lm_inv (snd (UpdateRequestedFocusState m))"
  using NewFocusState_known [of m] by (auto simp: UpdateRequestedFocusState_def lm_inv_def)

lemma RequestResume_inv: "lm_inv m \<Longrightarrow> lm_inv (RequestResumeNotification m)"
  by (simp add: RequestResumeNotification_def lm_inv_def)

lemma Push_inv: "lm_inv m \<Longrightarrow> msg \<noteq> NoMessage \<Longrightarrow> lm_inv (PushUnorderedMessage msg m)"
  unfolding PushUnorderedMessage_def by (rule lm_inv_Signal) (simp add: lm_inv_def)

lemma ModeChanged_inv: "lm_inv m \<Longrightarrow> lm_inv (OnOperationAndPerformanceModeChanged m)"
  unfolding OnOperationAndPerformanceModeChanged_def Let_def by (rule lm_inv_Signal) (simp add: lm_inv_def)

lemma SetFocusState_inv:
  "lm_inv m \<Longrightarrow> state = InFocus \<or> state = NotInFocus \<Longrightarrow> lm_inv (SetFocusState state m)"
  unfolding SetFocusState_def Let_def by (rule lm_inv_Signal) (auto simp: lm_inv_def)

lemma signalling_inv:
  assumes "lm_inv m"
  shows "lm_inv (RequestExit m)" "lm_inv (SetFocusStateChangedNotificationEnabled b m)"
    "lm_inv (SetOperationModeChangedNotificationEnabled b m)"
    "lm_inv (SetPerformanceModeChangedNotificationEnabled b m)"
  using assms unfolding RequestExit_def SetFocusStateChangedNotificationEnabled_def
    SetOperationModeChangedNotificationEnabled_def SetPerformanceModeChangedNotificationEnabled_def
  by - (rule lm_inv_Signal; simp add: lm_inv_def)+

lemma silent_inv:
  assumes "lm_inv m"
  shows "lm_inv (snd (GetAndClearFocusState m))" "lm_inv (SetResumeNotificationEnabled b m)"
    "lm_inv (SetActivityState activity m)" "lm_inv (SetSuspendMode mode m)" "lm_inv (SetForcedSuspend b m)"
    "lm_inv (SetFocusHandlingMode b m)" "lm_inv (SetOutOfFocusSuspendingEnabled b m)"
  using assms
  by (simp_all add: lm_inv_def GetAndClearFocusState_def SetResumeNotificationEnabled_def SetActivityState_def
      SetSuspendMode_def SetForcedSuspend_def SetFocusHandlingMode_def SetOutOfFocusSuspendingEnabled_def
      split: FocusHandlingMode.split)

lemmas lm_op_inv = Push_inv ModeChanged_inv SetFocusState_inv signalling_inv silent_inv lm_inv_Signal
  RemoveForceResume_inv UpdateRequestedFocusState_inv RequestResume_inv

lemma lm_step_inv:
  assumes "lm_inv m" "lm_allowed op"
  shows "\<exists>m'. lm_step op m = Inr m' \<and> lm_inv m'"
  using assms PopMessage_inv [OF assms(1)] by (cases op) (auto intro: lm_op_inv)

interpretation lm: safe_machine lm_step lm_inv lm_allowed
proof
  fix op m m' assume "lm_inv m" "lm_allowed op" "lm_step op m = Inr m'"
  then show "lm_inv m'" using lm_step_inv by fastforce
next
  fix op m assume "lm_inv m" "lm_allowed op"
  then show "\<exists>m'. lm_step op m = Inr m'" using lm_step_inv by blast
qed

section \<open>Delivery\<close>

lemma PopMessage_head:
  assumes inv: "lm_inv m"
  shows "\<exists>m'. PopMessage m =
      Inr ((pending_messages m \<noteq> [], if pending_messages m = [] then NoMessage else hd (pending_messages m)), m') \<and>
    lm_inv m' \<and> pending_messages m' = tl (pending_messages m) \<and>
    (m_system_event m' \<longleftrightarrow> tl (pending_messages m) \<noteq> [])"
proof -
  from Pop_pending [OF inv] obtain msg m1 where pop: "PopMessageInOrderOfPriority m = Inr (msg, m1)"
    and m1: "lm_inv m1"
    and order: "case pending_messages m of [] \<Rightarrow> msg = NoMessage \<and> pending_messages m1 = []
      | x # xs \<Rightarrow> msg = x \<and> x \<noteq> NoMessage \<and> pending_messages m1 = xs"
    by blast
  then show ?thesis
    by (cases "pending_messages m") (auto simp: PopMessage_def lm_inv_Signal event_Signal)
qed

fun pop_messages :: "nat \<Rightarrow> LifecycleManager \<Rightarrow> (AppletMessage list \<times> LifecycleManager) run" where
  "pop_messages 0 m = Inr ([], m)"
| "pop_messages (Suc n) m =
     bind_run (PopMessage m) (\<lambda>((found, msg), m1).
     bind_run (pop_messages n m1) (\<lambda>(msgs, m2). Inr (msg # msgs, m2)))"

lemma pop_messages_take:
  assumes "lm_inv m" "n \<le> length (pending_messages m)"
  shows "\<exists>m'. pop_messages n m = Inr (take n (pending_messages m), m') \<and> lm_inv m' \<and>
    pending_messages m' = drop n (pending_messages m) \<and>
    (0 < n \<longrightarrow> m_system_event m' = (drop n (pending_messages m) \<noteq> []))"
  using assms
proof (induction n arbitrary: m)
  case (Suc n)
  obtain x xs where pend: "pending_messages m = x # xs" using Suc.prems(2) by (cases "pending_messages m") auto
  from PopMessage_head [OF Suc.prems(1)] pend obtain m1
    where m1: "PopMessage m = Inr ((True, x), m1)" "lm_inv m1" "pending_messages m1 = xs"
      "m_system_event m1 \<longleftrightarrow> xs \<noteq> []" by auto
  with Suc.IH [of m1] Suc.prems pend show ?case by (cases n) auto
qed simp

lemma IsRunnable_RequestResume [simp]: "IsRunnable (RequestResumeNotification m) = IsRunnable m"
  by (cases "m_suspend_mode m"; cases "m_focus_handling_mode m")
    (simp_all add: RequestResumeNotification_def IsRunnable_def)

lemma IsRunnable_Signal [simp]: "IsRunnable (SignalSystemEventIfNeeded m) = IsRunnable m"
  by (cases "m_suspend_mode m"; cases "m_focus_handling_mode m")
    (simp_all add: SignalSystemEventIfNeeded_def Let_def IsRunnable_def)

lemma IsRunnable_UpdateRequestedFocusState [simp]:
  "IsRunnable (snd (UpdateRequestedFocusState m)) = IsRunnable m"
  by (cases "m_suspend_mode m"; cases "m_focus_handling_mode m")
    (simp_all add: UpdateRequestedFocusState_def IsRunnable_def)

lemma forced_suspend_frames [simp]:
  "m_forced_suspend (RequestResumeNotification m) = m_forced_suspend m"
  "m_forced_suspend (RemoveForceResumeIfPossible m) = m_forced_suspend m"
  by (simp_all add: RequestResumeNotification_def RemoveForceResumeIfPossible_def split: FocusHandlingMode.split)

lemma NewFocusState_frame:
  "m_suspend_mode m' = m_suspend_mode m \<Longrightarrow> m_activity_state m' = m_activity_state m \<Longrightarrow>
   m_focus_handling_mode m' = m_focus_handling_mode m \<Longrightarrow> m_is_application m' = m_is_application m \<Longrightarrow>
   NewFocusState m' = NewFocusState m"
  by (cases "m_activity_state m"; cases "m_focus_handling_mode m")
    (simp_all add: NewFocusState_def GetFocusStateWhileForegroundObscured_def GetFocusStateWhileBackground_def)

lemma NewFocusState_Signal [simp]: "NewFocusState (SignalSystemEventIfNeeded m) = NewFocusState m"
  by (rule NewFocusState_frame) (simp_all add: SignalSystemEventIfNeeded_def Let_def)

lemma requested_Signal [simp]:
  "m_requested_focus_state (SignalSystemEventIfNeeded m) = m_requested_focus_state m"
  by (simp add: SignalSystemEventIfNeeded_def Let_def)

lemma UpdateRequestedFocusState_requested:
  "m_requested_focus_state (snd (UpdateRequestedFocusState m)) =
     NewFocusState (snd (UpdateRequestedFocusState m))"
proof -
  have "NewFocusState (snd (UpdateRequestedFocusState m)) = NewFocusState m"
    by (rule NewFocusState_frame) (simp_all add: UpdateRequestedFocusState_def)
  then show ?thesis by (auto simp: UpdateRequestedFocusState_def)
qed

text \<open>The manager \<^verbatim>\<open>UpdateSuspensionStateLocked\<close> leaves, from the one it has after the process was dealt with.\<close>

definition refocused :: "bool \<Rightarrow> LifecycleManager \<Rightarrow> LifecycleManager" where
  "refocused notify m =
     (if m_forced_suspend m then m
      else case UpdateRequestedFocusState m of (changed, m2) \<Rightarrow>
        if changed \<or> notify then SignalSystemEventIfNeeded m2 else m2)"

lemma refocused_simps:
  assumes "lm_inv m"
  shows "lm_inv (refocused notify m)" "IsRunnable (refocused notify m) = IsRunnable m"
    "\<not> m_forced_suspend m \<Longrightarrow>
       m_requested_focus_state (refocused notify m) = NewFocusState (refocused notify m)"
    "\<not> m_forced_suspend m \<Longrightarrow> notify \<Longrightarrow>
       m_system_event (refocused notify m) = (pending_messages (refocused notify m) \<noteq> [])"
  using UpdateRequestedFocusState_inv [OF assms] IsRunnable_UpdateRequestedFocusState [of m]
    UpdateRequestedFocusState_requested [of m] assms
  by (cases "UpdateRequestedFocusState m"; simp add: refocused_def lm_inv_Signal event_Signal)+

lemma UpdateSuspension_shape:
  assumes "m1 = RemoveForceResumeIfPossible (lifecycle_manager a)"
    and "changed = (IsRunnable m1 \<noteq> is_activity_runnable a)"
    and "m2 = (if changed \<and> \<not> IsRunnable m1 then RequestResumeNotification m1 else m1)"
  shows "lifecycle_manager (UpdateSuspensionStateLocked force a) = refocused (changed \<or> force) m2"
    and "is_activity_runnable (UpdateSuspensionStateLocked force a) = IsRunnable m1"
    and "process_suspended (UpdateSuspensionStateLocked force a) =
      (if changed then \<not> IsRunnable m1 else process_suspended a)"
  by (auto simp: UpdateSuspensionStateLocked_def refocused_def Let_def assms split: prod.split)

text \<open>An applet whose process runs exactly when its activity was last found runnable.\<close>

definition applet_inv :: "Applet \<Rightarrow> bool" where
  "applet_inv a \<longleftrightarrow> lm_inv (lifecycle_manager a) \<and> process_suspended a = (\<not> is_activity_runnable a)"

section \<open>Properties\<close>

text \<open>C10: \<^verbatim>\<open>PopMessage\<close> refines a queue: in every consistent state it delivers the first message the applet is owed
  (or reports that there is none), leaves exactly the others owed, and leaves the system event signalled if and
  only if something is still owed.  It never reaches the assertion on an unknown focus state.\<close>

theorem pop_message_in_priority_order:
  assumes "lm_inv m"
  shows "\<exists>m'. PopMessage m =
      Inr ((pending_messages m \<noteq> [], if pending_messages m = [] then NoMessage else hd (pending_messages m)), m') \<and>
    lm_inv m' \<and> pending_messages m' = tl (pending_messages m) \<and>
    (m_system_event m' \<longleftrightarrow> tl (pending_messages m) \<noteq> [])"
  by (rule PopMessage_head [OF assms])

theorem pop_message_in_priority_order_witness:
  "\<exists>m'. PopMessage (PushUnorderedMessage SdCardRemoved (RequestExit (new_LifecycleManager True))) =
     Inr ((True, Exit), m') \<and> pending_messages m' = [FocusStateChanged, SdCardRemoved] \<and> m_system_event m'"
proof -
  let ?m = "PushUnorderedMessage SdCardRemoved (RequestExit (new_LifecycleManager True))"
  have inv: "lm_inv ?m" by code_simp
  have pend: "pending_messages ?m = [Exit, FocusStateChanged, SdCardRemoved]" by code_simp
  from pop_message_in_priority_order [OF inv] show ?thesis unfolding pend by auto
qed

text \<open>C11: Every message is delivered: after any sequence of operations on a new manager, popping as often as there
  are owed messages returns all of them in order, after which the event is clear and nothing is owed.\<close>

theorem all_messages_delivered:
  assumes "list_all lm_allowed ops"
  shows "\<exists>m m'. run_ops lm_step ops (new_LifecycleManager app) = Inr m \<and>
    pop_messages (length (pending_messages m)) m = Inr (pending_messages m, m') \<and>
    pending_messages m' = [] \<and> (pending_messages m \<noteq> [] \<longrightarrow> \<not> m_system_event m')"
proof -
  from lm.run_safe [OF new_LifecycleManager_inv assms] obtain m
    where "run_ops lm_step ops (new_LifecycleManager app) = Inr m" "lm_inv m" by blast
  with pop_messages_take [of m "length (pending_messages m)"] show ?thesis by auto
qed

theorem all_messages_delivered_witness:
  "\<exists>m m'. run_ops lm_step [OpSetFocusState InFocus, OpRequestExit] (new_LifecycleManager False) = Inr m \<and>
    pop_messages (length (pending_messages m)) m = Inr (pending_messages m, m') \<and>
    pending_messages m' = [] \<and> (pending_messages m \<noteq> [] \<longrightarrow> \<not> m_system_event m')"
  by (rule all_messages_delivered) simp

text \<open>C12: \<^verbatim>\<open>UpdateSuspensionStateLocked\<close> keeps the process in step with the lifecycle: afterwards the process is
  suspended exactly when the manager says the applet is not runnable, the cached flag agrees and, unless the applet is force-suspended, the requested focus state is the one its
  activity state calls for; with \<^verbatim>\<open>force_message\<close> the event then tells whether messages are owed.\<close>

theorem update_suspension_state:
  assumes "applet_inv a" "a' = UpdateSuspensionStateLocked force a"
  shows "applet_inv a' \<and> process_suspended a' = (\<not> IsRunnable (lifecycle_manager a')) \<and>
    is_activity_runnable a' = IsRunnable (lifecycle_manager a') \<and>
    (\<not> m_forced_suspend (lifecycle_manager a) \<longrightarrow>
       m_requested_focus_state (lifecycle_manager a') = NewFocusState (lifecycle_manager a') \<and>
       (force \<longrightarrow> m_system_event (lifecycle_manager a') = (pending_messages (lifecycle_manager a') \<noteq> [])))"
proof -
  let ?m1 = "RemoveForceResumeIfPossible (lifecycle_manager a)"
  define changed where "changed = (IsRunnable ?m1 \<noteq> is_activity_runnable a)"
  define m2 where "m2 = (if changed \<and> \<not> IsRunnable ?m1 then RequestResumeNotification ?m1 else ?m1)"
  note shape = UpdateSuspension_shape [OF refl changed_def m2_def, of force]
  have inv: "lm_inv m2" using assms(1) by (simp add: m2_def applet_inv_def RemoveForceResume_inv RequestResume_inv)
  have run: "IsRunnable m2 = IsRunnable ?m1" "m_forced_suspend m2 = m_forced_suspend (lifecycle_manager a)"
    by (simp_all add: m2_def)
  have susp: "process_suspended a' = (\<not> IsRunnable ?m1)"
    using assms shape(3) by (auto simp: applet_inv_def changed_def)
  show ?thesis
    unfolding applet_inv_def susp assms(2) shape(1,2)
    using refocused_simps [OF inv] run susp assms(2) by auto
qed

theorem update_suspension_state_witness:
  "let a = \<lparr>lifecycle_manager = SetActivityState BackgroundObscured (new_LifecycleManager True),
      is_activity_runnable = True, process_suspended = False, is_interactible = True, input_enabled = True,
      is_completed = False, state_changed_event = False\<rparr>;
     a' = UpdateSuspensionStateLocked False a
   in applet_inv a \<and> process_suspended a' = (\<not> IsRunnable (lifecycle_manager a')) \<and> process_suspended a'"
proof -
  let ?a = "\<lparr>lifecycle_manager = SetActivityState BackgroundObscured (new_LifecycleManager True),
      is_activity_runnable = True, process_suspended = False, is_interactible = True, input_enabled = True,
      is_completed = False, state_changed_event = False\<rparr>"
  have inv: "applet_inv ?a" by code_simp
  have susp: "process_suspended (UpdateSuspensionStateLocked False ?a)" by code_simp
  from update_suspension_state [OF inv refl, of False] inv susp show ?thesis by (simp add: Let_def)
qed

end
