(* ===== verification/CheatDecode.thy ===== *)
theory CheatDecode
  imports Prelude
begin

text \<open>
  The instruction set of the cheat virtual machine (\<^verbatim>\<open>core/memory/dmnt_cheat_vm.{h,cpp}\<close>): its state, its
  opcodes, the decoder \<^verbatim>\<open>DecodeNextOpcode\<close> and \<^verbatim>\<open>SkipConditionalBlock\<close>, which decodes its way to the end of a
  conditional block.  An \<^verbatim>\<open>enum class\<close> with a fixed underlying type holds every value of that type, so each
  enumeration has a constructor for the values without a name.  The operands of \<^verbatim>\<open>|\<close> that both fetch a dword are
  taken left to right, the order of the words in the instruction formats.
\<close>

section \<open>State\<close>

definition MaximumProgramOpcodeCount :: nat where "MaximumProgramOpcodeCount = 0x400"
definition NumRegisters :: nat where "NumRegisters = 0x10"
definition NumReadableStaticRegisters :: nat where "NumReadableStaticRegisters = 0x80"
definition NumStaticRegisters :: nat where "NumStaticRegisters = 0x100"

record DmntCheatVm =
  num_opcodes :: nat
  instruction_ptr :: nat
  condition_depth :: nat
  decode_success :: bool
  cheat_program :: "u32 list"
  registers :: "u64 list"
  saved_values :: "u64 list"
  static_registers :: "u64 list"
  loop_tops :: "nat list"

definition new_vm :: DmntCheatVm where
  "new_vm = \<lparr>num_opcodes = 0, instruction_ptr = 0, condition_depth = 0, decode_success = False,
     cheat_program = replicate MaximumProgramOpcodeCount 0, registers = replicate NumRegisters 0,
     saved_values = replicate NumRegisters 0, static_registers = replicate NumStaticRegisters 0,
     loop_tops = replicate NumRegisters 0\<rparr>"

section \<open>Opcodes\<close>

datatype CheatVmOpcodeType =
    StoreStatic | BeginConditionalBlock | EndConditionalBlock | ControlLoop | LoadRegisterStatic
  | LoadRegisterMemory | StoreStaticToAddress | PerformArithmeticStatic | BeginKeypressConditionalBlock
  | PerformArithmeticRegister | StoreRegisterToAddress | BeginRegisterConditionalBlock
  | SaveRestoreRegister | SaveRestoreRegisterMask | ReadWriteStaticRegister | PauseProcess
  | ResumeProcess | DebugLog | OtherOpcodeType u32

definition to_opcode_type :: "u32 \<Rightarrow> CheatVmOpcodeType" where
  "to_opcode_type n =
     (if n = 0 then StoreStatic else if n = 1 then BeginConditionalBlock
      else if n = 2 then EndConditionalBlock else if n = 3 then ControlLoop
      else if n = 4 then LoadRegisterStatic else if n = 5 then LoadRegisterMemory
      else if n = 6 then StoreStaticToAddress else if n = 7 then PerformArithmeticStatic
      else if n = 8 then BeginKeypressConditionalBlock else if n = 9 then PerformArithmeticRegister
      else if n = 10 then StoreRegisterToAddress else if n = 0xC0 then BeginRegisterConditionalBlock
      else if n = 0xC1 then SaveRestoreRegister else if n = 0xC2 then SaveRestoreRegisterMask
      else if n = 0xC3 then ReadWriteStaticRegister else if n = 0xFF0 then PauseProcess
      else if n = 0xFF1 then ResumeProcess else if n = 0xFFF then DebugLog
      else OtherOpcodeType n)"

datatype MemoryAccessType = MainNso | Heap | Alias | Aslr | OtherAccess u32

definition to_MemoryAccessType :: "u32 \<Rightarrow> MemoryAccessType" where
  "to_MemoryAccessType n = (if n = 0 then MainNso else if n = 1 then Heap else if n = 2 then Alias
     else if n = 3 then Aslr else OtherAccess n)"

datatype ConditionalComparisonType = GT | GE | LT | LE | EQ | NE | OtherComparison u32

definition to_ConditionalComparisonType :: "u32 \<Rightarrow> ConditionalComparisonType" where
  "to_ConditionalComparisonType n = (if n = 1 then GT else if n = 2 then GE else if n = 3 then LT
     else if n = 4 then LE else if n = 5 then EQ else if n = 6 then NE else OtherComparison n)"

datatype RegisterArithmeticType =
    Addition | Subtraction | Multiplication | LeftShift | RightShift | LogicalAnd | LogicalOr
  | LogicalNot | LogicalXor | NoArithmetic | OtherArithmetic u32

definition to_RegisterArithmeticType :: "u32 \<Rightarrow> RegisterArithmeticType" where
  "to_RegisterArithmeticType n = (if n = 0 then Addition else if n = 1 then Subtraction
     else if n = 2 then Multiplication else if n = 3 then LeftShift else if n = 4 then RightShift
     else if n = 5 then LogicalAnd else if n = 6 then LogicalOr else if n = 7 then LogicalNot
     else if n = 8 then LogicalXor else if n = 9 then NoArithmetic else OtherArithmetic n)"

datatype StoreRegisterOffsetType = NoOffset | Reg | Imm | MemReg | MemImm | MemImmReg | OtherOffset u32

definition to_StoreRegisterOffsetType :: "u32 \<Rightarrow> StoreRegisterOffsetType" where
  "to_StoreRegisterOffsetType n = (if n = 0 then NoOffset else if n = 1 then Reg else if n = 2 then Imm
     else if n = 3 then MemReg else if n = 4 then MemImm else if n = 5 then MemImmReg else OtherOffset n)"

datatype ValueType =
    MemoryRelAddr | MemoryOfsReg | RegisterRelAddr | RegisterOfsReg | FourthType | FifthType
  | OtherValueType u32

text \<open>\<^verbatim>\<open>CompareRegisterValueType\<close> and \<^verbatim>\<open>DebugLogValueType\<close> agree on the values 0 to 3.  The fourth is
  \<^verbatim>\<open>StaticValue\<close> in the one and \<^verbatim>\<open>RegisterValue\<close> in the other; the fifth, \<^verbatim>\<open>OtherRegister\<close>, is only in the first.\<close>

abbreviation "StaticValue \<equiv> FourthType"
abbreviation "OtherRegister \<equiv> FifthType"
abbreviation "RegisterValue \<equiv> FourthType"

definition to_ValueType :: "u32 \<Rightarrow> ValueType" where
  "to_ValueType n = (if n = 0 then MemoryRelAddr else if n = 1 then MemoryOfsReg
     else if n = 2 then RegisterRelAddr else if n = 3 then RegisterOfsReg else if n = 4 then FourthType
     else if n = 5 then FifthType else OtherValueType n)"

datatype SaveRestoreRegisterOpType = Restore | Save | ClearSaved | ClearRegs | OtherSaveRestore u32

definition to_SaveRestoreRegisterOpType :: "u32 \<Rightarrow> SaveRestoreRegisterOpType" where
  "to_SaveRestoreRegisterOpType n = (if n = 0 then Restore else if n = 1 then Save
     else if n = 2 then ClearSaved else if n = 3 then ClearRegs else OtherSaveRestore n)"

text \<open>A \<^verbatim>\<open>VmInt\<close> union is read at the width it was written with; it is kept as its zero-extended value.\<close>

type_synonym VmInt = u64

datatype CheatVmOpcode =
    StoreStaticOpcode (bit_width: u32) (mem_type: MemoryAccessType) (offset_register: u32) (rel_address: u64)
      (vm_value: VmInt)
  | BeginConditionalOpcode (bit_width: u32) (mem_type: MemoryAccessType)
      (cond_type: ConditionalComparisonType) (rel_address: u64) (vm_value: VmInt)
  | EndConditionalOpcode (is_else: bool)
  | ControlLoopOpcode (start_loop: bool) (reg_index: u32) (num_iters: u32)
  | LoadRegisterStaticOpcode (reg_index: u32) (static_value: u64)
  | LoadRegisterMemoryOpcode (bit_width: u32) (mem_type: MemoryAccessType) (reg_index: u32)
      (load_from_reg: bool) (rel_address: u64)
  | StoreStaticToAddressOpcode (bit_width: u32) (reg_index: u32) (increment_reg: bool)
      (add_offset_reg: bool) (offset_reg_index: u32) (static_value: u64)
  | PerformArithmeticStaticOpcode (bit_width: u32) (reg_index: u32) (math_type: RegisterArithmeticType)
      (math_value: u32)
  | BeginKeypressConditionalOpcode (key_mask: u32)
  | PerformArithmeticRegisterOpcode (bit_width: u32) (math_type: RegisterArithmeticType)
      (dst_reg_index: u32) (src_reg_1_index: u32) (src_reg_2_index: u32) (has_immediate: bool)
      (vm_value: VmInt)
  | StoreRegisterToAddressOpcode (bit_width: u32) (str_reg_index: u32) (addr_reg_index: u32)
      (increment_reg: bool) (ofs_type: StoreRegisterOffsetType) (mem_type: MemoryAccessType)
      (ofs_reg_index: u32) (rel_address: u64)
  | BeginRegisterConditionalOpcode (bit_width: u32) (cond_type: ConditionalComparisonType)
      (val_reg_index: u32) (comp_type: ValueType) (mem_type: MemoryAccessType) (addr_reg_index: u32)
      (other_reg_index: u32) (ofs_reg_index: u32) (rel_address: u64) (vm_value: VmInt)
  | SaveRestoreRegisterOpcode (dst_index: u32) (src_index: u32) (op_type: SaveRestoreRegisterOpType)
  | SaveRestoreRegisterMaskOpcode (op_type: SaveRestoreRegisterOpType) (should_operate: "bool list")
  | ReadWriteStaticRegisterOpcode (static_idx: u32) (idx: u32)
  | PauseProcessOpcode
  | ResumeProcessOpcode
  | DebugLogOpcode (bit_width: u32) (log_id: u32) (val_type: ValueType) (mem_type: MemoryAccessType)
      (addr_reg_index: u32) (val_reg_index: u32) (ofs_reg_index: u32) (rel_address: u64)
  | UnrecognizedInstruction CheatVmOpcodeType

section \<open>Fetching\<close>

text \<open>The decoder's local \<^verbatim>\<open>valid\<close> beside the machine.\<close>

type_synonym dec = "bool \<times> DmntCheatVm"

definition GetNextDword :: "dec \<Rightarrow> (u32 \<times> dec) run" where
  "GetNextDword d =
     (case d of (valid, vm) \<Rightarrow>
        if instruction_ptr vm \<ge> num_opcodes vm then Inr (0, (False, vm))
        else bind_run (aget (cheat_program vm) (int (instruction_ptr vm))) (\<lambda>dword.
          Inr (dword, (valid, vm\<lparr>instruction_ptr := instruction_ptr vm + 1\<rparr>))))"

definition two_dwords :: "u32 \<Rightarrow> u32 \<Rightarrow> u64" where
  "two_dwords hi lo = push_bit 32 (ucast hi) OR ucast lo"

definition GetNextVmInt :: "u32 \<Rightarrow> dec \<Rightarrow> (VmInt \<times> dec) run" where
  "GetNextVmInt width d =
     bind_run (GetNextDword d) (\<lambda>(first_dword, d1).
     if width = 1 then Inr (ucast (ucast first_dword :: u8), d1)
     else if width = 2 then Inr (ucast (ucast first_dword :: u16), d1)
     else if width = 4 then Inr (ucast first_dword, d1)
     else if width = 8 then
       bind_run (GetNextDword d1) (\<lambda>(second_dword, d2). Inr (two_dwords first_dword second_dword, d2))
     else Inr (0, d1))"

definition nibble :: "nat \<Rightarrow> u32 \<Rightarrow> u32" where
  "nibble k w = drop_bit k w AND 0xF"

definition opcode_number :: "u32 \<Rightarrow> u32" where
  "opcode_number first_dword =
     (let t = nibble 28 first_dword;
          t1 = (if t \<ge> 12 then push_bit 4 t OR nibble 24 first_dword else t)
      in if t1 \<ge> 0xF0 then push_bit 4 t1 OR nibble 20 first_dword else t1)"

section \<open>One decoder per opcode\<close>

definition decode_StoreStatic :: "u32 \<Rightarrow> dec \<Rightarrow> (CheatVmOpcode \<times> dec) run" where
  "decode_StoreStatic first_dword d =
     bind_run (GetNextDword d) (\<lambda>(second_dword, d1).
     bind_run (GetNextVmInt (nibble 24 first_dword) d1) (\<lambda>(v, d2).
     Inr (StoreStaticOpcode (nibble 24 first_dword) (to_MemoryAccessType (nibble 20 first_dword))
       (nibble 16 first_dword) (two_dwords (first_dword AND 0xFF) second_dword) v, d2)))"

definition decode_BeginConditional :: "u32 \<Rightarrow> dec \<Rightarrow> (CheatVmOpcode \<times> dec) run" where
  "decode_BeginConditional first_dword d =
     bind_run (GetNextDword d) (\<lambda>(second_dword, d1).
     bind_run (GetNextVmInt (nibble 24 first_dword) d1) (\<lambda>(v, d2).
     Inr (BeginConditionalOpcode (nibble 24 first_dword) (to_MemoryAccessType (nibble 20 first_dword))
       (to_ConditionalComparisonType (nibble 16 first_dword))
       (two_dwords (first_dword AND 0xFF) second_dword) v, d2)))"

definition decode_EndConditional :: "u32 \<Rightarrow> dec \<Rightarrow> (CheatVmOpcode \<times> dec) run" where
  "decode_EndConditional first_dword d = Inr (EndConditionalOpcode (nibble 24 first_dword = 1), d)"

definition decode_ControlLoop :: "u32 \<Rightarrow> dec \<Rightarrow> (CheatVmOpcode \<times> dec) run" where
  "decode_ControlLoop first_dword d =
     (if nibble 24 first_dword = 0 then
        bind_run (GetNextDword d) (\<lambda>(iters, d1).
        Inr (ControlLoopOpcode True (nibble 20 first_dword) iters, d1))
      else Inr (ControlLoopOpcode False (nibble 20 first_dword) 0, d))"

definition decode_LoadRegisterStatic :: "u32 \<Rightarrow> dec \<Rightarrow> (CheatVmOpcode \<times> dec) run" where
  "decode_LoadRegisterStatic first_dword d =
     bind_run (GetNextDword d) (\<lambda>(hi, d1).
     bind_run (GetNextDword d1) (\<lambda>(lo, d2).
     Inr (LoadRegisterStaticOpcode (nibble 16 first_dword) (two_dwords hi lo), d2)))"

definition decode_LoadRegisterMemory :: "u32 \<Rightarrow> dec \<Rightarrow> (CheatVmOpcode \<times> dec) run" where
  "decode_LoadRegisterMemory first_dword d =
     bind_run (GetNextDword d) (\<lambda>(second_dword, d1).
     Inr (LoadRegisterMemoryOpcode (nibble 24 first_dword) (to_MemoryAccessType (nibble 20 first_dword))
       (nibble 16 first_dword) (nibble 12 first_dword \<noteq> 0)
       (two_dwords (first_dword AND 0xFF) second_dword), d1))"

definition decode_StoreStaticToAddress :: "u32 \<Rightarrow> dec \<Rightarrow> (CheatVmOpcode \<times> dec) run" where
  "decode_StoreStaticToAddress first_dword d =
     bind_run (GetNextDword d) (\<lambda>(hi, d1).
     bind_run (GetNextDword d1) (\<lambda>(lo, d2).
     Inr (StoreStaticToAddressOpcode (nibble 24 first_dword) (nibble 16 first_dword)
       (nibble 12 first_dword \<noteq> 0) (nibble 8 first_dword \<noteq> 0) (nibble 4 first_dword)
       (two_dwords hi lo), d2)))"

definition decode_PerformArithmeticStatic :: "u32 \<Rightarrow> dec \<Rightarrow> (CheatVmOpcode \<times> dec) run" where
  "decode_PerformArithmeticStatic first_dword d =
     bind_run (GetNextDword d) (\<lambda>(v, d1).
     Inr (PerformArithmeticStaticOpcode (nibble 24 first_dword) (nibble 16 first_dword)
       (to_RegisterArithmeticType (nibble 12 first_dword)) v, d1))"

definition decode_BeginKeypressConditional :: "u32 \<Rightarrow> dec \<Rightarrow> (CheatVmOpcode \<times> dec) run" where
  "decode_BeginKeypressConditional first_dword d =
     Inr (BeginKeypressConditionalOpcode (first_dword AND 0x0FFFFFFF), d)"

definition decode_PerformArithmeticRegister :: "u32 \<Rightarrow> dec \<Rightarrow> (CheatVmOpcode \<times> dec) run" where
  "decode_PerformArithmeticRegister first_dword d =
     (let width = nibble 24 first_dword; math = to_RegisterArithmeticType (nibble 20 first_dword);
          dst = nibble 16 first_dword; src1 = nibble 12 first_dword
      in if nibble 8 first_dword \<noteq> 0 then
           bind_run (GetNextVmInt width d) (\<lambda>(v, d1).
           Inr (PerformArithmeticRegisterOpcode width math dst src1 0 True v, d1))
         else Inr (PerformArithmeticRegisterOpcode width math dst src1 (nibble 4 first_dword) False 0, d))"

definition decode_StoreRegisterToAddress :: "u32 \<Rightarrow> dec \<Rightarrow> (CheatVmOpcode \<times> dec) run" where
  "decode_StoreRegisterToAddress first_dword d =
     (let str_register = StoreRegisterToAddressOpcode (nibble 24 first_dword) (nibble 20 first_dword)
            (nibble 16 first_dword) (nibble 12 first_dword \<noteq> 0);
          ofs = to_StoreRegisterOffsetType (nibble 8 first_dword);
          ofs_reg = nibble 4 first_dword;
          region = to_MemoryAccessType (nibble 4 first_dword)
      in case ofs of
           NoOffset \<Rightarrow> Inr (str_register ofs MainNso ofs_reg 0, d)
         | Reg \<Rightarrow> Inr (str_register ofs MainNso ofs_reg 0, d)
         | Imm \<Rightarrow> bind_run (GetNextDword d) (\<lambda>(lo, d1).
             Inr (str_register ofs MainNso ofs_reg (two_dwords (first_dword AND 0xF) lo), d1))
         | MemReg \<Rightarrow> Inr (str_register ofs region ofs_reg 0, d)
         | MemImm \<Rightarrow> bind_run (GetNextDword d) (\<lambda>(lo, d1).
             Inr (str_register ofs region ofs_reg (two_dwords (first_dword AND 0xF) lo), d1))
         | MemImmReg \<Rightarrow> bind_run (GetNextDword d) (\<lambda>(lo, d1).
             Inr (str_register ofs region ofs_reg (two_dwords (first_dword AND 0xF) lo), d1))
         | OtherOffset n \<Rightarrow> Inr (str_register NoOffset MainNso ofs_reg 0, d))"

definition decode_BeginRegisterConditional :: "u32 \<Rightarrow> dec \<Rightarrow> (CheatVmOpcode \<times> dec) run" where
  "decode_BeginRegisterConditional first_dword d =
     (let comp = to_ValueType (nibble 8 first_dword);
          begin_reg_cond = BeginRegisterConditionalOpcode (nibble 20 first_dword)
            (to_ConditionalComparisonType (nibble 16 first_dword)) (nibble 12 first_dword) comp;
          region = to_MemoryAccessType (nibble 4 first_dword); reg = nibble 4 first_dword
      in case comp of
           StaticValue \<Rightarrow> bind_run (GetNextVmInt (nibble 20 first_dword) d) (\<lambda>(v, d1).
             Inr (begin_reg_cond MainNso 0 0 0 0 v, d1))
         | OtherRegister \<Rightarrow> Inr (begin_reg_cond MainNso 0 reg 0 0 0, d)
         | MemoryRelAddr \<Rightarrow> bind_run (GetNextDword d) (\<lambda>(lo, d1).
             Inr (begin_reg_cond region 0 0 0 (two_dwords (first_dword AND 0xF) lo) 0, d1))
         | MemoryOfsReg \<Rightarrow> Inr (begin_reg_cond region 0 0 (first_dword AND 0xF) 0 0, d)
         | RegisterRelAddr \<Rightarrow> bind_run (GetNextDword d) (\<lambda>(lo, d1).
             Inr (begin_reg_cond MainNso reg 0 0 (two_dwords (first_dword AND 0xF) lo) 0, d1))
         | RegisterOfsReg \<Rightarrow> Inr (begin_reg_cond MainNso reg 0 (first_dword AND 0xF) 0 0, d)
         | OtherValueType n \<Rightarrow> Inr (begin_reg_cond MainNso 0 0 0 0 0, d))"

definition decode_SaveRestoreRegister :: "u32 \<Rightarrow> dec \<Rightarrow> (CheatVmOpcode \<times> dec) run" where
  "decode_SaveRestoreRegister first_dword d =
     Inr (SaveRestoreRegisterOpcode (nibble 16 first_dword) (nibble 8 first_dword)
       (to_SaveRestoreRegisterOpType (nibble 4 first_dword)), d)"

definition decode_SaveRestoreRegisterMask :: "u32 \<Rightarrow> dec \<Rightarrow> (CheatVmOpcode \<times> dec) run" where
  "decode_SaveRestoreRegisterMask first_dword d =
     Inr (SaveRestoreRegisterMaskOpcode (to_SaveRestoreRegisterOpType (nibble 20 first_dword))
       (map (\<lambda>i. first_dword AND push_bit i 1 \<noteq> 0) [0..<NumRegisters]), d)"

definition decode_ReadWriteStaticRegister :: "u32 \<Rightarrow> dec \<Rightarrow> (CheatVmOpcode \<times> dec) run" where
  "decode_ReadWriteStaticRegister first_dword d =
     Inr (ReadWriteStaticRegisterOpcode (drop_bit 4 first_dword AND 0xFF) (first_dword AND 0xF), d)"

definition decode_DebugLog :: "u32 \<Rightarrow> dec \<Rightarrow> (CheatVmOpcode \<times> dec) run" where
  "decode_DebugLog first_dword d =
     (let vt = to_ValueType (nibble 8 first_dword);
          debug_log = DebugLogOpcode (nibble 16 first_dword) (nibble 12 first_dword) vt;
          region = to_MemoryAccessType (nibble 4 first_dword); reg = nibble 4 first_dword
      in case vt of
           RegisterValue \<Rightarrow> Inr (debug_log MainNso 0 reg 0 0, d)
         | MemoryRelAddr \<Rightarrow> bind_run (GetNextDword d) (\<lambda>(lo, d1).
             Inr (debug_log region 0 0 0 (two_dwords (first_dword AND 0xF) lo), d1))
         | MemoryOfsReg \<Rightarrow> Inr (debug_log region 0 0 (first_dword AND 0xF) 0, d)
         | RegisterRelAddr \<Rightarrow> bind_run (GetNextDword d) (\<lambda>(lo, d1).
             Inr (debug_log MainNso reg 0 0 (two_dwords (first_dword AND 0xF) lo), d1))
         | RegisterOfsReg \<Rightarrow> Inr (debug_log MainNso reg 0 (first_dword AND 0xF) 0, d)
         | FifthType \<Rightarrow> Inr (debug_log MainNso 0 0 0 0, d)
         | OtherValueType n \<Rightarrow> Inr (debug_log MainNso 0 0 0 0, d))"

definition decode_operands :: "CheatVmOpcodeType \<Rightarrow> u32 \<Rightarrow> dec \<Rightarrow> (CheatVmOpcode \<times> dec) run" where
  "decode_operands opcode_type first_dword d =
     (case opcode_type of
        StoreStatic \<Rightarrow> decode_StoreStatic first_dword d
      | BeginConditionalBlock \<Rightarrow> decode_BeginConditional first_dword d
      | EndConditionalBlock \<Rightarrow> decode_EndConditional first_dword d
      | ControlLoop \<Rightarrow> decode_ControlLoop first_dword d
      | LoadRegisterStatic \<Rightarrow> decode_LoadRegisterStatic first_dword d
      | LoadRegisterMemory \<Rightarrow> decode_LoadRegisterMemory first_dword d
      | StoreStaticToAddress \<Rightarrow> decode_StoreStaticToAddress first_dword d
      | PerformArithmeticStatic \<Rightarrow> decode_PerformArithmeticStatic first_dword d
      | BeginKeypressConditionalBlock \<Rightarrow> decode_BeginKeypressConditional first_dword d
      | PerformArithmeticRegister \<Rightarrow> decode_PerformArithmeticRegister first_dword d
      | StoreRegisterToAddress \<Rightarrow> decode_StoreRegisterToAddress first_dword d
      | BeginRegisterConditionalBlock \<Rightarrow> decode_BeginRegisterConditional first_dword d
      | SaveRestoreRegister \<Rightarrow> decode_SaveRestoreRegister first_dword d
      | SaveRestoreRegisterMask \<Rightarrow> decode_SaveRestoreRegisterMask first_dword d
      | ReadWriteStaticRegister \<Rightarrow> decode_ReadWriteStaticRegister first_dword d
      | PauseProcess \<Rightarrow> Inr (PauseProcessOpcode, d)
      | ResumeProcess \<Rightarrow> Inr (ResumeProcessOpcode, d)
      | DebugLog \<Rightarrow> decode_DebugLog first_dword d
      | OtherOpcodeType n \<Rightarrow> Inr (UnrecognizedInstruction (OtherOpcodeType n), (False, snd d)))"

definition begins_conditional_block :: "CheatVmOpcodeType \<Rightarrow> bool" where
  "begins_conditional_block t \<longleftrightarrow>
     t = BeginConditionalBlock \<or> t = BeginKeypressConditionalBlock \<or> t = BeginRegisterConditionalBlock"

text \<open>The decoded opcode with its \<^verbatim>\<open>begin_conditional_block\<close> flag, or \<open>None\<close> when decoding failed, now or before.\<close>

definition DecodeNextOpcode :: "DmntCheatVm \<Rightarrow> ((bool \<times> CheatVmOpcode) option \<times> DmntCheatVm) run" where
  "DecodeNextOpcode vm =
     bind_run (GetNextDword (decode_success vm, vm)) (\<lambda>(first_dword, (valid, vm1)).
     if \<not> valid then Inr (None, vm1\<lparr>decode_success := False\<rparr>)
     else
       let opcode_type = to_opcode_type (opcode_number first_dword)
       in bind_run (decode_operands opcode_type first_dword (valid, vm1)) (\<lambda>(opcode, (valid1, vm2)).
          if valid1 then Inr (Some (begins_conditional_block opcode_type, opcode), vm2)
          else Inr (None, vm2\<lparr>decode_success := False\<rparr>)))"

text \<open>The body of the loop in \<^verbatim>\<open>SkipConditionalBlock\<close>: whether it breaks, and the depth it leaves.\<close>

definition skip_round :: "nat \<Rightarrow> bool \<Rightarrow> bool \<times> CheatVmOpcode \<Rightarrow> nat \<Rightarrow> bool \<times> nat" where
  "skip_round desired_depth is_if decoded depth =
     (case decoded of (begin_conditional_block, opcode) \<Rightarrow>
        if begin_conditional_block then (False, depth + 1)
        else case opcode of
          EndConditionalOpcode els \<Rightarrow>
            if \<not> els then (False, depth - 1)
            else if is_if \<and> depth - 1 = desired_depth then (True, depth)
            else (False, depth)
        | _ \<Rightarrow> (False, depth))"

text \<open>The loop itself; each round decodes an opcode, so the opcode count bounds the rounds.\<close>

fun skip_loop :: "nat \<Rightarrow> nat \<Rightarrow> bool \<Rightarrow> DmntCheatVm \<Rightarrow> DmntCheatVm run" where
  "skip_loop 0 desired_depth is_if vm = Inl OutOfFuel"
| "skip_loop (Suc fuel) desired_depth is_if vm =
     (if condition_depth vm > desired_depth then
        bind_run (DecodeNextOpcode vm) (\<lambda>(decoded, vm1).
        case decoded of
          None \<Rightarrow> Inr vm1
        | Some skip_opcode \<Rightarrow>
            (case skip_round desired_depth is_if skip_opcode (condition_depth vm1) of (stop, depth) \<Rightarrow>
               if stop then Inr vm1
               else skip_loop fuel desired_depth is_if (vm1\<lparr>condition_depth := depth\<rparr>)))
      else Inr vm)"

definition SkipConditionalBlock :: "bool \<Rightarrow> DmntCheatVm \<Rightarrow> DmntCheatVm run" where
  "SkipConditionalBlock is_if vm =
     (if condition_depth vm > 0
      then skip_loop (num_opcodes vm + 2) (condition_depth vm - 1) is_if vm
      else Inl UnreachableCode)"

section \<open>The decoder is total\<close>

definition dec_ok :: "dec \<Rightarrow> bool" where
  "dec_ok d \<longleftrightarrow> num_opcodes (snd d) \<le> length (cheat_program (snd d)) \<and>
     instruction_ptr (snd d) \<le> num_opcodes (snd d)"

definition advanced :: "dec \<Rightarrow> dec \<Rightarrow> bool" where
  "advanced d d' \<longleftrightarrow> (fst d' \<longrightarrow> fst d) \<and> instruction_ptr (snd d) \<le> instruction_ptr (snd d') \<and>
     instruction_ptr (snd d') \<le> num_opcodes (snd d) \<and>
     snd d' = (snd d)\<lparr>instruction_ptr := instruction_ptr (snd d')\<rparr>"

definition fetches :: "dec \<Rightarrow> ('a \<Rightarrow> bool) \<Rightarrow> ('a \<times> dec) run \<Rightarrow> bool" where
  "fetches d P r \<longleftrightarrow> (\<exists>x d'. r = Inr (x, d') \<and> advanced d d' \<and> P x)"

lemma advanced_refl: "dec_ok d \<Longrightarrow> advanced d d"
  by (simp add: advanced_def dec_ok_def)

lemma record_ip_trans:
  "b = a\<lparr>instruction_ptr := instruction_ptr b\<rparr> \<Longrightarrow> c = b\<lparr>instruction_ptr := instruction_ptr c\<rparr> \<Longrightarrow>
   c = a\<lparr>instruction_ptr := instruction_ptr c\<rparr>"
  by (cases a, cases b, cases c) simp

lemma advanced_num: "advanced d d' \<Longrightarrow> num_opcodes (snd d') = num_opcodes (snd d)"
  by (cases "snd d", cases "snd d'") (simp add: advanced_def)

lemma advanced_program: "advanced d d' \<Longrightarrow> cheat_program (snd d') = cheat_program (snd d)"
  by (cases "snd d", cases "snd d'") (simp add: advanced_def)

lemma advanced_trans: "advanced d1 d2 \<Longrightarrow> advanced d2 d3 \<Longrightarrow> advanced d1 d3"
  using advanced_num [of d1 d2] record_ip_trans [of "snd d2" "snd d1" "snd d3"]
  unfolding advanced_def by auto

lemma dec_ok_advanced: "dec_ok d \<Longrightarrow> advanced d d' \<Longrightarrow> dec_ok d'"
  using advanced_num [of d d'] advanced_program [of d d'] by (simp add: dec_ok_def advanced_def)

lemma fetches_Inr: "dec_ok d \<Longrightarrow> P x \<Longrightarrow> fetches d P (Inr (x, d))"
  by (simp add: fetches_def advanced_refl)

lemma fetches_bind:
  assumes "dec_ok d" "fetches d Q r" "\<And>x d'. Q x \<Longrightarrow> dec_ok d' \<Longrightarrow> fetches d' P (f (x, d'))"
  shows "fetches d P (bind_run r f)"
proof -
  from assms(2) obtain x d' where r: "r = Inr (x, d')" "advanced d d'" "Q x" by (auto simp: fetches_def)
  with assms(3) [of x d'] dec_ok_advanced [OF assms(1)] show ?thesis
    unfolding fetches_def by (auto intro: advanced_trans)
qed

lemma GetNextDword_fetches: "dec_ok d \<Longrightarrow> fetches d (\<lambda>x. True) (GetNextDword d)"
  by (cases d) (auto simp: fetches_def GetNextDword_def dec_ok_def advanced_def)

lemma GetNextVmInt_fetches: "dec_ok d \<Longrightarrow> fetches d (\<lambda>x. True) (GetNextVmInt width d)"
  unfolding GetNextVmInt_def
  by (rule fetches_bind [OF _ GetNextDword_fetches])
    (auto intro!: fetches_Inr fetches_bind [OF _ GetNextDword_fetches])

lemma unat_and_mask_less: "unat (w AND mask n :: u32) < 2 ^ n"
  by (simp add: take_bit_eq_mask [symmetric] unsigned_take_bit_eq)

lemma low_nibble_less [simp]: "unat (w AND 0xF :: u32) < 16"
  using unat_and_mask_less [of w 4] by (simp add: mask_eq_exp_minus_1)

lemma low_byte_less [simp]: "unat (w AND 0xFF :: u32) < 256"
  using unat_and_mask_less [of w 8] by (simp add: mask_eq_exp_minus_1)

lemma nibble_less [simp]: "unat (nibble k w) < 16"
  by (simp add: nibble_def)

text \<open>What the interpreter relies on: every register index names a register.\<close>

fun opcode_ok :: "CheatVmOpcode \<Rightarrow> bool" where
  "opcode_ok (StoreStaticOpcode w m r a v) = (unat r < 16)"
| "opcode_ok (ControlLoopOpcode s r n) = (unat r < 16)"
| "opcode_ok (LoadRegisterStaticOpcode r v) = (unat r < 16)"
| "opcode_ok (LoadRegisterMemoryOpcode w m r l a) = (unat r < 16)"
| "opcode_ok (StoreStaticToAddressOpcode w r inc ao ofs v) = (unat r < 16 \<and> unat ofs < 16)"
| "opcode_ok (PerformArithmeticStaticOpcode w r m v) = (unat r < 16)"
| "opcode_ok (PerformArithmeticRegisterOpcode w m d s1 s2 imm v) =
     (unat d < 16 \<and> unat s1 < 16 \<and> unat s2 < 16)"
| "opcode_ok (StoreRegisterToAddressOpcode w s a inc ot m ofs rel) =
     (unat s < 16 \<and> unat a < 16 \<and> unat ofs < 16)"
| "opcode_ok (BeginRegisterConditionalOpcode w c vr ct m a oth ofs rel v) =
     (unat vr < 16 \<and> unat a < 16 \<and> unat oth < 16 \<and> unat ofs < 16)"
| "opcode_ok (SaveRestoreRegisterOpcode d s t) = (unat d < 16 \<and> unat s < 16)"
| "opcode_ok (SaveRestoreRegisterMaskOpcode t ms) = (length ms = 16)"
| "opcode_ok (ReadWriteStaticRegisterOpcode st i) = (unat st < 256 \<and> unat i < 16)"
| "opcode_ok (DebugLogOpcode w l vt m a vr ofs rel) = (unat a < 16 \<and> unat vr < 16 \<and> unat ofs < 16)"
| "opcode_ok _ = True"

fun is_begin :: "CheatVmOpcode \<Rightarrow> bool" where
  "is_begin (BeginConditionalOpcode w m c a v) = True"
| "is_begin (BeginKeypressConditionalOpcode k) = True"
| "is_begin (BeginRegisterConditionalOpcode w c vr ct m a oth ofs rel v) = True"
| "is_begin _ = False"

lemmas decoder_defs = decode_StoreStatic_def decode_BeginConditional_def decode_EndConditional_def
  decode_ControlLoop_def decode_LoadRegisterStatic_def decode_LoadRegisterMemory_def
  decode_StoreStaticToAddress_def decode_PerformArithmeticStatic_def decode_BeginKeypressConditional_def
  decode_PerformArithmeticRegister_def decode_StoreRegisterToAddress_def
  decode_BeginRegisterConditional_def decode_SaveRestoreRegister_def decode_SaveRestoreRegisterMask_def
  decode_ReadWriteStaticRegister_def decode_DebugLog_def

lemma fetches_dword:
  "dec_ok d \<Longrightarrow> (\<And>x d'. dec_ok d' \<Longrightarrow> fetches d' P (f (x, d'))) \<Longrightarrow>
   fetches d P (bind_run (GetNextDword d) f)"
  by (rule fetches_bind [OF _ GetNextDword_fetches])

lemma fetches_vmint:
  "dec_ok d \<Longrightarrow> (\<And>x d'. dec_ok d' \<Longrightarrow> fetches d' P (f (x, d'))) \<Longrightarrow>
   fetches d P (bind_run (GetNextVmInt width d) f)"
  by (rule fetches_bind [OF _ GetNextVmInt_fetches])

lemma fetches_invalid: "dec_ok d \<Longrightarrow> P x \<Longrightarrow> fetches d P (Inr (x, (False, snd d)))"
  by (simp add: fetches_def advanced_def dec_ok_def)

lemma decode_operands_fetches:
  assumes "dec_ok d"
  shows "fetches d (\<lambda>op. opcode_ok op \<and> is_begin op = begins_conditional_block t) (decode_operands t w d)"
  using assms
  by (cases t)
    (auto simp: decode_operands_def decoder_defs begins_conditional_block_def NumRegisters_def Let_def
      split: StoreRegisterOffsetType.split ValueType.split
      intro!: fetches_dword fetches_vmint fetches_Inr fetches_invalid)

section \<open>One decoded opcode\<close>

definition moved :: "DmntCheatVm \<Rightarrow> DmntCheatVm \<Rightarrow> bool" where
  "moved vm vm' \<longleftrightarrow> instruction_ptr vm \<le> instruction_ptr vm' \<and> instruction_ptr vm' \<le> num_opcodes vm \<and>
     vm' = vm\<lparr>instruction_ptr := instruction_ptr vm', condition_depth := condition_depth vm',
              decode_success := decode_success vm'\<rparr>"

text \<open>Between an opcode and the next, the decoder and the skipping of blocks move only the pointer, the depth
  and the success flag, and the pointer only forward.\<close>

lemma moved_refl: "instruction_ptr vm \<le> num_opcodes vm \<Longrightarrow> moved vm vm"
  by (simp add: moved_def)

lemma moved_num: "moved vm vm' \<Longrightarrow> num_opcodes vm' = num_opcodes vm \<and> cheat_program vm' = cheat_program vm"
  by (cases vm, cases vm') (simp add: moved_def)

lemma moved_trans: "moved a b \<Longrightarrow> moved b c \<Longrightarrow> moved a c"
  by (cases a, cases b, cases c) (auto simp: moved_def)

definition code_ok :: "DmntCheatVm \<Rightarrow> bool" where
  "code_ok vm \<longleftrightarrow> num_opcodes vm \<le> length (cheat_program vm) \<and> instruction_ptr vm \<le> num_opcodes vm"

lemma code_ok_moved: "code_ok vm \<Longrightarrow> moved vm vm' \<Longrightarrow> code_ok vm'"
  using moved_num [of vm vm'] by (simp add: code_ok_def moved_def)

lemma DecodeNextOpcode_spec:
  assumes "code_ok vm"
  shows "\<exists>r vm'. DecodeNextOpcode vm = Inr (r, vm') \<and> moved vm vm' \<and>
    condition_depth vm' = condition_depth vm \<and>
    (case r of None \<Rightarrow> \<not> decode_success vm'
     | Some (b, op) \<Rightarrow> decode_success vm \<and> decode_success vm' \<and>
         instruction_ptr vm < instruction_ptr vm' \<and> opcode_ok op \<and> b = is_begin op)"
proof (cases "instruction_ptr vm < num_opcodes vm")
  case False
  then show ?thesis using assms by (auto simp: DecodeNextOpcode_def GetNextDword_def code_ok_def moved_def)
next
  case True
  define w where "w = cheat_program vm ! instruction_ptr vm"
  define vm1 where "vm1 = vm\<lparr>instruction_ptr := instruction_ptr vm + 1\<rparr>"
  define t where "t = to_opcode_type (opcode_number w)"
  have get: "GetNextDword (decode_success vm, vm) = Inr (w, (decode_success vm, vm1))"
    using True assms by (simp add: GetNextDword_def code_ok_def w_def vm1_def)
  have "dec_ok (True, vm1)" using True assms by (simp add: dec_ok_def code_ok_def vm1_def)
  from decode_operands_fetches [OF this, of t w] obtain op v vm2
    where ops: "decode_operands t w (True, vm1) = Inr (op, (v, vm2))" "advanced (True, vm1) (v, vm2)"
      "opcode_ok op" "is_begin op = begins_conditional_block t"
    by (auto simp: fetches_def)
  have m: "moved vm (vm2\<lparr>decode_success := b\<rparr>)" "moved vm vm2" "condition_depth vm2 = condition_depth vm"
    "instruction_ptr vm < instruction_ptr vm2" "decode_success vm2 = decode_success vm" for b
    using ops(2) by (cases vm, cases vm2, simp add: advanced_def moved_def vm1_def)+
  show ?thesis
  proof (cases "decode_success vm")
    case True
    then show ?thesis
      using ops m get
      by (cases v) (simp_all add: DecodeNextOpcode_def t_def Let_def)
  next
    case False
    have "moved vm (vm1\<lparr>decode_success := False\<rparr>)"
      using \<open>instruction_ptr vm < num_opcodes vm\<close> by (simp add: moved_def vm1_def)
    with False get show ?thesis by (simp add: DecodeNextOpcode_def vm1_def)
  qed
qed

section \<open>Skipping a conditional block\<close>

lemma moved_depth: "moved vm vm1 \<Longrightarrow> moved vm (vm1\<lparr>condition_depth := c\<rparr>)"
  by (cases vm, cases vm1) (simp add: moved_def)

lemma skip_loop_total:
  assumes "code_ok vm" "num_opcodes vm - instruction_ptr vm + 1 < fuel"
  shows "\<exists>vm'. skip_loop fuel desired is_if vm = Inr vm' \<and> moved vm vm'"
  using assms
proof (induction fuel arbitrary: vm)
  case (Suc fuel)
  show ?case
  proof (cases "condition_depth vm > desired")
    case False
    then show ?thesis using Suc.prems by (simp add: moved_refl code_ok_def)
  next
    case True
    from DecodeNextOpcode_spec [OF Suc.prems(1)] obtain r vm1
      where d: "DecodeNextOpcode vm = Inr (r, vm1)" "moved vm vm1"
        "r \<noteq> None \<Longrightarrow> instruction_ptr vm < instruction_ptr vm1"
      by (auto split: option.splits)
    have "\<exists>vm'. skip_loop fuel desired is_if (vm1\<lparr>condition_depth := c\<rparr>) = Inr vm' \<and> moved vm vm'"
      if "r \<noteq> None" for c
    proof -
      have m: "moved vm (vm1\<lparr>condition_depth := c\<rparr>)" by (rule moved_depth [OF d(2)])
      have ip: "instruction_ptr vm1 \<le> num_opcodes vm" using d(2) by (simp add: moved_def)
      have "num_opcodes vm1 - instruction_ptr vm1 + 1 < fuel"
        using Suc.prems(2) d(3) [OF that] conjunct1 [OF moved_num [OF d(2)]] ip by linarith
      then show ?thesis
        using Suc.IH [of "vm1\<lparr>condition_depth := c\<rparr>"] code_ok_moved [OF Suc.prems(1) m] moved_trans [OF m]
        by auto
    qed
    then show ?thesis using True d(1,2) by (auto split: option.split prod.split)
  qed
qed simp

lemma SkipConditionalBlock_total:
  assumes "code_ok vm"
  shows "if 0 < condition_depth vm then \<exists>vm'. SkipConditionalBlock is_if vm = Inr vm' \<and> moved vm vm'
    else SkipConditionalBlock is_if vm = Inl UnreachableCode"
  using skip_loop_total [OF assms, of "num_opcodes vm + 2"]
  by (simp add: SkipConditionalBlock_def del: skip_loop.simps)

text \<open>Decoding looks only at the program, the pointer and the success flag: it commutes with every change of the
  other fields.\<close>

definition transparent :: "(DmntCheatVm \<Rightarrow> DmntCheatVm) \<Rightarrow> bool" where
  "transparent g \<longleftrightarrow> (\<forall>vm. num_opcodes (g vm) = num_opcodes vm \<and> cheat_program (g vm) = cheat_program vm \<and>
     instruction_ptr (g vm) = instruction_ptr vm \<and> decode_success (g vm) = decode_success vm \<and>
     (\<forall>n. g (vm\<lparr>instruction_ptr := n\<rparr>) = (g vm)\<lparr>instruction_ptr := n\<rparr>) \<and>
     (\<forall>b. g (vm\<lparr>decode_success := b\<rparr>) = (g vm)\<lparr>decode_success := b\<rparr>))"

lemma transparentD:
  assumes "transparent g"
  shows "num_opcodes (g vm) = num_opcodes vm" "cheat_program (g vm) = cheat_program vm"
    "instruction_ptr (g vm) = instruction_ptr vm" "decode_success (g vm) = decode_success vm"
    "g (vm\<lparr>instruction_ptr := n\<rparr>) = (g vm)\<lparr>instruction_ptr := n\<rparr>"
    "g (vm\<lparr>decode_success := b\<rparr>) = (g vm)\<lparr>decode_success := b\<rparr>"
  using assms by (simp_all add: transparent_def)

definition lift_dec :: "(DmntCheatVm \<Rightarrow> DmntCheatVm) \<Rightarrow> ('a \<times> dec) run \<Rightarrow> ('a \<times> dec) run" where
  "lift_dec g r = bind_run r (\<lambda>(x, (v, vm)). Inr (x, (v, g vm)))"

lemma GetNextDword_transparent: "transparent g \<Longrightarrow> GetNextDword (v, g vm) = lift_dec g (GetNextDword (v, vm))"
  by (simp add: GetNextDword_def lift_dec_def bind_run_def transparentD split: sum.split)

lemma GetNextVmInt_transparent:
  "transparent g \<Longrightarrow> GetNextVmInt width (v, g vm) = lift_dec g (GetNextVmInt width (v, vm))"
  by (simp add: GetNextVmInt_def GetNextDword_transparent lift_dec_def bind_run_def split: sum.split)

lemma decode_operands_transparent:
  "transparent g \<Longrightarrow> decode_operands t w (v, g vm) = lift_dec g (decode_operands t w (v, vm))"
  by (cases t)
    (simp_all add: decode_operands_def decoder_defs GetNextDword_transparent GetNextVmInt_transparent lift_dec_def
      bind_run_def Let_def split: StoreRegisterOffsetType.split ValueType.split sum.split)

lemma DecodeNextOpcode_transparent:
  assumes "transparent g"
  shows "DecodeNextOpcode (g vm) = bind_run (DecodeNextOpcode vm) (\<lambda>(x, vm1). Inr (x, g vm1))"
proof (cases "GetNextDword (decode_success vm, vm)")
  case (Inr r)
  obtain w v vm1 where "r = (w, v, vm1)" by (cases r)
  with Inr assms show ?thesis
    by (cases "decode_operands (to_opcode_type (opcode_number w)) w (v, vm1)")
      (auto simp: DecodeNextOpcode_def GetNextDword_transparent decode_operands_transparent lift_dec_def
        transparentD Let_def)
qed (simp add: DecodeNextOpcode_def GetNextDword_transparent [OF assms] transparentD [OF assms] lift_dec_def)

lemma transparent_depth: "transparent (\<lambda>vm. vm\<lparr>condition_depth := c\<rparr>)"
  by (simp add: transparent_def)

text \<open>The opcodes found from a pointer on, and the pointer behind them.\<close>

fun code_at :: "DmntCheatVm \<Rightarrow> nat \<Rightarrow> CheatVmOpcode list \<Rightarrow> nat \<Rightarrow> bool" where
  "code_at vm ip [] ip' = (ip' = ip)"
| "code_at vm ip (op # ops) ip' =
     (case DecodeNextOpcode (vm\<lparr>instruction_ptr := ip, decode_success := True\<rparr>) of
        Inr (Some (b, op'), vm1) \<Rightarrow> op' = op \<and> code_at vm (instruction_ptr vm1) ops ip'
      | _ \<Rightarrow> False)"

inductive balanced :: "CheatVmOpcode list \<Rightarrow> bool" where
  balanced_Nil: "balanced []"
| balanced_plain: "\<not> is_begin op \<Longrightarrow> (\<forall>e. op \<noteq> EndConditionalOpcode e) \<Longrightarrow> balanced ops \<Longrightarrow> balanced (op # ops)"
| balanced_if: "is_begin op \<Longrightarrow> balanced body \<Longrightarrow> balanced ops \<Longrightarrow>
    balanced (op # body @ EndConditionalOpcode False # ops)"
| balanced_if_else: "is_begin op \<Longrightarrow> balanced body1 \<Longrightarrow> balanced body2 \<Longrightarrow> balanced ops \<Longrightarrow>
    balanced (op # body1 @ EndConditionalOpcode True # body2 @ EndConditionalOpcode False # ops)"

lemma code_at_append:
  "code_at vm ip (xs @ ys) ip'' \<longleftrightarrow> (\<exists>ip'. code_at vm ip xs ip' \<and> code_at vm ip' ys ip'')"
  by (induction xs arbitrary: ip) (auto split: sum.splits option.splits prod.splits)

text \<open>The code of a machine does not depend on its other fields.\<close>

lemma code_at_same_program:
  assumes "num_opcodes vm' = num_opcodes vm" "cheat_program vm' = cheat_program vm"
  shows "code_at vm' ip ops ip' = code_at vm ip ops ip'"
proof (induction ops arbitrary: ip)
  case (Cons op ops)
  define g where "g v = vm'\<lparr>num_opcodes := num_opcodes v, cheat_program := cheat_program v,
    instruction_ptr := instruction_ptr v, decode_success := decode_success v\<rparr>" for v :: DmntCheatVm
  let ?u = "vm\<lparr>instruction_ptr := ip, decode_success := True\<rparr>"
  have tr: "transparent g" by (simp add: transparent_def g_def)
  have "vm'\<lparr>instruction_ptr := ip, decode_success := True\<rparr> = g ?u"
    using assms by (cases vm, cases vm') (simp add: g_def)
  then have dec: "DecodeNextOpcode (vm'\<lparr>instruction_ptr := ip, decode_success := True\<rparr>) =
      bind_run (DecodeNextOpcode ?u) (\<lambda>(x, v). Inr (x, g v))"
    by (simp only: DecodeNextOpcode_transparent [OF tr])
  show ?case
  proof (cases "DecodeNextOpcode ?u")
    case (Inr r)
    obtain x v where "r = (x, v)" by (cases r)
    with Inr dec Cons transparentD(3) [OF tr, of v] show ?thesis by (cases x) auto
  qed (use dec in simp)
qed simp

text \<open>The machine moved to a pointer and a depth.\<close>

definition vm_at :: "DmntCheatVm \<Rightarrow> nat \<Rightarrow> nat \<Rightarrow> DmntCheatVm" where
  "vm_at vm ip c = vm\<lparr>instruction_ptr := ip, condition_depth := c, decode_success := True\<rparr>"

lemma decode_at:
  assumes "code_at vm ip [op] ip'" "code_ok vm" "ip \<le> num_opcodes vm"
  shows "DecodeNextOpcode (vm_at vm ip c) = Inr (Some (is_begin op, op), vm_at vm ip' c)"
    and "ip < ip'" and "ip' \<le> num_opcodes vm"
proof -
  let ?vm = "vm\<lparr>instruction_ptr := ip, decode_success := True\<rparr>"
  have "code_ok ?vm" using assms(2,3) by (simp add: code_ok_def)
  from DecodeNextOpcode_spec [OF this] obtain r vm1
    where spec: "DecodeNextOpcode ?vm = Inr (r, vm1)" "moved ?vm vm1"
      "case r of None \<Rightarrow> \<not> decode_success vm1
         | Some (b, op) \<Rightarrow> decode_success ?vm \<and> decode_success vm1 \<and>
             instruction_ptr ?vm < instruction_ptr vm1 \<and> opcode_ok op \<and> b = is_begin op" by blast
  obtain b where r: "r = Some (b, op)" "ip' = instruction_ptr vm1"
    using assms(1) spec(1) by (cases r) auto
  with spec have d: "DecodeNextOpcode ?vm = Inr (Some (is_begin op, op), vm1)" "moved ?vm vm1" "decode_success vm1"
      "ip < instruction_ptr vm1" "ip' = instruction_ptr vm1" by simp_all
  then show "ip < ip'" "ip' \<le> num_opcodes vm" by (auto simp: moved_def)
  have "vm_at vm ip c = ?vm\<lparr>condition_depth := c\<rparr>" by (cases vm) (simp add: vm_at_def)
  moreover have "vm1\<lparr>condition_depth := c\<rparr> = vm_at vm ip' c"
    using d(2,3,5) by (cases vm, cases vm1) (simp add: moved_def vm_at_def)
  ultimately show "DecodeNextOpcode (vm_at vm ip c) = Inr (Some (is_begin op, op), vm_at vm ip' c)"
    using d(1) by (simp add: DecodeNextOpcode_transparent [OF transparent_depth])
qed

lemma code_at_bound: "code_at vm ip ops ip' \<Longrightarrow> code_ok vm \<Longrightarrow> ip \<le> num_opcodes vm \<Longrightarrow> ip' \<le> num_opcodes vm"
proof (induction ops arbitrary: ip)
  case (Cons op ops)
  from Cons.prems(1) code_at_append [of vm ip "[op]" ops ip'] obtain ip1
    where "code_at vm ip [op] ip1" "code_at vm ip1 ops ip'" by auto
  with Cons.IH Cons.prems decode_at(3) show ?case by blast
qed simp

lemma skip_loop_step:
  assumes "code_at vm ip [op] ip'" "code_ok vm" "ip \<le> num_opcodes vm" "desired < c"
    "skip_round desired is_if (is_begin op, op) c = (stop, c')"
  shows "skip_loop (Suc fuel) desired is_if (vm_at vm ip c) =
    (if stop then Inr (vm_at vm ip' c) else skip_loop fuel desired is_if (vm_at vm ip' c'))"
proof -
  have "(vm_at vm ip' c)\<lparr>condition_depth := c'\<rparr> = vm_at vm ip' c'" by (simp add: vm_at_def)
  moreover have "condition_depth (vm_at vm ip c) = c" for ip by (simp add: vm_at_def)
  ultimately show ?thesis using decode_at(1) [OF assms(1-3), of c] assms(4,5) by simp
qed

text \<open>Skipping passes over balanced code, whatever blocks it holds, and comes back to the depth it had.\<close>

lemma skip_over_balanced:
  assumes "balanced ops" "code_at vm ip ops ip'" "code_ok vm" "ip \<le> num_opcodes vm" "desired < c"
  shows "skip_loop (length ops + fuel) desired is_if (vm_at vm ip c) =
    skip_loop fuel desired is_if (vm_at vm ip' c)"
  using assms
proof (induction ops arbitrary: ip ip' c fuel rule: balanced.induct)
  case (balanced_plain op ops)
  obtain ip1 where at: "code_at vm ip [op] ip1" "code_at vm ip1 ops ip'"
    using balanced_plain.prems(1) code_at_append [of vm ip "[op]" ops ip'] by auto
  have "skip_round desired is_if (is_begin op, op) c = (False, c)"
    using balanced_plain.hyps(1,2) by (cases op) (auto simp: skip_round_def)
  from skip_loop_step [OF at(1) balanced_plain.prems(2-4) this, of "length ops + fuel"]
    balanced_plain.IH [OF at(2) balanced_plain.prems(2) _ balanced_plain.prems(4)]
    decode_at(3) [OF at(1) balanced_plain.prems(2,3)]
  show ?case by simp
next
  case (balanced_if op body ops)
  obtain ip1 ip2 ip3 where at: "code_at vm ip [op] ip1" "code_at vm ip1 body ip2"
    "code_at vm ip2 [EndConditionalOpcode False] ip3" "code_at vm ip3 ops ip'"
    using balanced_if.prems(1) code_at_append [of vm ip "[op]" "body @ EndConditionalOpcode False # ops" ip']
      code_at_append [of vm _ "[EndConditionalOpcode False]" ops ip'] code_at_append [of vm _ body]
    by (auto simp del: code_at.simps)
  note ok = balanced_if.prems(2)
  have b: "ip1 \<le> num_opcodes vm" "ip2 \<le> num_opcodes vm" "ip3 \<le> num_opcodes vm"
    using code_at_bound [OF at(1) ok balanced_if.prems(3)] code_at_bound [OF at(2) ok]
      code_at_bound [OF at(3) ok] by auto
  have r: "skip_round desired is_if (is_begin op, op) c = (False, c + 1)"
    "skip_round desired is_if (is_begin (EndConditionalOpcode False), EndConditionalOpcode False) (c + 1) = (False, c)"
    using balanced_if.hyps(1) by (simp_all add: skip_round_def)
  show ?case
    using skip_loop_step [OF at(1) ok balanced_if.prems(3,4) r(1), of "length body + Suc (length ops + fuel)"]
      balanced_if.IH(1) [OF at(2) ok b(1), of "c + 1" "Suc (length ops + fuel)"]
      skip_loop_step [OF at(3) ok b(2) _ r(2), of "length ops + fuel"]
      balanced_if.IH(2) [OF at(4) ok b(3) balanced_if.prems(4), of fuel] balanced_if.prems(4)
    by (simp add: add.assoc del: skip_loop.simps)
next
  case (balanced_if_else op body1 body2 ops)
  obtain ip1 ip2 ip3 ip4 ip5 where at: "code_at vm ip [op] ip1" "code_at vm ip1 body1 ip2"
    "code_at vm ip2 [EndConditionalOpcode True] ip3" "code_at vm ip3 body2 ip4"
    "code_at vm ip4 [EndConditionalOpcode False] ip5" "code_at vm ip5 ops ip'"
    using balanced_if_else.prems(1)
      code_at_append [of vm ip "[op]" "body1 @ EndConditionalOpcode True # body2 @ EndConditionalOpcode False # ops" ip']
      code_at_append [of vm _ "[EndConditionalOpcode True]" "body2 @ EndConditionalOpcode False # ops" ip']
      code_at_append [of vm _ "[EndConditionalOpcode False]" ops ip']
      code_at_append [of vm _ body1] code_at_append [of vm _ body2]
    by (auto simp del: code_at.simps)
  note ok = balanced_if_else.prems(2)
  have b: "ip1 \<le> num_opcodes vm" "ip2 \<le> num_opcodes vm" "ip3 \<le> num_opcodes vm" "ip4 \<le> num_opcodes vm"
    "ip5 \<le> num_opcodes vm"
    using code_at_bound [OF at(1) ok balanced_if_else.prems(3)] code_at_bound [OF at(2) ok]
      code_at_bound [OF at(3) ok] code_at_bound [OF at(4) ok] code_at_bound [OF at(5) ok] by auto
  have r: "skip_round desired is_if (is_begin op, op) c = (False, c + 1)"
    "skip_round desired is_if (is_begin (EndConditionalOpcode True), EndConditionalOpcode True) (c + 1) = (False, c + 1)"
    "skip_round desired is_if (is_begin (EndConditionalOpcode False), EndConditionalOpcode False) (c + 1) = (False, c)"
    using balanced_if_else.hyps(1) balanced_if_else.prems(4) by (simp_all add: skip_round_def)
  let ?f = "length ops + fuel"
  show ?case
    using skip_loop_step [OF at(1) ok balanced_if_else.prems(3,4) r(1),
        of "length body1 + Suc (length body2 + Suc ?f)"]
      balanced_if_else.IH(1) [OF at(2) ok b(1), of "c + 1" "Suc (length body2 + Suc ?f)"]
      skip_loop_step [OF at(3) ok b(2) _ r(2), of "length body2 + Suc ?f"]
      balanced_if_else.IH(2) [OF at(4) ok b(3), of "c + 1" "Suc ?f"]
      skip_loop_step [OF at(5) ok b(4) _ r(3), of ?f]
      balanced_if_else.IH(3) [OF at(6) ok b(5) balanced_if_else.prems(4), of fuel] balanced_if_else.prems(4)
    by (simp add: add.assoc del: skip_loop.simps)
qed simp

lemma code_at_length: "code_at vm ip ops ip' \<Longrightarrow> code_ok vm \<Longrightarrow> ip \<le> num_opcodes vm \<Longrightarrow> ip + length ops \<le> ip'"
proof (induction ops arbitrary: ip)
  case (Cons op ops)
  from Cons.prems(1) code_at_append [of vm ip "[op]" ops ip'] obtain ip1
    where at: "code_at vm ip [op] ip1" "code_at vm ip1 ops ip'" by auto
  from decode_at(2,3) [OF at(1) Cons.prems(2,3)] Cons.IH [OF at(2) Cons.prems(2)] show ?case by simp
qed simp

lemma SkipConditionalBlock_to:
  assumes "balanced body" "code_ok vm" "ip \<le> num_opcodes vm" "code_at vm ip (body @ [EndConditionalOpcode els]) ip'"
    "els \<Longrightarrow> is_if"
  shows "SkipConditionalBlock is_if (vm_at vm ip (Suc c)) =
    Inr (vm_at vm ip' (if els then Suc c else c))"
proof -
  from assms(4) code_at_append [of vm ip body "[EndConditionalOpcode els]" ip'] obtain ip1
    where at: "code_at vm ip body ip1" "code_at vm ip1 [EndConditionalOpcode els] ip'" by blast
  have len: "length body + 1 \<le> num_opcodes vm"
    using code_at_length [OF assms(4,2,3)] code_at_bound [OF assms(4,2,3)] by simp
  then obtain fuel where fuel: "num_opcodes vm + 2 = length body + Suc (Suc fuel)"
    by (metis add_Suc_right add_2_eq_Suc' le_add_diff_inverse le_Suc_ex add.assoc One_nat_def)
  have b: "ip1 \<le> num_opcodes vm" by (rule code_at_bound [OF at(1) assms(2,3)])
  have round: "skip_round c is_if (is_begin (EndConditionalOpcode els), EndConditionalOpcode els) (Suc c) =
    (els, if els then Suc c else c)" using assms(5) by (simp add: skip_round_def)
  have "SkipConditionalBlock is_if (vm_at vm ip (Suc c)) =
    skip_loop (length body + Suc (Suc fuel)) c is_if (vm_at vm ip (Suc c))"
    by (simp only: SkipConditionalBlock_def fuel [symmetric]) (simp add: vm_at_def del: skip_loop.simps)
  also have "\<dots> = skip_loop (Suc (Suc fuel)) c is_if (vm_at vm ip1 (Suc c))"
    by (rule skip_over_balanced [OF assms(1) at(1) assms(2,3)]) simp
  also have "\<dots> = Inr (vm_at vm ip' (if els then Suc c else c))"
    unfolding skip_loop_step [OF at(2) assms(2) b lessI round] by (simp add: vm_at_def)
  finally show ?thesis .
qed

section \<open>Linear code\<close>

text \<open>The opcodes met when decoding from a pointer on without jumping; the skipping of blocks goes along them.\<close>

fun linear_code :: "nat \<Rightarrow> DmntCheatVm \<Rightarrow> nat \<Rightarrow> CheatVmOpcode list" where
  "linear_code 0 vm ip = []"
| "linear_code (Suc n) vm ip =
     (case DecodeNextOpcode (vm\<lparr>instruction_ptr := ip, decode_success := True\<rparr>) of
        Inr (Some (b, op), vm1) \<Rightarrow> op # linear_code n vm (instruction_ptr vm1)
      | _ \<Rightarrow> [])"

lemma linear_code_complete:
  "code_at vm ip ops ip' \<Longrightarrow> length ops \<le> n \<Longrightarrow> set ops \<subseteq> set (linear_code n vm ip)"
proof (induction ops arbitrary: ip n)
  case (Cons op ops)
  then obtain m where "n = Suc m" by (cases n) auto
  with Cons.prems Cons.IH [of _ m] show ?case
    by (auto split: sum.splits option.splits prod.splits)
qed simp

lemma decode_follows:
  assumes "code_ok vm" "decode_success vm" "DecodeNextOpcode vm = Inr (Some (b, op), vm1)"
  shows "code_at vm (instruction_ptr vm) [op] (instruction_ptr vm1)"
proof -
  have "vm\<lparr>instruction_ptr := instruction_ptr vm, decode_success := True\<rparr> = vm"
    using assms(2) by (cases vm) simp
  with assms(3) show ?thesis by simp
qed

lemma skip_loop_follows:
  assumes "code_ok vm" "decode_success vm" "skip_loop fuel desired is_if vm = Inr vm'" "decode_success vm'"
  shows "\<exists>ops. code_at vm (instruction_ptr vm) ops (instruction_ptr vm')"
  using assms
proof (induction fuel arbitrary: vm)
  case (Suc fuel)
  from DecodeNextOpcode_spec [OF Suc.prems(1)] obtain r vm1
    where d: "DecodeNextOpcode vm = Inr (r, vm1)" "moved vm vm1"
      "case r of None \<Rightarrow> \<not> decode_success vm1 | Some (b, op) \<Rightarrow> decode_success vm1"
    by (fastforce split: option.splits)
  show ?case
  proof (cases "desired < condition_depth vm")
    case True
    with Suc.prems(3,4) d obtain b op where r: "r = Some (b, op)" by (cases r) auto
    obtain stop c where round: "skip_round desired is_if (b, op) (condition_depth vm1) = (stop, c)" by force
    have one: "code_at vm (instruction_ptr vm) [op] (instruction_ptr vm1)"
      using decode_follows [OF Suc.prems(1,2)] d(1) r by blast
    show ?thesis
    proof (cases stop)
      case True
      with \<open>desired < condition_depth vm\<close> Suc.prems(3) d(1) r round have "vm' = vm1" by simp
      with one show ?thesis by blast
    next
      case False
      let ?vm2 = "vm1\<lparr>condition_depth := c\<rparr>"
      have m: "moved vm ?vm2" by (rule moved_depth [OF d(2)])
      have "\<exists>ops. code_at ?vm2 (instruction_ptr ?vm2) ops (instruction_ptr vm')"
      proof (rule Suc.IH)
        show "code_ok ?vm2" by (rule code_ok_moved [OF Suc.prems(1) m])
        show "decode_success ?vm2" using d(3) r by simp
        show "skip_loop fuel desired is_if ?vm2 = Inr vm'"
          using True False Suc.prems(3) d(1) r round by simp
        show "decode_success vm'" by (rule Suc.prems(4))
      qed
      then obtain ops where "code_at vm (instruction_ptr vm1) ops (instruction_ptr vm')"
        using code_at_same_program [of ?vm2 vm] moved_num [OF m] by auto
      with one code_at_append [of vm "instruction_ptr vm" "[op]" ops] show ?thesis by blast
    qed
  next
    case False
    then show ?thesis using Suc.prems(3) by (intro exI [of _ "[]"]) simp
  qed
qed simp

section \<open>Properties\<close>

text \<open>A program laid out from the first entry on.\<close>

definition vm_with :: "u32 list \<Rightarrow> DmntCheatVm" where
  "vm_with ws = new_vm\<lparr>num_opcodes := length ws,
     cheat_program := ws @ replicate (MaximumProgramOpcodeCount - length ws) 0, decode_success := True\<rparr>"

text \<open>C18: \<^verbatim>\<open>DecodeNextOpcode\<close> is total on any program words: it never reads outside the program, it changes only the
  instruction pointer and the success flag, and an opcode it delivers lies strictly ahead, names only existing
  registers, and carries a block flag that agrees with its kind.  A failure is remembered.\<close>

theorem cheat_decode_total:
  assumes "code_ok vm"
  shows "\<exists>r vm'. DecodeNextOpcode vm = Inr (r, vm') \<and> moved vm vm' \<and>
    condition_depth vm' = condition_depth vm \<and>
    (case r of None \<Rightarrow> \<not> decode_success vm'
     | Some (b, op) \<Rightarrow> decode_success vm \<and> decode_success vm' \<and>
         instruction_ptr vm < instruction_ptr vm' \<and> opcode_ok op \<and> b = is_begin op)"
  by (rule DecodeNextOpcode_spec [OF assms])

theorem cheat_decode_total_witness:
  "code_ok (vm_with [0x04100000, 0x10, 0x63]) \<and>
   (\<exists>r vm'. DecodeNextOpcode (vm_with [0x04100000, 0x10, 0x63]) = Inr (r, vm') \<and>
      moved (vm_with [0x04100000, 0x10, 0x63]) vm')"
proof -
  have ok: "code_ok (vm_with [0x04100000, 0x10, 0x63])"
    by (simp add: code_ok_def vm_with_def new_vm_def MaximumProgramOpcodeCount_def)
  from cheat_decode_total [OF ok] ok show ?thesis by blast
qed

text \<open>C17: \<^verbatim>\<open>SkipConditionalBlock\<close> finds the end of its own block: from inside a block whose remaining code is a
  well-nested body, it stops right behind the matching end (and leaves the block), or, when an \<^verbatim>\<open>if\<close> is being skipped,
  right behind the matching else (and stays in the block); nested blocks, with or without an else, are passed over.\<close>

theorem skip_conditional_block:
  assumes "balanced body" "code_ok vm" "ip \<le> num_opcodes vm"
    "code_at vm ip (body @ [EndConditionalOpcode els]) ip'" "els \<longrightarrow> is_if"
  shows "SkipConditionalBlock is_if (vm_at vm ip (Suc c)) = Inr (vm_at vm ip' (if els then Suc c else c))"
  using SkipConditionalBlock_to [OF assms(1-4)] assms(5) by blast

theorem skip_conditional_block_witness:
  "SkipConditionalBlock True (vm_at (vm_with [0x80000001, 0x21000000, 0x20000000, 0x21000000]) 0 1) =
     Inr (vm_at (vm_with [0x80000001, 0x21000000, 0x20000000, 0x21000000]) 4 1)"
proof -
  let ?vm = "vm_with [0x80000001, 0x21000000, 0x20000000, 0x21000000]"
  let ?body = "[BeginKeypressConditionalOpcode 1, EndConditionalOpcode True, EndConditionalOpcode False]"
  have "balanced ?body"
    using balanced_if_else [of "BeginKeypressConditionalOpcode 1" "[]" "[]" "[]"] balanced_Nil by simp
  moreover have "code_ok ?vm" by (simp add: code_ok_def vm_with_def new_vm_def MaximumProgramOpcodeCount_def)
  moreover have "code_at ?vm 0 (?body @ [EndConditionalOpcode True]) 4" by code_simp
  ultimately show ?thesis using skip_conditional_block [of ?body ?vm 0 True 4 True 0] by simp
qed

end
