(* ===== verification/CheatVm.thy ===== *)
theory CheatVm
  imports CheatDecode
begin

text \<open>
  The interpreter of the cheat virtual machine (\<^verbatim>\<open>core/memory/dmnt_cheat_vm.cpp\<close>): \<^verbatim>\<open>LoadProgram\<close>, \<^verbatim>\<open>ResetState\<close> and
  \<^verbatim>\<open>Execute\<close> with one definition per opcode.  The abstract class \<^verbatim>\<open>DmntCheatVm::Callbacks\<close> is the record \<open>Callbacks\<close>,
  functions on a world of the embedder's choice, whose memory accesses may fault; its \<^verbatim>\<open>CommandLog\<close>, which only
  receives text, is left out.  The locale \<open>cheat_callbacks\<close> states what the machine relies on.
  \<^verbatim>\<open>Execute\<close> may run forever, so it takes fuel, one unit per executed opcode; a shift by the width of the operand or
  more is undefined in C++ and faults.
\<close>

section \<open>Programs\<close>

record MemoryRegionExtents =
  extent_base :: u64
  extent_size :: u64

record CheatProcessMetadata =
  metadata_process_id :: u64
  metadata_title_id :: u64
  main_nso_extents :: MemoryRegionExtents
  heap_extents :: MemoryRegionExtents
  alias_extents :: MemoryRegionExtents
  aslr_extents :: MemoryRegionExtents
  main_nso_build_id :: "u8 list"

record CheatDefinition =
  readable_name :: "char list"
  def_num_opcodes :: u32
  opcodes :: "u32 list"

record CheatEntry =
  enabled :: bool
  cheat_id :: u32
  cheat_definition :: CheatDefinition

definition ResetState :: "DmntCheatVm \<Rightarrow> DmntCheatVm" where
  "ResetState vm = vm\<lparr>registers := replicate NumRegisters 0, saved_values := replicate NumRegisters 0,
     loop_tops := replicate NumRegisters 0, instruction_ptr := 0, condition_depth := 0, decode_success := True\<rparr>"

text \<open>The inner loop of \<^verbatim>\<open>LoadProgram\<close>: \<open>k\<close> more opcodes of one cheat from position \<open>n\<close>.\<close>

primrec copy_opcodes :: "nat \<Rightarrow> nat \<Rightarrow> u32 list \<Rightarrow> DmntCheatVm \<Rightarrow> DmntCheatVm run" where
  "copy_opcodes 0 n ops vm = Inr vm"
| "copy_opcodes (Suc k) n ops vm =
     bind_run (aget ops (int n)) (\<lambda>op.
     bind_run (aset (cheat_program vm) (int (num_opcodes vm)) op) (\<lambda>program.
     copy_opcodes k (Suc n) ops (vm\<lparr>cheat_program := program, num_opcodes := num_opcodes vm + 1\<rparr>)))"

primrec load_entries :: "CheatEntry list \<Rightarrow> DmntCheatVm \<Rightarrow> (bool \<times> DmntCheatVm) run" where
  "load_entries [] vm = Inr (True, vm)"
| "load_entries (e # es) vm =
     (if enabled e then
        if unat (def_num_opcodes (cheat_definition e)) + num_opcodes vm > MaximumProgramOpcodeCount
        then Inr (False, vm\<lparr>num_opcodes := 0\<rparr>)
        else bind_run (copy_opcodes (unat (def_num_opcodes (cheat_definition e))) 0
          (opcodes (cheat_definition e)) vm) (load_entries es)
      else load_entries es vm)"

definition LoadProgram :: "CheatEntry list \<Rightarrow> DmntCheatVm \<Rightarrow> (bool \<times> DmntCheatVm) run" where
  "LoadProgram entries vm = load_entries entries (vm\<lparr>num_opcodes := 0\<rparr>)"

section \<open>The outside of the machine\<close>

record 'w Callbacks =
  MemoryReadUnsafe :: "u64 \<Rightarrow> nat \<Rightarrow> 'w \<Rightarrow> (u8 list \<times> 'w) run"
  MemoryWriteUnsafe :: "u64 \<Rightarrow> u8 list \<Rightarrow> 'w \<Rightarrow> 'w run"
  HidKeysDown :: "'w \<Rightarrow> u64 \<times> 'w"
  cb_PauseProcess :: "'w \<Rightarrow> 'w"
  cb_ResumeProcess :: "'w \<Rightarrow> 'w"
  cb_DebugLog :: "u8 \<Rightarrow> u64 \<Rightarrow> 'w \<Rightarrow> 'w"

text \<open>The first bytes of an integer in memory, and an integer whose first bytes are overwritten.\<close>

primrec le_bytes :: "nat \<Rightarrow> u64 \<Rightarrow> u8 list" where
  "le_bytes 0 v = []"
| "le_bytes (Suc n) v = ucast v # le_bytes n (drop_bit 8 v)"

primrec le_overlay :: "u8 list \<Rightarrow> u64 \<Rightarrow> u64" where
  "le_overlay [] v = v"
| "le_overlay (b # bs) v = push_bit 8 (le_overlay bs (drop_bit 8 v)) OR ucast b"

definition valid_width :: "u32 \<Rightarrow> bool" where
  "valid_width w \<longleftrightarrow> w = 1 \<or> w = 2 \<or> w = 4 \<or> w = 8"

definition read_memory :: "'w Callbacks \<Rightarrow> u32 \<Rightarrow> u64 \<Rightarrow> u64 \<Rightarrow> 'w \<Rightarrow> (u64 \<times> 'w) run" where
  "read_memory cb width address old w =
     (if valid_width width
      then bind_run (MemoryReadUnsafe cb address (unat width) w) (\<lambda>(bytes, w1). Inr (le_overlay bytes old, w1))
      else Inr (old, w))"

definition write_memory :: "'w Callbacks \<Rightarrow> u32 \<Rightarrow> u64 \<Rightarrow> u64 \<Rightarrow> 'w \<Rightarrow> 'w run" where
  "write_memory cb width address v w =
     (if valid_width width then MemoryWriteUnsafe cb address (le_bytes (unat width) v) w else Inr w)"

section \<open>Helpers of the interpreter\<close>

definition GetVmInt :: "VmInt \<Rightarrow> u32 \<Rightarrow> u64" where
  "GetVmInt v width =
     (if width = 1 then ucast (ucast v :: u8) else if width = 2 then ucast (ucast v :: u16)
      else if width = 4 then ucast (ucast v :: u32) else if width = 8 then v else 0)"

definition GetCheatProcessAddress :: "CheatProcessMetadata \<Rightarrow> MemoryAccessType \<Rightarrow> u64 \<Rightarrow> u64" where
  "GetCheatProcessAddress metadata mt rel =
     (case mt of
        Heap \<Rightarrow> extent_base (heap_extents metadata) + rel
      | Alias \<Rightarrow> extent_base (alias_extents metadata) + rel
      | Aslr \<Rightarrow> extent_base (aslr_extents metadata) + rel
      | _ \<Rightarrow> extent_base (main_nso_extents metadata) + rel)"

definition reg_get :: "u32 \<Rightarrow> DmntCheatVm \<Rightarrow> u64 run" where
  "reg_get i vm = aget (registers vm) (uint i)"

definition reg_set :: "u32 \<Rightarrow> u64 \<Rightarrow> DmntCheatVm \<Rightarrow> DmntCheatVm run" where
  "reg_set i v vm = bind_run (aset (registers vm) (uint i) v) (\<lambda>rs. Inr (vm\<lparr>registers := rs\<rparr>))"

definition cond_met :: "ConditionalComparisonType \<Rightarrow> u64 \<Rightarrow> u64 \<Rightarrow> bool" where
  "cond_met c src_value cond_value =
     (case c of GT \<Rightarrow> src_value > cond_value | GE \<Rightarrow> src_value \<ge> cond_value | LT \<Rightarrow> src_value < cond_value
      | LE \<Rightarrow> src_value \<le> cond_value | EQ \<Rightarrow> src_value = cond_value | NE \<Rightarrow> src_value \<noteq> cond_value
      | OtherComparison n \<Rightarrow> False)"

text \<open>``Apply bit width'': other widths leave the value alone.  Register operands of comparisons and of the debug
  log are masked instead, and are zero at other widths.\<close>

definition apply_width :: "u32 \<Rightarrow> u64 \<Rightarrow> u64" where
  "apply_width width v =
     (if width = 1 then ucast (ucast v :: u8) else if width = 2 then ucast (ucast v :: u16)
      else if width = 4 then ucast (ucast v :: u32) else v)"

definition masked_register :: "u32 \<Rightarrow> u64 \<Rightarrow> u64" where
  "masked_register width v =
     (if width = 1 then ucast (ucast (v AND 0xFF) :: u8)
      else if width = 2 then ucast (ucast (v AND 0xFFFF) :: u16)
      else if width = 4 then ucast (ucast (v AND 0xFFFFFFFF) :: u32)
      else if width = 8 then v AND 0xFFFFFFFFFFFFFFFF else 0)"

definition shift_left :: "u64 \<Rightarrow> u64 \<Rightarrow> u64 run" where
  "shift_left a b = (if b < 64 then Inr (push_bit (unat b) a) else Inl ShiftOutOfRange)"

definition shift_right :: "u64 \<Rightarrow> u64 \<Rightarrow> u64 run" where
  "shift_right a b = (if b < 64 then Inr (drop_bit (unat b) a) else Inl ShiftOutOfRange)"

section \<open>One definition per opcode\<close>

type_synonym 'w st = "DmntCheatVm \<times> 'w"

definition exec_StoreStatic ::
  "'w Callbacks \<Rightarrow> CheatProcessMetadata \<Rightarrow> u32 \<Rightarrow> MemoryAccessType \<Rightarrow> u32 \<Rightarrow> u64 \<Rightarrow> VmInt \<Rightarrow> 'w st \<Rightarrow> 'w st run" where
  "exec_StoreStatic cb metadata width mt offset rel v s =
     (case s of (vm, w) \<Rightarrow>
        bind_run (reg_get offset vm) (\<lambda>offset_value.
        bind_run (write_memory cb width (GetCheatProcessAddress metadata mt (rel + offset_value))
          (GetVmInt v width) w) (\<lambda>w1. Inr (vm, w1))))"

definition skip_unless :: "bool \<Rightarrow> 'w st \<Rightarrow> 'w st run" where
  "skip_unless met s =
     (if met then Inr s else bind_run (SkipConditionalBlock True (fst s)) (\<lambda>vm. Inr (vm, snd s)))"

definition exec_BeginConditional ::
  "'w Callbacks \<Rightarrow> CheatProcessMetadata \<Rightarrow> u32 \<Rightarrow> MemoryAccessType \<Rightarrow> ConditionalComparisonType \<Rightarrow> u64 \<Rightarrow>
   VmInt \<Rightarrow> 'w st \<Rightarrow> 'w st run" where
  "exec_BeginConditional cb metadata width mt c rel v s =
     bind_run (read_memory cb width (GetCheatProcessAddress metadata mt rel) 0 (snd s)) (\<lambda>(src_value, w1).
     skip_unless (cond_met c src_value (GetVmInt v width)) (fst s, w1))"

definition exec_EndConditional :: "bool \<Rightarrow> 'w st \<Rightarrow> 'w st run" where
  "exec_EndConditional els s =
     (if els then bind_run (SkipConditionalBlock False (fst s)) (\<lambda>vm. Inr (vm, snd s))
      else if condition_depth (fst s) > 0
      then Inr ((fst s)\<lparr>condition_depth := condition_depth (fst s) - 1\<rparr>, snd s)
      else Inr s)"

definition exec_ControlLoop :: "bool \<Rightarrow> u32 \<Rightarrow> u32 \<Rightarrow> 'w st \<Rightarrow> 'w st run" where
  "exec_ControlLoop start reg iters s =
     (case s of (vm, w) \<Rightarrow>
        if start then
          bind_run (reg_set reg (ucast iters) vm) (\<lambda>vm1.
          bind_run (aset (loop_tops vm1) (uint reg) (instruction_ptr vm1)) (\<lambda>tops.
          Inr (vm1\<lparr>loop_tops := tops\<rparr>, w)))
        else
          bind_run (reg_get reg vm) (\<lambda>count.
          bind_run (reg_set reg (count - 1) vm) (\<lambda>vm1.
          if count - 1 \<noteq> 0 then
            bind_run (aget (loop_tops vm1) (uint reg)) (\<lambda>top. Inr (vm1\<lparr>instruction_ptr := top\<rparr>, w))
          else Inr (vm1, w))))"

definition exec_LoadRegisterMemory ::
  "'w Callbacks \<Rightarrow> CheatProcessMetadata \<Rightarrow> u32 \<Rightarrow> MemoryAccessType \<Rightarrow> u32 \<Rightarrow> bool \<Rightarrow> u64 \<Rightarrow> 'w st \<Rightarrow> 'w st run" where
  "exec_LoadRegisterMemory cb metadata width mt reg from_reg rel s =
     (case s of (vm, w) \<Rightarrow>
        bind_run (reg_get reg vm) (\<lambda>old.
        let src_address = (if from_reg then old + rel else GetCheatProcessAddress metadata mt rel)
        in bind_run (read_memory cb width src_address old w) (\<lambda>(new, w1).
           bind_run (reg_set reg new vm) (\<lambda>vm1. Inr (vm1, w1)))))"

definition exec_StoreStaticToAddress ::
  "'w Callbacks \<Rightarrow> u32 \<Rightarrow> u32 \<Rightarrow> bool \<Rightarrow> bool \<Rightarrow> u32 \<Rightarrow> u64 \<Rightarrow> 'w st \<Rightarrow> 'w st run" where
  "exec_StoreStaticToAddress cb width reg increment add_offset offset v s =
     (case s of (vm, w) \<Rightarrow>
        bind_run (reg_get reg vm) (\<lambda>base.
        bind_run (if add_offset then reg_get offset vm else Inr 0) (\<lambda>ofs.
        bind_run (write_memory cb width (base + ofs) v w) (\<lambda>w1.
        bind_run (if increment then reg_set reg (base + ucast width) vm else Inr vm) (\<lambda>vm1.
        Inr (vm1, w1))))))"

definition static_math :: "RegisterArithmeticType \<Rightarrow> u64 \<Rightarrow> u64 \<Rightarrow> u64 run" where
  "static_math m a b =
     (case m of
        Addition \<Rightarrow> Inr (a + b) | Subtraction \<Rightarrow> Inr (a - b) | Multiplication \<Rightarrow> Inr (a * b)
      | LeftShift \<Rightarrow> shift_left a b | RightShift \<Rightarrow> shift_right a b | _ \<Rightarrow> Inr a)"

definition exec_PerformArithmeticStatic ::
  "u32 \<Rightarrow> u32 \<Rightarrow> RegisterArithmeticType \<Rightarrow> u32 \<Rightarrow> 'w st \<Rightarrow> 'w st run" where
  "exec_PerformArithmeticStatic width reg m v s =
     (case s of (vm, w) \<Rightarrow>
        bind_run (reg_get reg vm) (\<lambda>old.
        bind_run (static_math m old (ucast v)) (\<lambda>res.
        bind_run (reg_set reg (apply_width width res) vm) (\<lambda>vm1. Inr (vm1, w)))))"

definition exec_BeginKeypressConditional :: "u64 \<Rightarrow> u32 \<Rightarrow> 'w st \<Rightarrow> 'w st run" where
  "exec_BeginKeypressConditional kDown keys s = skip_unless (ucast keys AND kDown = ucast keys) s"

definition register_math :: "RegisterArithmeticType \<Rightarrow> u64 \<Rightarrow> u64 \<Rightarrow> u64 run" where
  "register_math m a b =
     (case m of
        Addition \<Rightarrow> Inr (a + b) | Subtraction \<Rightarrow> Inr (a - b) | Multiplication \<Rightarrow> Inr (a * b)
      | LeftShift \<Rightarrow> shift_left a b | RightShift \<Rightarrow> shift_right a b
      | LogicalAnd \<Rightarrow> Inr (a AND b) | LogicalOr \<Rightarrow> Inr (a OR b) | LogicalNot \<Rightarrow> Inr (NOT a)
      | LogicalXor \<Rightarrow> Inr (a XOR b) | NoArithmetic \<Rightarrow> Inr a | OtherArithmetic n \<Rightarrow> Inr 0)"

definition exec_PerformArithmeticRegister ::
  "u32 \<Rightarrow> RegisterArithmeticType \<Rightarrow> u32 \<Rightarrow> u32 \<Rightarrow> u32 \<Rightarrow> bool \<Rightarrow> VmInt \<Rightarrow> 'w st \<Rightarrow> 'w st run" where
  "exec_PerformArithmeticRegister width m dst src1 src2 immediate v s =
     (case s of (vm, w) \<Rightarrow>
        bind_run (reg_get src1 vm) (\<lambda>operand_1_value.
        bind_run (if immediate then Inr (GetVmInt v width) else reg_get src2 vm) (\<lambda>operand_2_value.
        bind_run (register_math m operand_1_value operand_2_value) (\<lambda>res_val.
        bind_run (reg_set dst (apply_width width res_val) vm) (\<lambda>vm1. Inr (vm1, w))))))"

definition store_address ::
  "CheatProcessMetadata \<Rightarrow> StoreRegisterOffsetType \<Rightarrow> MemoryAccessType \<Rightarrow> u32 \<Rightarrow> u64 \<Rightarrow> u64 \<Rightarrow> DmntCheatVm \<Rightarrow> u64 run" where
  "store_address metadata ot mt ofs rel addr vm =
     (case ot of
        NoOffset \<Rightarrow> Inr addr
      | Reg \<Rightarrow> bind_run (reg_get ofs vm) (\<lambda>ofs_value. Inr (addr + ofs_value))
      | Imm \<Rightarrow> Inr (addr + rel)
      | MemReg \<Rightarrow> Inr (GetCheatProcessAddress metadata mt addr)
      | MemImm \<Rightarrow> Inr (GetCheatProcessAddress metadata mt rel)
      | MemImmReg \<Rightarrow> Inr (GetCheatProcessAddress metadata mt (addr + rel))
      | OtherOffset n \<Rightarrow> Inr addr)"

definition exec_StoreRegisterToAddress ::
  "'w Callbacks \<Rightarrow> CheatProcessMetadata \<Rightarrow> u32 \<Rightarrow> u32 \<Rightarrow> u32 \<Rightarrow> bool \<Rightarrow> StoreRegisterOffsetType \<Rightarrow>
   MemoryAccessType \<Rightarrow> u32 \<Rightarrow> u64 \<Rightarrow> 'w st \<Rightarrow> 'w st run" where
  "exec_StoreRegisterToAddress cb metadata width str_reg addr_reg increment ot mt ofs rel s =
     (case s of (vm, w) \<Rightarrow>
        bind_run (reg_get str_reg vm) (\<lambda>dst_value.
        bind_run (reg_get addr_reg vm) (\<lambda>addr.
        bind_run (store_address metadata ot mt ofs rel addr vm) (\<lambda>dst_address.
        bind_run (write_memory cb width dst_address dst_value w) (\<lambda>w1.
        bind_run (if increment then reg_set addr_reg (addr + ucast width) vm else Inr vm) (\<lambda>vm1.
        Inr (vm1, w1)))))))"

text \<open>The memory operand of register comparisons and of the debug log.\<close>

definition operand_address ::
  "CheatProcessMetadata \<Rightarrow> ValueType \<Rightarrow> MemoryAccessType \<Rightarrow> u32 \<Rightarrow> u32 \<Rightarrow> u64 \<Rightarrow> DmntCheatVm \<Rightarrow> u64 run" where
  "operand_address metadata vt mt addr_reg ofs_reg rel vm =
     (case vt of
        MemoryRelAddr \<Rightarrow> Inr (GetCheatProcessAddress metadata mt rel)
      | MemoryOfsReg \<Rightarrow> bind_run (reg_get ofs_reg vm) (\<lambda>ofs. Inr (GetCheatProcessAddress metadata mt ofs))
      | RegisterRelAddr \<Rightarrow> bind_run (reg_get addr_reg vm) (\<lambda>a. Inr (a + rel))
      | RegisterOfsReg \<Rightarrow>
          bind_run (reg_get addr_reg vm) (\<lambda>a. bind_run (reg_get ofs_reg vm) (\<lambda>ofs. Inr (a + ofs)))
      | _ \<Rightarrow> Inr 0)"

definition exec_BeginRegisterConditional ::
  "'w Callbacks \<Rightarrow> CheatProcessMetadata \<Rightarrow> u32 \<Rightarrow> ConditionalComparisonType \<Rightarrow> u32 \<Rightarrow> ValueType \<Rightarrow>
   MemoryAccessType \<Rightarrow> u32 \<Rightarrow> u32 \<Rightarrow> u32 \<Rightarrow> u64 \<Rightarrow> VmInt \<Rightarrow> 'w st \<Rightarrow> 'w st run" where
  "exec_BeginRegisterConditional cb metadata width c val_reg ct mt addr_reg other_reg ofs_reg rel v s =
     (case s of (vm, w) \<Rightarrow>
        bind_run (reg_get val_reg vm) (\<lambda>val.
        bind_run
          (if ct = StaticValue then Inr (GetVmInt v width, w)
           else if ct = OtherRegister then
             bind_run (reg_get other_reg vm) (\<lambda>oth. Inr (masked_register width oth, w))
           else bind_run (operand_address metadata ct mt addr_reg ofs_reg rel vm) (\<lambda>cond_address.
             read_memory cb width cond_address 0 w)) (\<lambda>(cond_value, w1).
        skip_unless (cond_met c (masked_register width val) cond_value) (vm, w1))))"

definition exec_SaveRestoreRegister ::
  "u32 \<Rightarrow> u32 \<Rightarrow> SaveRestoreRegisterOpType \<Rightarrow> 'w st \<Rightarrow> 'w st run" where
  "exec_SaveRestoreRegister dst src ty s =
     (case s of (vm, w) \<Rightarrow>
        case ty of
          ClearRegs \<Rightarrow> bind_run (reg_set dst 0 vm) (\<lambda>vm1. Inr (vm1, w))
        | ClearSaved \<Rightarrow> bind_run (aset (saved_values vm) (uint dst) 0) (\<lambda>vs. Inr (vm\<lparr>saved_values := vs\<rparr>, w))
        | Save \<Rightarrow> bind_run (reg_get src vm) (\<lambda>v.
            bind_run (aset (saved_values vm) (uint dst) v) (\<lambda>vs. Inr (vm\<lparr>saved_values := vs\<rparr>, w)))
        | _ \<Rightarrow> bind_run (aget (saved_values vm) (uint src)) (\<lambda>v.
            bind_run (reg_set dst v vm) (\<lambda>vm1. Inr (vm1, w))))"

primrec mask_loop ::
  "nat \<Rightarrow> nat \<Rightarrow> SaveRestoreRegisterOpType \<Rightarrow> bool list \<Rightarrow> u64 list \<Rightarrow> u64 list \<Rightarrow> u64 list run" where
  "mask_loop 0 i ty should src dst = Inr dst"
| "mask_loop (Suc n) i ty should src dst =
     bind_run (aget should (int i)) (\<lambda>operate.
     bind_run
       (if operate then
          (if ty = ClearSaved \<or> ty = ClearRegs then aset dst (int i) 0
           else bind_run (aget src (int i)) (\<lambda>v. aset dst (int i) v))
        else Inr dst) (\<lambda>dst1.
     mask_loop n (Suc i) ty should src dst1))"

definition exec_SaveRestoreRegisterMask ::
  "SaveRestoreRegisterOpType \<Rightarrow> bool list \<Rightarrow> 'w st \<Rightarrow> 'w st run" where
  "exec_SaveRestoreRegisterMask ty should s =
     (case s of (vm, w) \<Rightarrow>
        if ty = ClearSaved \<or> ty = Save then
          bind_run (mask_loop NumRegisters 0 ty should (registers vm) (saved_values vm)) (\<lambda>dst.
          Inr (vm\<lparr>saved_values := dst\<rparr>, w))
        else
          bind_run (mask_loop NumRegisters 0 ty should (saved_values vm) (registers vm)) (\<lambda>dst.
          Inr (vm\<lparr>registers := dst\<rparr>, w)))"

definition exec_ReadWriteStaticRegister :: "u32 \<Rightarrow> u32 \<Rightarrow> 'w st \<Rightarrow> 'w st run" where
  "exec_ReadWriteStaticRegister sidx ridx s =
     (case s of (vm, w) \<Rightarrow>
        if unat sidx < NumReadableStaticRegisters then
          bind_run (aget (static_registers vm) (uint sidx)) (\<lambda>v.
          bind_run (reg_set ridx v vm) (\<lambda>vm1. Inr (vm1, w)))
        else
          bind_run (reg_get ridx vm) (\<lambda>v.
          bind_run (aset (static_registers vm) (uint sidx) v) (\<lambda>vs. Inr (vm\<lparr>static_registers := vs\<rparr>, w))))"

definition exec_DebugLog ::
  "'w Callbacks \<Rightarrow> CheatProcessMetadata \<Rightarrow> u32 \<Rightarrow> u32 \<Rightarrow> ValueType \<Rightarrow> MemoryAccessType \<Rightarrow> u32 \<Rightarrow> u32 \<Rightarrow>
   u32 \<Rightarrow> u64 \<Rightarrow> 'w st \<Rightarrow> 'w st run" where
  "exec_DebugLog cb metadata width lid vt mt addr_reg val_reg ofs_reg rel s =
     (case s of (vm, w) \<Rightarrow>
        bind_run
          (if vt = RegisterValue then bind_run (reg_get val_reg vm) (\<lambda>v. Inr (masked_register width v, w))
           else bind_run (operand_address metadata vt mt addr_reg ofs_reg rel vm) (\<lambda>val_address.
             read_memory cb width val_address 0 w)) (\<lambda>(log_value, w1).
        Inr (vm, cb_DebugLog cb (ucast lid) log_value w1)))"

section \<open>The interpreter\<close>

definition execute_opcode ::
  "'w Callbacks \<Rightarrow> CheatProcessMetadata \<Rightarrow> u64 \<Rightarrow> CheatVmOpcode \<Rightarrow> 'w st \<Rightarrow> 'w st run" where
  "execute_opcode cb metadata kDown op s =
     (case op of
        StoreStaticOpcode width mt offset rel v \<Rightarrow> exec_StoreStatic cb metadata width mt offset rel v s
      | BeginConditionalOpcode width mt c rel v \<Rightarrow> exec_BeginConditional cb metadata width mt c rel v s
      | EndConditionalOpcode els \<Rightarrow> exec_EndConditional els s
      | ControlLoopOpcode start reg iters \<Rightarrow> exec_ControlLoop start reg iters s
      | LoadRegisterStaticOpcode reg v \<Rightarrow> bind_run (reg_set reg v (fst s)) (\<lambda>vm. Inr (vm, snd s))
      | LoadRegisterMemoryOpcode width mt reg from_reg rel \<Rightarrow>
          exec_LoadRegisterMemory cb metadata width mt reg from_reg rel s
      | StoreStaticToAddressOpcode width reg increment add_offset offset v \<Rightarrow>
          exec_StoreStaticToAddress cb width reg increment add_offset offset v s
      | PerformArithmeticStaticOpcode width reg m v \<Rightarrow> exec_PerformArithmeticStatic width reg m v s
      | BeginKeypressConditionalOpcode keys \<Rightarrow> exec_BeginKeypressConditional kDown keys s
      | PerformArithmeticRegisterOpcode width m dst src1 src2 immediate v \<Rightarrow>
          exec_PerformArithmeticRegister width m dst src1 src2 immediate v s
      | StoreRegisterToAddressOpcode width str_reg addr_reg increment ot mt ofs rel \<Rightarrow>
          exec_StoreRegisterToAddress cb metadata width str_reg addr_reg increment ot mt ofs rel s
      | BeginRegisterConditionalOpcode width c val_reg ct mt addr_reg other_reg ofs_reg rel v \<Rightarrow>
          exec_BeginRegisterConditional cb metadata width c val_reg ct mt addr_reg other_reg ofs_reg rel v s
      | SaveRestoreRegisterOpcode dst src ty \<Rightarrow> exec_SaveRestoreRegister dst src ty s
      | SaveRestoreRegisterMaskOpcode ty should \<Rightarrow> exec_SaveRestoreRegisterMask ty should s
      | ReadWriteStaticRegisterOpcode sidx ridx \<Rightarrow> exec_ReadWriteStaticRegister sidx ridx s
      | PauseProcessOpcode \<Rightarrow> Inr (fst s, cb_PauseProcess cb (snd s))
      | ResumeProcessOpcode \<Rightarrow> Inr (fst s, cb_ResumeProcess cb (snd s))
      | DebugLogOpcode width lid vt mt addr_reg val_reg ofs_reg rel \<Rightarrow>
          exec_DebugLog cb metadata width lid vt mt addr_reg val_reg ofs_reg rel s
      | UnrecognizedInstruction t \<Rightarrow> Inr s)"

text \<open>One round of the loop, and whether it decoded an opcode; the loop ends when it did not.\<close>

definition execute_step ::
  "'w Callbacks \<Rightarrow> CheatProcessMetadata \<Rightarrow> u64 \<Rightarrow> 'w st \<Rightarrow> (bool \<times> 'w st) run" where
  "execute_step cb metadata kDown s =
     bind_run (DecodeNextOpcode (fst s)) (\<lambda>(cur_opcode, vm).
     case cur_opcode of
       None \<Rightarrow> Inr (False, (vm, snd s))
     | Some (begin_conditional_block, op) \<Rightarrow>
         let vm1 = (if begin_conditional_block then vm\<lparr>condition_depth := condition_depth vm + 1\<rparr> else vm)
         in bind_run (execute_opcode cb metadata kDown op (vm1, snd s)) (\<lambda>s1. Inr (True, s1)))"

fun execute_loop :: "nat \<Rightarrow> 'w Callbacks \<Rightarrow> CheatProcessMetadata \<Rightarrow> u64 \<Rightarrow> 'w st \<Rightarrow> 'w st run" where
  "execute_loop 0 cb metadata kDown s = Inl OutOfFuel"
| "execute_loop (Suc fuel) cb metadata kDown s =
     bind_run (execute_step cb metadata kDown s) (\<lambda>(continues, s1).
     if continues then execute_loop fuel cb metadata kDown s1 else Inr s1)"

definition Execute :: "nat \<Rightarrow> 'w Callbacks \<Rightarrow> CheatProcessMetadata \<Rightarrow> 'w st \<Rightarrow> 'w st run" where
  "Execute fuel cb metadata s =
     (case HidKeysDown cb (snd s) of (kDown, w) \<Rightarrow>
        execute_loop fuel cb metadata kDown (ResetState (fst s), w))"

section \<open>No program makes the machine leave its arrays\<close>

definition vm_ok :: "DmntCheatVm \<Rightarrow> bool" where
  "vm_ok vm \<longleftrightarrow> code_ok vm \<and> length (cheat_program vm) = MaximumProgramOpcodeCount \<and>
     length (registers vm) = 16 \<and> length (saved_values vm) = 16 \<and> length (static_registers vm) = 256 \<and>
     length (loop_tops vm) = 16 \<and> (\<forall>t\<in>set (loop_tops vm). t \<le> num_opcodes vm)"

definition runs :: "('a \<Rightarrow> bool) \<Rightarrow> 'a run \<Rightarrow> bool" where
  "runs P r \<longleftrightarrow> (case r of Inl f \<Rightarrow> f = ShiftOutOfRange \<or> f = UnreachableCode | Inr x \<Rightarrow> P x)"

lemma runs_simps [simp]:
  "runs P (Inr x) = P x" "runs P (Inl f) \<longleftrightarrow> f = ShiftOutOfRange \<or> f = UnreachableCode"
  by (simp_all add: runs_def)

lemma runs_bind: "runs Q r \<Longrightarrow> (\<And>x. Q x \<Longrightarrow> runs P (f x)) \<Longrightarrow> runs P (bind_run r f)"
  by (cases r) auto

lemma runs_mono: "runs Q r \<Longrightarrow> (\<And>x. Q x \<Longrightarrow> P x) \<Longrightarrow> runs P r"
  by (cases r) auto

lemma reg_get_ok [simp]: "vm_ok vm \<Longrightarrow> unat i < 16 \<Longrightarrow> reg_get i vm = Inr (registers vm ! unat i)"
  by (simp add: reg_get_def vm_ok_def)

lemma reg_set_ok [simp]:
  "vm_ok vm \<Longrightarrow> unat i < 16 \<Longrightarrow> reg_set i v vm = Inr (vm\<lparr>registers := (registers vm)[unat i := v]\<rparr>)"
  by (simp add: reg_set_def vm_ok_def)

lemma vm_ok_updates [simp]:
  "length rs = 16 \<Longrightarrow> vm_ok vm \<Longrightarrow> vm_ok (vm\<lparr>registers := rs\<rparr>)"
  "length rs = 16 \<Longrightarrow> vm_ok vm \<Longrightarrow> vm_ok (vm\<lparr>saved_values := rs\<rparr>)"
  "length rs = 256 \<Longrightarrow> vm_ok vm \<Longrightarrow> vm_ok (vm\<lparr>static_registers := rs\<rparr>)"
  "vm_ok vm \<Longrightarrow> vm_ok (vm\<lparr>condition_depth := c\<rparr>)"
  by (simp_all add: vm_ok_def code_ok_def)

lemma vm_ok_lengths:
  "vm_ok vm \<Longrightarrow> length (registers vm) = 16" "vm_ok vm \<Longrightarrow> length (saved_values vm) = 16"
  "vm_ok vm \<Longrightarrow> length (static_registers vm) = 256" "vm_ok vm \<Longrightarrow> length (loop_tops vm) = 16"
  by (simp_all add: vm_ok_def)

lemma vm_ok_moved:
  assumes "vm_ok vm" "moved vm vm'"
  shows "vm_ok vm'"
proof -
  have "code_ok vm'" using assms code_ok_moved by (auto simp: vm_ok_def)
  moreover obtain ip c d where "vm' = vm\<lparr>instruction_ptr := ip, condition_depth := c, decode_success := d\<rparr>"
    using assms(2) by (auto simp: moved_def)
  ultimately show ?thesis using assms(1) by (simp add: vm_ok_def)
qed

lemma skip_ok: "vm_ok vm \<Longrightarrow> runs vm_ok (SkipConditionalBlock is_if vm)"
  using SkipConditionalBlock_total [of vm is_if] vm_ok_moved [of vm]
  by (auto simp: vm_ok_def split: if_splits)

lemma static_math_ok: "runs (\<lambda>x. True) (static_math m a b)"
  by (simp add: static_math_def shift_left_def shift_right_def split: RegisterArithmeticType.split)

lemma register_math_ok: "runs (\<lambda>x. True) (register_math m a b)"
  by (simp add: register_math_def shift_left_def shift_right_def split: RegisterArithmeticType.split)

lemma store_address_ok:
  "vm_ok vm \<Longrightarrow> unat ofs < 16 \<Longrightarrow> runs (\<lambda>x. True) (store_address metadata ot mt ofs rel addr vm)"
  by (simp add: store_address_def split: StoreRegisterOffsetType.split)

lemma operand_address_ok:
  "vm_ok vm \<Longrightarrow> unat a < 16 \<Longrightarrow> unat o' < 16 \<Longrightarrow> runs (\<lambda>x. True) (operand_address metadata vt mt a o' rel vm)"
  by (simp add: operand_address_def split: ValueType.split)

lemma mask_loop_length:
  "length should = 16 \<Longrightarrow> length src = 16 \<Longrightarrow> length dst = 16 \<Longrightarrow> i + n \<le> 16 \<Longrightarrow>
   runs (\<lambda>r. length r = 16) (mask_loop n i ty should src dst)"
  by (induction n arbitrary: i dst) simp_all

lemma valid_width_le: "valid_width width \<Longrightarrow> unat width \<le> 8"
  by (auto simp: valid_width_def)

lemma length_le_bytes [simp]: "length (le_bytes n v) = n"
  by (induction n arbitrary: v) simp_all

text \<open>What the machine relies on: an invariant of the world under which memory accesses of at most eight
  bytes do not fault and which every callback keeps.\<close>

definition st_ok :: "('w \<Rightarrow> bool) \<Rightarrow> 'w st \<Rightarrow> bool" where
  "st_ok I s \<longleftrightarrow> vm_ok (fst s) \<and> I (snd s)"

locale cheat_callbacks =
  fixes cb :: "'w Callbacks" and I :: "'w \<Rightarrow> bool"
  assumes read_ok: "I w \<Longrightarrow> n \<le> 8 \<Longrightarrow> \<exists>bs w'. MemoryReadUnsafe cb a n w = Inr (bs, w') \<and> I w'"
    and write_ok: "I w \<Longrightarrow> length bs \<le> 8 \<Longrightarrow> \<exists>w'. MemoryWriteUnsafe cb a bs w = Inr w' \<and> I w'"
    and keys_ok: "I w \<Longrightarrow> I (snd (HidKeysDown cb w))"
    and pause_ok: "I w \<Longrightarrow> I (cb_PauseProcess cb w)"
    and resume_ok: "I w \<Longrightarrow> I (cb_ResumeProcess cb w)"
    and log_ok: "I w \<Longrightarrow> I (cb_DebugLog cb i v w)"
begin

lemma read_memory_ok: "I w \<Longrightarrow> runs (\<lambda>(x, w'). I w') (read_memory cb width a old w)"
  using read_ok [of w "unat width" a] valid_width_le [of width] by (fastforce simp: read_memory_def)

lemma operand_read_ok:
  assumes "vm_ok vm" "I w" "unat a < 16" "unat ofs < 16"
  shows "runs (\<lambda>(x, w'). I w')
    (bind_run (operand_address metadata ct mt a ofs rel vm) (\<lambda>address. read_memory cb width address 0 w))"
  using assms by (intro runs_bind [OF operand_address_ok] read_memory_ok)

lemma write_memory_ok: "I w \<Longrightarrow> runs I (write_memory cb width a v w)"
  using write_ok [of w "le_bytes (unat width) v" a] valid_width_le [of width] by (auto simp: write_memory_def)

lemma skip_unless_ok: "st_ok I s \<Longrightarrow> runs (st_ok I) (skip_unless met s)"
  by (auto simp: skip_unless_def st_ok_def intro!: runs_bind [OF skip_ok])

lemma ControlLoop_ok:
  assumes "st_ok I s" "unat reg < 16"
  shows "runs (st_ok I) (exec_ControlLoop start reg iters s)"
proof -
  obtain vm w where s: "s = (vm, w)" by (cases s)
  have vm: "vm_ok vm" "I w" using assms s by (simp_all add: st_ok_def)
  have tops: "t \<le> num_opcodes vm" if "t \<in> set ((loop_tops vm)[unat reg := instruction_ptr vm])" for t
    using that vm set_update_subset_insert [of "loop_tops vm" "unat reg" "instruction_ptr vm"]
    by (auto simp: vm_ok_def code_ok_def)
  have top: "loop_tops vm ! unat reg \<le> num_opcodes vm"
    using vm assms(2) by (simp add: vm_ok_def)
  show ?thesis
    using vm assms(2) tops top
    by (auto simp: exec_ControlLoop_def s st_ok_def vm_ok_lengths)
      (auto simp: vm_ok_def code_ok_def)
qed

lemma execute_opcode_ok:
  assumes "st_ok I s" "opcode_ok op"
  shows "runs (st_ok I) (execute_opcode cb metadata kDown op s)"
proof -
  obtain vm w where s: "s = (vm, w)" by (cases s)
  have vm: "vm_ok vm" "I w" using assms s by (simp_all add: st_ok_def)
  show ?thesis
  proof (cases op)
    case (ControlLoopOpcode st r n)
    then show ?thesis using assms ControlLoop_ok by (simp add: execute_opcode_def)
  next
    case (BeginConditionalOpcode w' m c a v)
    then show ?thesis
      using vm
      by (auto simp: execute_opcode_def exec_BeginConditional_def s st_ok_def
          intro!: runs_bind [OF read_memory_ok] skip_unless_ok)
  next
    case (BeginKeypressConditionalOpcode k)
    then show ?thesis using assms skip_unless_ok by (simp add: execute_opcode_def exec_BeginKeypressConditional_def)
  next
    case (EndConditionalOpcode els)
    then show ?thesis
      using vm by (auto simp: execute_opcode_def exec_EndConditional_def s st_ok_def intro!: runs_bind [OF skip_ok])
  next
    case (PerformArithmeticStaticOpcode w' r m v)
    then show ?thesis
      using vm assms(2)
      by (auto simp: execute_opcode_def exec_PerformArithmeticStatic_def s st_ok_def vm_ok_lengths
          intro!: runs_bind [OF static_math_ok])
  next
    case (PerformArithmeticRegisterOpcode w' m d s1 s2 imm v)
    then show ?thesis
      using vm assms(2)
      by (auto simp: execute_opcode_def exec_PerformArithmeticRegister_def s st_ok_def vm_ok_lengths
          intro!: runs_bind [OF register_math_ok])
  next
    case (StoreRegisterToAddressOpcode w' s' a inc ot m ofs rel)
    then show ?thesis
      using vm assms(2)
      by (auto simp: execute_opcode_def exec_StoreRegisterToAddress_def s st_ok_def vm_ok_lengths Let_def
          intro!: runs_bind [OF store_address_ok] runs_bind [OF write_memory_ok])
  next
    case (BeginRegisterConditionalOpcode w' c vr ct m a oth ofs rel v)
    then show ?thesis
      using vm assms(2)
      by (auto simp: execute_opcode_def exec_BeginRegisterConditional_def s st_ok_def
          intro!: runs_bind [of "\<lambda>(x, w'). I w'"] skip_unless_ok operand_read_ok)
  next
    case (DebugLogOpcode w' l vt m a vr ofs rel)
    then show ?thesis
      using vm assms(2)
      by (auto simp: execute_opcode_def exec_DebugLog_def s st_ok_def log_ok
          intro!: runs_bind [of "\<lambda>(x, w'). I w'"] operand_read_ok)
  next
    case (SaveRestoreRegisterMaskOpcode ty ms)
    then show ?thesis
      using vm assms(2)
      by (auto simp: execute_opcode_def exec_SaveRestoreRegisterMask_def s st_ok_def vm_ok_lengths NumRegisters_def
          intro!: runs_bind [OF mask_loop_length])
  next
    case (SaveRestoreRegisterOpcode d s' ty)
    then show ?thesis
      using vm assms(2)
      by (auto simp: execute_opcode_def exec_SaveRestoreRegister_def s st_ok_def vm_ok_lengths
          split: SaveRestoreRegisterOpType.split)
  qed (use vm assms(2) in \<open>auto simp: execute_opcode_def s st_ok_def vm_ok_lengths Let_def exec_StoreStatic_def
    exec_LoadRegisterMemory_def exec_StoreStaticToAddress_def exec_ReadWriteStaticRegister_def pause_ok resume_ok
    intro!: runs_bind [OF write_memory_ok] runs_bind [OF read_memory_ok]\<close>)
qed

lemma execute_step_ok: "st_ok I s \<Longrightarrow> runs (\<lambda>(c, s'). st_ok I s') (execute_step cb metadata kDown s)"
proof -
  assume s: "st_ok I s"
  then have ok: "code_ok (fst s)" by (simp add: st_ok_def vm_ok_def)
  from DecodeNextOpcode_spec [OF ok] obtain r vm where d: "DecodeNextOpcode (fst s) = Inr (r, vm)" "moved (fst s) vm"
    "case r of None \<Rightarrow> True | Some (b, op) \<Rightarrow> opcode_ok op" by (fastforce split: option.splits)
  have vm: "vm_ok vm" "I (snd s)" using s d(2) vm_ok_moved by (auto simp: st_ok_def)
  show ?thesis
  proof (cases r)
    case (Some x)
    obtain b op where x: "x = (b, op)" by (cases x)
    have "st_ok I (if b then vm\<lparr>condition_depth := condition_depth vm + 1\<rparr> else vm, snd s)"
      using vm by (simp add: st_ok_def)
    from execute_opcode_ok [OF this, of op metadata kDown] Some x d show ?thesis
      by (auto simp: execute_step_def Let_def intro!: runs_bind)
  qed (use d vm in \<open>simp add: execute_step_def st_ok_def\<close>)
qed

lemma execute_loop_ok:
  assumes "st_ok I s"
  shows "case execute_loop fuel cb metadata kDown s of
      Inl f \<Rightarrow> f = OutOfFuel \<or> f = ShiftOutOfRange \<or> f = UnreachableCode
    | Inr s' \<Rightarrow> st_ok I s'"
  using assms
proof (induction fuel arbitrary: s)
  case (Suc fuel)
  from execute_step_ok [OF Suc.prems, of metadata kDown] Suc.IH show ?case
    by (cases "execute_step cb metadata kDown s") auto
qed simp

end

section \<open>Programs without a loop end terminate\<close>

fun loop_end :: "CheatVmOpcode \<Rightarrow> bool" where
  "loop_end (ControlLoopOpcode start r n) = (\<not> start)"
| "loop_end _ = False"

definition loop_free :: "DmntCheatVm \<Rightarrow> bool" where
  "loop_free vm \<longleftrightarrow> list_all (\<lambda>op. \<not> loop_end op) (linear_code (num_opcodes vm) vm 0)"

text \<open>Where the machine is while it runs a program: at a pointer that linear decoding reaches, or past a failure.\<close>

definition on_track :: "DmntCheatVm \<Rightarrow> DmntCheatVm \<Rightarrow> bool" where
  "on_track vm0 vm \<longleftrightarrow> num_opcodes vm = num_opcodes vm0 \<and> cheat_program vm = cheat_program vm0 \<and>
     (decode_success vm \<longrightarrow> (\<exists>ops. code_at vm0 0 ops (instruction_ptr vm)))"

lemma on_track_step:
  assumes "on_track vm0 vm" "num_opcodes vm' = num_opcodes vm" "cheat_program vm' = cheat_program vm"
    "decode_success vm' \<Longrightarrow> decode_success vm \<and> (\<exists>ops. code_at vm (instruction_ptr vm) ops (instruction_ptr vm'))"
  shows "on_track vm0 vm'"
  using assms code_at_same_program [of vm vm0] code_at_append [of vm0 0]
  unfolding on_track_def by metis

text \<open>An opcode other than a loop end leaves the pointer where decoding put it, unless it skips.\<close>

lemma skip_on_track:
  assumes "on_track vm0 vm" "vm_ok vm" "decode_success vm" "SkipConditionalBlock is_if vm = Inr vm'"
  shows "on_track vm0 vm' \<and> instruction_ptr vm \<le> instruction_ptr vm'"
proof -
  have ok: "code_ok vm" using assms(2) by (simp add: vm_ok_def)
  from SkipConditionalBlock_total [OF ok, of is_if] assms(4) have m: "moved vm vm'"
    by (auto split: if_splits)
  have "on_track vm0 vm'"
  proof (rule on_track_step [OF assms(1)])
    show "decode_success vm \<and> (\<exists>ops. code_at vm (instruction_ptr vm) ops (instruction_ptr vm'))"
      if "decode_success vm'"
      using skip_loop_follows [OF ok assms(3) _ that] assms(3,4)
      by (auto simp: SkipConditionalBlock_def simp del: skip_loop.simps split: if_splits)
  qed (use moved_num [OF m] in auto)
  with m show ?thesis by (simp add: moved_def)
qed

definition stays :: "DmntCheatVm \<Rightarrow> DmntCheatVm \<Rightarrow> DmntCheatVm \<Rightarrow> bool" where
  "stays vm0 vm vm' \<longleftrightarrow> on_track vm0 vm' \<and> instruction_ptr vm \<le> instruction_ptr vm'"

lemma staysI:
  "on_track vm0 vm \<Longrightarrow> num_opcodes vm' = num_opcodes vm \<Longrightarrow> cheat_program vm' = cheat_program vm \<Longrightarrow>
   instruction_ptr vm' = instruction_ptr vm \<Longrightarrow> decode_success vm' = decode_success vm \<Longrightarrow> stays vm0 vm vm'"
  by (simp add: stays_def on_track_def)

lemma reg_set_stays: "on_track vm0 vm \<Longrightarrow> reg_set i v vm = Inr vm' \<Longrightarrow> stays vm0 vm vm'"
  by (auto simp: reg_set_def bind_run_eq_Inr intro!: staysI)

lemma skip_unless_stays:
  "on_track vm0 (fst s) \<Longrightarrow> vm_ok (fst s) \<Longrightarrow> decode_success (fst s) \<Longrightarrow> skip_unless met s = Inr s' \<Longrightarrow>
   stays vm0 (fst s) (fst s')"
  using skip_on_track [of vm0 "fst s" True]
  by (auto simp: skip_unless_def bind_run_eq_Inr stays_def split: if_splits)

lemma stays_refl: "on_track vm0 vm \<Longrightarrow> stays vm0 vm vm"
  by (simp add: stays_def)

lemma saved_stays:
  "on_track vm0 vm \<Longrightarrow> stays vm0 vm (vm\<lparr>saved_values := vs\<rparr>)"
  "on_track vm0 vm \<Longrightarrow> stays vm0 vm (vm\<lparr>static_registers := vs\<rparr>)"
  "on_track vm0 vm \<Longrightarrow> stays vm0 vm (vm\<lparr>registers := vs\<rparr>)"
  "on_track vm0 vm \<Longrightarrow> stays vm0 vm (vm\<lparr>condition_depth := c\<rparr>)"
  by (rule staysI; simp)+

lemma skip_stays:
  "on_track vm0 vm \<Longrightarrow> vm_ok vm \<Longrightarrow> decode_success vm \<Longrightarrow> SkipConditionalBlock is_if vm = Inr vm' \<Longrightarrow>
   stays vm0 vm vm'"
  using skip_on_track by (simp add: stays_def)

lemma loop_start_stays:
  "on_track vm0 vm \<Longrightarrow> exec_ControlLoop True reg iters (vm, w) = Inr s' \<Longrightarrow> stays vm0 vm (fst s')"
  by (auto simp: exec_ControlLoop_def reg_set_def bind_run_eq_Inr intro!: staysI)

lemmas exec_defs = exec_StoreStatic_def exec_BeginConditional_def exec_EndConditional_def
  exec_LoadRegisterMemory_def exec_StoreStaticToAddress_def exec_PerformArithmeticStatic_def
  exec_BeginKeypressConditional_def exec_PerformArithmeticRegister_def exec_StoreRegisterToAddress_def
  exec_BeginRegisterConditional_def exec_SaveRestoreRegister_def exec_SaveRestoreRegisterMask_def
  exec_ReadWriteStaticRegister_def exec_DebugLog_def

lemma execute_opcode_stays:
  assumes "on_track vm0 vm" "vm_ok vm" "decode_success vm" "\<not> loop_end op"
    "execute_opcode cb metadata kDown op (vm, w) = Inr s'"
  shows "stays vm0 vm (fst s')"
proof (cases op)
  case (ControlLoopOpcode start r n)
  then show ?thesis using assms loop_start_stays [OF assms(1)] by (cases s') (auto simp: execute_opcode_def)
next
  case (EndConditionalOpcode els)
  then show ?thesis
    using assms skip_stays [OF assms(1-3)]
    by (auto simp: execute_opcode_def exec_EndConditional_def bind_run_eq_Inr stays_refl saved_stays
        split: if_splits)
next
  case (BeginConditionalOpcode w' m c a v)
  then show ?thesis
    using assms skip_unless_stays [of vm0 "(vm, _)"]
    by (cases s') (fastforce simp: execute_opcode_def exec_BeginConditional_def bind_run_eq_Inr)
next
  case (BeginKeypressConditionalOpcode k)
  then show ?thesis
    using assms skip_unless_stays [of vm0 "(vm, w)"]
    by (auto simp: execute_opcode_def exec_BeginKeypressConditional_def)
next
  case (BeginRegisterConditionalOpcode w' c vr ct m a oth ofs rel v)
  then show ?thesis
    using assms skip_unless_stays [of vm0 "(vm, _)"]
    by (cases s') (fastforce simp: execute_opcode_def exec_BeginRegisterConditional_def bind_run_eq_Inr)
next
  case (SaveRestoreRegisterOpcode d s' ty)
  then show ?thesis
    using assms reg_set_stays [OF assms(1)]
    by (auto simp: execute_opcode_def exec_SaveRestoreRegister_def bind_run_eq_Inr saved_stays
        split: SaveRestoreRegisterOpType.splits)
next
  case (SaveRestoreRegisterMaskOpcode ty ms)
  then show ?thesis
    using assms by (auto simp: execute_opcode_def exec_SaveRestoreRegisterMask_def bind_run_eq_Inr saved_stays
      split: if_splits)
qed (use assms reg_set_stays [OF assms(1)] in \<open>auto simp: execute_opcode_def exec_StoreStatic_def
    exec_LoadRegisterMemory_def exec_StoreStaticToAddress_def exec_PerformArithmeticStatic_def
    exec_PerformArithmeticRegister_def exec_StoreRegisterToAddress_def exec_ReadWriteStaticRegister_def
    exec_DebugLog_def bind_run_eq_Inr stays_refl saved_stays Let_def split: if_splits\<close>)

context cheat_callbacks
begin

lemma execute_loop_returns:
  assumes "st_ok I s" "on_track vm0 (fst s)" "loop_free vm0" "code_ok vm0"
    "num_opcodes vm0 - instruction_ptr (fst s) < fuel"
  shows "execute_loop fuel cb metadata kDown s \<noteq> Inl OutOfFuel"
  using assms
proof (induction fuel arbitrary: s)
  case (Suc fuel)
  obtain vm w where s: "s = (vm, w)" by (cases s)
  have ok: "code_ok vm" "vm_ok vm" "I w" using Suc.prems(1) s by (simp_all add: vm_ok_def st_ok_def)
  have track: "on_track vm0 vm" using Suc.prems(2) s by simp
  from DecodeNextOpcode_spec [OF ok(1)] obtain r vm1
    where d: "DecodeNextOpcode vm = Inr (r, vm1)" "moved vm vm1" "condition_depth vm1 = condition_depth vm"
      "case r of None \<Rightarrow> \<not> decode_success vm1
       | Some (b, op) \<Rightarrow> decode_success vm \<and> decode_success vm1 \<and>
           instruction_ptr vm < instruction_ptr vm1 \<and> opcode_ok op \<and> b = is_begin op" by blast
  show ?case
  proof (cases r)
    case None
    then show ?thesis using d(1) s by (simp add: execute_step_def)
  next
    case (Some x)
    obtain b op where x: "x = (b, op)" by (cases x)
    let ?vm2 = "if b then vm1\<lparr>condition_depth := condition_depth vm1 + 1\<rparr> else vm1"
    have one: "code_at vm (instruction_ptr vm) [op] (instruction_ptr vm1)"
      using decode_follows [OF ok(1)] d Some x by auto
    have track2: "on_track vm0 ?vm2"
    proof (rule on_track_step [OF track])
      show "decode_success vm \<and> (\<exists>ops. code_at vm (instruction_ptr vm) ops (instruction_ptr ?vm2))"
        using one d(4) Some x by (intro conjI exI [of _ "[op]"]) (simp_all del: code_at.simps)
    qed (use moved_num [OF d(2)] in simp_all)
    have ok2: "vm_ok ?vm2" "st_ok I (?vm2, w)" using vm_ok_moved [OF ok(2) d(2)] ok(3) by (simp_all add: st_ok_def)
    from track d(4) Some x obtain ops where "code_at vm0 0 ops (instruction_ptr vm)" by (auto simp: on_track_def)
    with one code_at_same_program [of vm vm0] track have lin: "code_at vm0 0 (ops @ [op]) (instruction_ptr vm1)"
      unfolding code_at_append by (auto simp: on_track_def simp del: code_at.simps)
    have "length (ops @ [op]) \<le> num_opcodes vm0"
      using code_at_length [OF lin Suc.prems(4)] code_at_bound [OF lin Suc.prems(4)] by simp
    with linear_code_complete [OF lin] Suc.prems(3) have nl: "\<not> loop_end op"
      by (auto simp: loop_free_def list_all_iff)
    show ?thesis
    proof (cases "execute_opcode cb metadata kDown op (?vm2, w)")
      case (Inl f)
      with execute_opcode_ok [OF ok2(2), of op metadata kDown] d(4) Some x
      have "f \<noteq> OutOfFuel" by auto
      with Inl d(1) Some x s show ?thesis by (simp add: execute_step_def Let_def)
    next
      case (Inr s')
      have "stays vm0 ?vm2 (fst s')"
        using execute_opcode_stays [OF track2 ok2(1) _ nl Inr] d(4) Some x by simp
      moreover have "st_ok I s'"
        using execute_opcode_ok [OF ok2(2), of op metadata kDown] d(4) Some x Inr by simp
      moreover have "instruction_ptr vm1 \<le> num_opcodes vm0"
        using d(2) track by (simp add: moved_def on_track_def)
      then have "num_opcodes vm0 - i < fuel" if "instruction_ptr vm1 \<le> i" for i
        using Suc.prems(5) d(4) Some x s that by (clarsimp, linarith)
      ultimately have "execute_loop fuel cb metadata kDown s' \<noteq> Inl OutOfFuel"
        using Suc.IH [of s'] Suc.prems(3,4) by (auto simp: stays_def split: if_splits)
      with Inr d(1) Some x s show ?thesis by (simp add: execute_step_def Let_def)
    qed
  qed
qed simp

lemma Execute_safe:
  assumes "vm_ok (ResetState vm)" "I w"
  shows "case Execute fuel cb metadata (vm, w) of
      Inl f \<Rightarrow> f = OutOfFuel \<or> f = ShiftOutOfRange \<or> f = UnreachableCode
    | Inr s' \<Rightarrow> st_ok I s'"
  using execute_loop_ok [of "(ResetState vm, snd (HidKeysDown cb w))" fuel metadata "fst (HidKeysDown cb w)"]
    assms keys_ok [of w]
  by (auto simp: Execute_def st_ok_def split_def split: sum.split)

lemma Execute_returns:
  assumes "vm_ok (ResetState vm)" "I w" "loop_free vm" "num_opcodes vm < fuel"
  shows "Execute fuel cb metadata (vm, w) \<noteq> Inl OutOfFuel"
proof -
  let ?s = "(ResetState vm, snd (HidKeysDown cb w))"
  have "on_track (vm\<lparr>instruction_ptr := 0\<rparr>) (ResetState vm)"
    by (auto simp: on_track_def ResetState_def intro!: exI [of _ "[]"])
  moreover have "code_ok (vm\<lparr>instruction_ptr := 0\<rparr>)"
    using assms(1) by (simp add: vm_ok_def code_ok_def ResetState_def)
  moreover have "linear_code n (vm\<lparr>instruction_ptr := 0\<rparr>) ip = linear_code n vm ip" for n ip
    by (induction n arbitrary: ip) (auto split: sum.split option.split)
  then have "loop_free (vm\<lparr>instruction_ptr := 0\<rparr>)" using assms(3) by (simp add: loop_free_def)
  ultimately have "execute_loop fuel cb metadata (fst (HidKeysDown cb w)) ?s \<noteq> Inl OutOfFuel"
    using execute_loop_returns [of ?s "vm\<lparr>instruction_ptr := 0\<rparr>" fuel metadata "fst (HidKeysDown cb w)"]
      assms keys_ok [of w] by (auto simp: ResetState_def st_ok_def)
  then show ?thesis by (simp add: Execute_def split_def)
qed

end

section \<open>Loading\<close>

text \<open>A cheat as the engine builds it: the opcode array has its 256 entries and the count stays inside.\<close>

definition entry_ok :: "CheatEntry \<Rightarrow> bool" where
  "entry_ok e \<longleftrightarrow> length (opcodes (cheat_definition e)) = 0x100 \<and> def_num_opcodes (cheat_definition e) \<le> 0x100"

definition entry_code :: "CheatEntry \<Rightarrow> u32 list" where
  "entry_code e = (if enabled e
     then take (unat (def_num_opcodes (cheat_definition e))) (opcodes (cheat_definition e)) else [])"

definition vm_shape :: "DmntCheatVm \<Rightarrow> bool" where
  "vm_shape vm \<longleftrightarrow> length (cheat_program vm) = MaximumProgramOpcodeCount \<and> length (static_registers vm) = 256 \<and>
     num_opcodes vm \<le> MaximumProgramOpcodeCount"

definition loaded :: "DmntCheatVm \<Rightarrow> u32 list" where
  "loaded vm = take (num_opcodes vm) (cheat_program vm)"

lemma ResetState_ok: "vm_shape vm \<Longrightarrow> vm_ok (ResetState vm)"
  by (simp add: vm_shape_def vm_ok_def ResetState_def code_ok_def NumRegisters_def)

lemma copy_opcodes_spec:
  assumes "vm_shape vm" "n + k \<le> length ops" "num_opcodes vm + k \<le> MaximumProgramOpcodeCount"
  shows "\<exists>vm'. copy_opcodes k n ops vm = Inr vm' \<and> vm_shape vm' \<and> num_opcodes vm' = num_opcodes vm + k \<and>
    loaded vm' = loaded vm @ take k (drop n ops)"
  using assms
proof (induction k arbitrary: n vm)
  case (Suc k)
  let ?vm = "vm\<lparr>cheat_program := (cheat_program vm)[num_opcodes vm := ops ! n], num_opcodes := num_opcodes vm + 1\<rparr>"
  have shape: "vm_shape ?vm" using Suc.prems by (simp add: vm_shape_def)
  have "copy_opcodes (Suc k) n ops vm = copy_opcodes k (Suc n) ops ?vm"
    using Suc.prems by (simp add: vm_shape_def)
  moreover have "loaded ?vm = loaded vm @ [ops ! n]"
    using Suc.prems by (simp add: loaded_def vm_shape_def take_Suc_conv_app_nth)
  ultimately show ?case
    using Suc.IH [OF shape, of "Suc n"] Suc.prems by (auto simp: Cons_nth_drop_Suc [symmetric])
qed (simp add: loaded_def)

lemma load_entries_spec:
  assumes "vm_shape vm" "list_all entry_ok es"
  shows "\<exists>ok vm'. load_entries es vm = Inr (ok, vm') \<and> vm_shape vm' \<and>
    (ok \<longleftrightarrow> num_opcodes vm + length (concat (map entry_code es)) \<le> MaximumProgramOpcodeCount) \<and>
    loaded vm' = (if ok then loaded vm @ concat (map entry_code es) else [])"
  using assms
proof (induction es arbitrary: vm)
  case (Cons e es)
  let ?n = "unat (def_num_opcodes (cheat_definition e))"
  have e: "length (opcodes (cheat_definition e)) = 256" "?n \<le> 256"
    using Cons.prems(2) by (auto simp: entry_ok_def word_le_nat_alt)
  show ?case
  proof (cases "enabled e")
    case False
    then have "entry_code e = []" by (simp add: entry_code_def)
    moreover from Cons.IH [OF Cons.prems(1)] Cons.prems(2) obtain ok vm'
      where "load_entries es vm = Inr (ok, vm') \<and> vm_shape vm' \<and>
        (ok \<longleftrightarrow> num_opcodes vm + length (concat (map entry_code es)) \<le> MaximumProgramOpcodeCount) \<and>
        loaded vm' = (if ok then loaded vm @ concat (map entry_code es) else [])" by auto
    ultimately show ?thesis using False by (intro exI [of _ ok] exI [of _ vm']) simp
  next
    case True
    then have code: "length (entry_code e) = ?n" using e by (simp add: entry_code_def)
    show ?thesis
    proof (cases "?n + num_opcodes vm > MaximumProgramOpcodeCount")
      case True
      with \<open>enabled e\<close> code Cons.prems(1) show ?thesis
        by (intro exI [of _ False] exI [of _ "vm\<lparr>num_opcodes := 0\<rparr>"]) (simp add: vm_shape_def loaded_def)
    next
      case False
      from copy_opcodes_spec [OF Cons.prems(1), of 0 ?n "opcodes (cheat_definition e)"] e False obtain vm1
        where vm1: "copy_opcodes ?n 0 (opcodes (cheat_definition e)) vm = Inr vm1" "vm_shape vm1"
          "num_opcodes vm1 = num_opcodes vm + ?n" "loaded vm1 = loaded vm @ entry_code e"
        using \<open>enabled e\<close> by (auto simp: entry_code_def)
      from Cons.IH [OF vm1(2)] Cons.prems(2) obtain ok vm2
        where "load_entries es vm1 = Inr (ok, vm2)" "vm_shape vm2"
          "ok \<longleftrightarrow> num_opcodes vm1 + length (concat (map entry_code es)) \<le> MaximumProgramOpcodeCount"
          "loaded vm2 = (if ok then loaded vm1 @ concat (map entry_code es) else [])" by auto
      with vm1 code False \<open>enabled e\<close> show ?thesis by (simp add: add.assoc)
    qed
  qed
qed (auto simp: vm_shape_def)

section \<open>Saving and restoring through a mask\<close>

lemma mask_loop_spec:
  assumes "length should = 16" "length src = 16" "length dst = 16" "i + n \<le> 16"
  shows "\<exists>r. mask_loop n i ty should src dst = Inr r \<and> length r = 16 \<and>
    (\<forall>j<16. r ! j = (if i \<le> j \<and> j < i + n \<and> should ! j
       then (if ty = ClearSaved \<or> ty = ClearRegs then 0 else src ! j) else dst ! j))"
  using assms
proof (induction n arbitrary: i dst)
  case (Suc n)
  let ?dst = "if should ! i then dst[i := if ty = ClearSaved \<or> ty = ClearRegs then 0 else src ! i] else dst"
  have len: "length ?dst = 16" using Suc.prems(3) by simp
  have "mask_loop (Suc n) i ty should src dst = mask_loop n (Suc i) ty should src ?dst"
    using Suc.prems by simp
  moreover obtain r where r: "mask_loop n (Suc i) ty should src ?dst = Inr r" "length r = 16"
    "\<forall>j<16. r ! j = (if Suc i \<le> j \<and> j < Suc i + n \<and> should ! j
       then (if ty = ClearSaved \<or> ty = ClearRegs then 0 else src ! j) else ?dst ! j)"
    using Suc.IH [of ?dst "Suc i"] Suc.prems(1,2,4) len by (metis (no_types, lifting) add_Suc add_Suc_right)
  moreover have "r ! j = (if i \<le> j \<and> j < i + Suc n \<and> should ! j
       then (if ty = ClearSaved \<or> ty = ClearRegs then 0 else src ! j) else dst ! j)" if "j < 16" for j
    using r(3) that Suc.prems by (cases "j = i") auto
  ultimately show ?case by auto
qed auto

lemma exec_mask_spec:
  assumes "vm_ok vm" "length should = 16"
  shows "\<exists>vm'. exec_SaveRestoreRegisterMask ty should (vm, w) = Inr (vm', w) \<and> vm_ok vm' \<and>
    (\<forall>j<16. if ty = Save \<or> ty = ClearSaved
       then registers vm' ! j = registers vm ! j \<and>
         saved_values vm' ! j =
           (if should ! j then (if ty = Save then registers vm ! j else 0) else saved_values vm ! j)
       else saved_values vm' ! j = saved_values vm ! j \<and>
         registers vm' ! j =
           (if should ! j then (if ty = ClearRegs then 0 else saved_values vm ! j) else registers vm ! j))"
proof (cases "ty = Save \<or> ty = ClearSaved")
  case True
  with mask_loop_spec [OF assms(2), of "registers vm" "saved_values vm" 0 16 ty] assms(1) show ?thesis
    by (auto simp: exec_SaveRestoreRegisterMask_def NumRegisters_def vm_ok_lengths)
next
  case False
  with mask_loop_spec [OF assms(2), of "saved_values vm" "registers vm" 0 16 ty] assms(1) show ?thesis
    by (auto simp: exec_SaveRestoreRegisterMask_def NumRegisters_def vm_ok_lengths)
qed

section \<open>Widths\<close>

lemma uint_apply_width:
  "valid_width width \<Longrightarrow> uint (apply_width width v) = uint v mod 2 ^ (8 * unat width)"
  using uint_lt2p [of v]
  by (auto simp: valid_width_def apply_width_def unsigned_ucast_eq take_bit_eq_mod uint_mod)

lemma static_math_mod:
  "m \<in> {Addition, Subtraction, Multiplication} \<Longrightarrow>
   \<exists>r. static_math m a b = Inr r \<and>
     uint r = (if m = Addition then uint a + uint b else if m = Subtraction then uint a - uint b
               else uint a * uint b) mod 2 ^ 64"
  by (auto simp: static_math_def uint_word_ariths)

section \<open>Properties\<close>

definition no_metadata :: CheatProcessMetadata where
  "no_metadata = (let z = \<lparr>extent_base = 0, extent_size = 0\<rparr>
     in \<lparr>metadata_process_id = 0, metadata_title_id = 0, main_nso_extents = z, heap_extents = z, alias_extents = z,
       aslr_extents = z, main_nso_build_id = replicate 0x20 0\<rparr>)"

text \<open>Callbacks whose memory is all zero and that record what the machine does, for concrete runs.\<close>

datatype cheat_event = Wrote u64 "u8 list" | Paused | Resumed | Logged u8 u64

definition tracing :: "u64 \<Rightarrow> (cheat_event list) Callbacks" where
  "tracing keys = \<lparr>MemoryReadUnsafe = (\<lambda>a n w. Inr (replicate n 0, w)),
     MemoryWriteUnsafe = (\<lambda>a bs w. Inr (w @ [Wrote a bs])),
     HidKeysDown = (\<lambda>w. (keys, w)), cb_PauseProcess = (\<lambda>w. w @ [Paused]),
     cb_ResumeProcess = (\<lambda>w. w @ [Resumed]), cb_DebugLog = (\<lambda>i v w. w @ [Logged i v])\<rparr>"

text \<open>C16: A conditional opcode runs or skips its own block: with its condition met the machine enters the body, otherwise
  it continues right behind the matching end (or inside the else), without touching registers, and memory only as the read of the operand leaves it.\<close>

theorem cheat_conditional_block:
  assumes "balanced body" "code_ok vm" "ip \<le> num_opcodes vm"
    "code_at vm ip [BeginConditionalOpcode width mt c rel v] ip1"
    "code_at vm ip1 (body @ [EndConditionalOpcode els]) ip2"
    "read_memory cb width (GetCheatProcessAddress metadata mt rel) 0 w = Inr (src_value, w')"
  shows "execute_step cb metadata kDown (vm_at vm ip depth, w) =
    Inr (True,
      (if cond_met c src_value (GetVmInt v width)
       then vm_at vm ip1 (Suc depth) else vm_at vm ip2 (if els then Suc depth else depth), w'))"
proof -
  have "(vm_at vm ip1 depth)\<lparr>condition_depth := condition_depth (vm_at vm ip1 depth) + 1\<rparr> = vm_at vm ip1 (Suc depth)"
    by (simp add: vm_at_def)
  then show ?thesis
    using decode_at(1) [OF assms(4,2,3), of depth]
      SkipConditionalBlock_to [OF assms(1,2) decode_at(3) [OF assms(4,2,3)] assms(5), of True depth] assms(6)
    by (simp add: execute_step_def execute_opcode_def exec_BeginConditional_def skip_unless_def Let_def)
qed

theorem cheat_conditional_block_witness:
  "execute_step (tracing 0) no_metadata 0 (vm_at (vm_with [0x11050000, 0, 5, 0xFF000000, 0x20000000]) 0 0, []) =
     Inr (True, (vm_at (vm_with [0x11050000, 0, 5, 0xFF000000, 0x20000000]) 5 0, []))"
proof -
  let ?vm = "vm_with [0x11050000, 0, 5, 0xFF000000, 0x20000000]"
  have "balanced [PauseProcessOpcode]" by (rule balanced_plain) (auto intro: balanced_Nil)
  moreover have "code_ok ?vm" by (simp add: code_ok_def vm_with_def new_vm_def MaximumProgramOpcodeCount_def)
  moreover have "code_at ?vm 0 [BeginConditionalOpcode 1 MainNso EQ 0 5] 3" by code_simp
  moreover have "code_at ?vm 3 ([PauseProcessOpcode] @ [EndConditionalOpcode False]) 5" by code_simp
  moreover have "read_memory (tracing 0) 1 (GetCheatProcessAddress no_metadata MainNso 0) 0 [] = Inr (0, [])" by code_simp
  moreover have "\<not> cond_met EQ 0 (GetVmInt 5 1)" by code_simp
  ultimately show ?thesis
    using cheat_conditional_block [of "[PauseProcessOpcode]" ?vm 0 1 MainNso EQ 0 5 3 False 5 "tracing 0" no_metadata "[]" 0 "[]" 0 0]
    by simp
qed

text \<open>C20: \<^verbatim>\<open>LoadProgram\<close> concatenates the code of the enabled cheats, in order; it fails, and leaves an empty program,
  exactly when that is more than 1024 words.  It never reads past a cheat's opcodes.\<close>

theorem cheat_load_program:
  assumes "vm_shape vm" "list_all entry_ok entries"
  shows "\<exists>ok vm'. LoadProgram entries vm = Inr (ok, vm') \<and> vm_shape vm' \<and>
    (ok \<longleftrightarrow> length (concat (map entry_code entries)) \<le> MaximumProgramOpcodeCount) \<and>
    loaded vm' = (if ok then concat (map entry_code entries) else [])"
proof -
  have "vm_shape (vm\<lparr>num_opcodes := 0\<rparr>)" using assms(1) by (simp add: vm_shape_def)
  from load_entries_spec [OF this assms(2)] obtain ok vm'
    where "load_entries entries (vm\<lparr>num_opcodes := 0\<rparr>) = Inr (ok, vm')" "vm_shape vm'"
      "ok \<longleftrightarrow> length (concat (map entry_code entries)) \<le> MaximumProgramOpcodeCount"
      "loaded vm' = (if ok then concat (map entry_code entries) else [])"
    by (auto simp: loaded_def)
  then show ?thesis by (intro exI [of _ ok] exI [of _ vm']) (simp add: LoadProgram_def)
qed

definition small_cheat :: "bool \<Rightarrow> u32 list \<Rightarrow> CheatEntry" where
  "small_cheat en ws = \<lparr>enabled = en, cheat_id = 0, cheat_definition =
     \<lparr>readable_name = [], def_num_opcodes = of_nat (length ws), opcodes = ws @ replicate (0x100 - length ws) 0\<rparr>\<rparr>"

theorem cheat_load_program_witness:
  "\<exists>vm'. LoadProgram [small_cheat True [0x20000000], small_cheat False [1], small_cheat True [0xFF000000]] new_vm =
     Inr (True, vm') \<and> loaded vm' = [0x20000000, 0xFF000000]"
proof -
  let ?es = "[small_cheat True [0x20000000], small_cheat False [1], small_cheat True [0xFF000000]]"
  have "vm_shape new_vm" by (simp add: vm_shape_def new_vm_def MaximumProgramOpcodeCount_def NumStaticRegisters_def)
  moreover have "list_all entry_ok ?es" by (simp add: small_cheat_def entry_ok_def)
  moreover have "concat (map entry_code ?es) = [0x20000000, 0xFF000000]" by (simp add: small_cheat_def entry_code_def)
  ultimately show ?thesis using cheat_load_program [of new_vm ?es] by (auto simp: MaximumProgramOpcodeCount_def)
qed

text \<open>Static arithmetic is arithmetic modulo the width: after an addition, subtraction or multiplication with a
  valid width the register holds the result on unbounded integers, reduced modulo \<open>2 ^ (8 * width)\<close>, and nothing
  else has changed.\<close>

theorem cheat_arithmetic_modulo_width:
  assumes "vm_ok vm" "unat reg < 16" "valid_width width" "m \<in> {Addition, Subtraction, Multiplication}"
  shows "\<exists>r. exec_PerformArithmeticStatic width reg m v (vm, w) =
      Inr (vm\<lparr>registers := (registers vm)[unat reg := r]\<rparr>, w) \<and>
    uint r = (let a = uint (registers vm ! unat reg); b = uint v
      in if m = Addition then a + b else if m = Subtraction then a - b else a * b) mod 2 ^ (8 * unat width)"
proof -
  have "uint (ucast v :: u64) = uint v" by (simp add: uint_up_ucast is_up)
  with static_math_mod [OF assms(4), of "registers vm ! unat reg" "ucast v"] obtain res
    where res: "static_math m (registers vm ! unat reg) (ucast v) = Inr res"
      "uint res = (let a = uint (registers vm ! unat reg); b = uint v
        in if m = Addition then a + b else if m = Subtraction then a - b else a * b) mod 2 ^ 64"
    by (auto simp: Let_def)
  have "8 * unat width \<le> 64" using assms(3) by (auto simp: valid_width_def)
  then have "(2 :: int) ^ (8 * unat width) dvd 2 ^ 64" by (rule le_imp_power_dvd)
  then have "uint (apply_width width res) = (let a = uint (registers vm ! unat reg); b = uint v
      in if m = Addition then a + b else if m = Subtraction then a - b else a * b) mod 2 ^ (8 * unat width)"
    unfolding uint_apply_width [OF assms(3)] res(2) by (rule mod_mod_cancel)
  with res(1) assms(1,2) show ?thesis
    by (intro exI [of _ "apply_width width res"]) (simp add: exec_PerformArithmeticStatic_def)
qed

theorem cheat_arithmetic_modulo_width_witness:
  "\<exists>r. exec_PerformArithmeticStatic 2 3 Subtraction 1 (ResetState new_vm, []) =
      Inr ((ResetState new_vm)\<lparr>registers := (registers (ResetState new_vm))[3 := r]\<rparr>, []) \<and> uint r = 0xFFFF"
proof -
  have "vm_ok (ResetState new_vm)"
    by (rule ResetState_ok)
      (simp add: vm_shape_def new_vm_def MaximumProgramOpcodeCount_def NumStaticRegisters_def)
  from cheat_arithmetic_modulo_width [OF this, of 3 2 Subtraction 1 "[]"] show ?thesis
    by (simp add: valid_width_def ResetState_def NumRegisters_def)
qed

text \<open>Saving a set of registers, running code that keeps the saved values, and restoring the same set brings
  back those registers and leaves the others alone.\<close>

theorem cheat_save_restore_mask:
  assumes "vm_ok vm" "vm_ok vm1" "length should = 16"
    "exec_SaveRestoreRegisterMask Save should (vm, w) = Inr (vm0, w)"
    "saved_values vm1 = saved_values vm0"
  shows "\<exists>vm2. exec_SaveRestoreRegisterMask Restore should (vm1, w1) = Inr (vm2, w1) \<and>
    (\<forall>j<16. registers vm2 ! j = (if should ! j then registers vm ! j else registers vm1 ! j))"
  using exec_mask_spec [OF assms(1,3), of Save w] exec_mask_spec [OF assms(2,3), of Restore w1] assms(4,5)
  by auto

theorem cheat_save_restore_mask_witness:
  "\<exists>vm0 vm2. exec_SaveRestoreRegisterMask Save (replicate 16 True) (ResetState new_vm, ()) = Inr (vm0, ()) \<and>
     exec_SaveRestoreRegisterMask Restore (replicate 16 True) (vm0\<lparr>registers := replicate 16 7\<rparr>, ()) = Inr (vm2, ()) \<and>
     (\<forall>j<16. registers vm2 ! j = 0)"
proof -
  have ok: "vm_ok (ResetState new_vm)"
    by (rule ResetState_ok)
      (simp add: vm_shape_def new_vm_def MaximumProgramOpcodeCount_def NumStaticRegisters_def)
  from exec_mask_spec [OF ok, of "replicate 16 True" Save "()"] obtain vm0
    where vm0: "exec_SaveRestoreRegisterMask Save (replicate 16 True) (ResetState new_vm, ()) = Inr (vm0, ())" "vm_ok vm0"
    by auto
  have ok1: "vm_ok (vm0\<lparr>registers := replicate 16 7\<rparr>)" using vm0(2) by simp
  from cheat_save_restore_mask [OF ok ok1 _ vm0(1), of "()"] vm0(1) show ?thesis
    by (auto simp: ResetState_def NumRegisters_def)
qed

text \<open>An else outside every block does reach the unreachable branch of \<^verbatim>\<open>SkipConditionalBlock\<close>: the program of
  the one word \<open>21000000\<close> stops every run there, for every embedder.\<close>

theorem cheat_stray_else_faults:
  "Execute (Suc n) cb metadata (vm_with [0x21000000], w) = Inl UnreachableCode"
proof -
  have "DecodeNextOpcode (ResetState (vm_with [0x21000000])) =
      Inr (Some (False, EndConditionalOpcode True), vm_at (ResetState (vm_with [0x21000000])) 1 0)" by code_simp
  then show ?thesis
    by (simp add: Execute_def execute_step_def execute_opcode_def exec_EndConditional_def SkipConditionalBlock_def
        vm_at_def split_def)
qed

end
