(* ===== verification/GuestMemory.thy ===== *)
theory GuestMemory
  imports Prelude
begin

text \<open>
  Guest memory as the emulator sees it (\<^verbatim>\<open>core/memory.cpp\<close>, \<^verbatim>\<open>common/page_table.h\<close>): page table entries that pack a host
  pointer with a page type, the page walk \<^verbatim>\<open>WalkBlock\<close>, and block reads and writes.  Host memory is a function from
  host addresses to bytes, so two guest pages may be backed by the same host page.  What the GPU does to host memory
  when it is told of a CPU read or write of a cached page is a parameter, two functions of the state; the properties
  are about memory of which the GPU holds no newer copy, where both change nothing.
\<close>

section \<open>Page table entries\<close>

datatype PageType = Unmapped | Memory | DebugMemory | RasterizerCachedMemory

definition PageType_bits :: "PageType \<Rightarrow> u64" where
  "PageType_bits t = (case t of Unmapped \<Rightarrow> 0 | Memory \<Rightarrow> 1 | DebugMemory \<Rightarrow> 2 | RasterizerCachedMemory \<Rightarrow> 3)"

definition ATTRIBUTE_BITS :: nat where "ATTRIBUTE_BITS = 2"

definition PageInfo_Store :: "u64 \<Rightarrow> PageType \<Rightarrow> u64" where
  "PageInfo_Store pointer t = pointer OR PageType_bits t"

definition ExtractPointer :: "u64 \<Rightarrow> u64" where
  "ExtractPointer raw = raw AND push_bit ATTRIBUTE_BITS (NOT 0)"

definition ExtractType :: "u64 \<Rightarrow> PageType" where
  "ExtractType raw =
     (let b = raw AND (push_bit ATTRIBUTE_BITS 1 - 1)
      in if b = 0 then Unmapped else if b = 1 then Memory else if b = 2 then DebugMemory
         else RasterizerCachedMemory)"

section \<open>State\<close>

definition SUYU_PAGEBITS :: nat where "SUYU_PAGEBITS = 12"
definition SUYU_PAGESIZE :: nat where "SUYU_PAGESIZE = 4096"

record GuestMemory =
  address_space_bits :: nat
  pointers :: "u64 list"
  backing_addr :: "u64 list"
  device_base :: u64
  HandleRasterizerDownload :: "nat \<Rightarrow> nat \<Rightarrow> (u64 \<Rightarrow> u8) \<Rightarrow> u64 \<Rightarrow> u8"
  HandleRasterizerWrite :: "nat \<Rightarrow> nat \<Rightarrow> (u64 \<Rightarrow> u8) \<Rightarrow> u64 \<Rightarrow> u8"
  host :: "u64 \<Rightarrow> u8"

definition AddressSpaceContains :: "GuestMemory \<Rightarrow> u64 \<Rightarrow> u64 \<Rightarrow> bool" where
  "AddressSpaceContains m addr sz \<longleftrightarrow>
     addr + sz \<ge> addr \<and> addr + sz \<le> push_bit (address_space_bits m) 1"

text \<open>\<^verbatim>\<open>DeviceMemory().GetPointer\<close> adds its argument to the base of the device memory.  No pointer is returned for a
  page without backing.\<close>

definition GetPointerFromRasterizerCachedMemory :: "GuestMemory \<Rightarrow> nat \<Rightarrow> u64 option run" where
  "GetPointerFromRasterizerCachedMemory m vaddr =
     bind_run (aget (backing_addr m) (int (vaddr div SUYU_PAGESIZE))) (\<lambda>paddr.
     Inr (if paddr = 0 then None else Some (device_base m + (paddr + of_nat vaddr))))"

definition GetPointerFromDebugMemory :: "GuestMemory \<Rightarrow> nat \<Rightarrow> u64 option run" where
  "GetPointerFromDebugMemory m vaddr =
     bind_run (aget (backing_addr m) (int (vaddr div SUYU_PAGESIZE))) (\<lambda>paddr.
     Inr (if paddr = 0 then None else Some (device_base m + (paddr + of_nat vaddr))))"

section \<open>The page walk\<close>

record 's walker =
  on_unmapped :: "nat \<Rightarrow> nat \<Rightarrow> 's \<Rightarrow> 's"
  on_memory :: "nat \<Rightarrow> u64 \<Rightarrow> 's \<Rightarrow> 's"
  on_rasterizer :: "nat \<Rightarrow> nat \<Rightarrow> u64 \<Rightarrow> 's \<Rightarrow> 's"
  increment :: "nat \<Rightarrow> 's \<Rightarrow> 's"

text \<open>One page of the walk: the page's type decides which callback sees the bytes.\<close>

definition walk_page ::
  "GuestMemory \<Rightarrow> 's walker \<Rightarrow> nat \<Rightarrow> nat \<Rightarrow> nat \<Rightarrow> bool \<Rightarrow> 's \<Rightarrow> (bool \<times> 's) run" where
  "walk_page m c page_index page_offset copy_amount user_accessible s =
     (let current_vaddr = page_index * SUYU_PAGESIZE + page_offset
      in bind_run (aget (pointers m) (int page_index)) (\<lambda>raw.
         case ExtractType raw of
           Unmapped \<Rightarrow> Inr (False, on_unmapped c copy_amount current_vaddr s)
         | Memory \<Rightarrow>
             Inr (user_accessible, on_memory c copy_amount (ExtractPointer raw + of_nat current_vaddr) s)
         | DebugMemory \<Rightarrow>
             bind_run (GetPointerFromDebugMemory m current_vaddr) (\<lambda>p.
             case p of None \<Rightarrow> Inl NullDeref
             | Some mem_ptr \<Rightarrow> Inr (user_accessible, on_memory c copy_amount mem_ptr s))
         | RasterizerCachedMemory \<Rightarrow>
             bind_run (GetPointerFromRasterizerCachedMemory m current_vaddr) (\<lambda>p.
             case p of None \<Rightarrow> Inl NullDeref
             | Some host_ptr \<Rightarrow> Inr (user_accessible, on_rasterizer c current_vaddr copy_amount host_ptr s))))"

function walk_pages ::
  "GuestMemory \<Rightarrow> 's walker \<Rightarrow> nat \<Rightarrow> nat \<Rightarrow> nat \<Rightarrow> bool \<Rightarrow> 's \<Rightarrow> (bool \<times> 's) run" where
  "walk_pages m c remaining_size page_index page_offset user_accessible s =
     (if remaining_size = 0 then Inr (user_accessible, s)
      else
        let copy_amount = min (SUYU_PAGESIZE - page_offset) remaining_size
        in bind_run (walk_page m c page_index page_offset copy_amount user_accessible s)
          (\<lambda>(accessible, s1).
           walk_pages m c (remaining_size - copy_amount) (page_index + 1) 0 accessible
             (increment c copy_amount s1)))"
  by pat_completeness auto
termination
  by (relation "measures [\<lambda>(m, c, r, i, ofs, u, s). r, \<lambda>(m, c, r, i, ofs, u, s). ofs]")
    (auto simp: SUYU_PAGESIZE_def)

definition WalkBlock :: "GuestMemory \<Rightarrow> 's walker \<Rightarrow> u64 \<Rightarrow> nat \<Rightarrow> 's \<Rightarrow> (bool \<times> 's) run" where
  "WalkBlock m c addr sz s =
     (if \<not> AddressSpaceContains m addr (of_nat sz)
      then Inr (False, on_unmapped c sz (unat addr) s)
      else walk_pages m c sz (unat addr div SUYU_PAGESIZE) (unat addr mod SUYU_PAGESIZE) True s)"

section \<open>Block reads and writes\<close>

definition host_bytes :: "(u64 \<Rightarrow> u8) \<Rightarrow> u64 \<Rightarrow> nat \<Rightarrow> u8 list" where
  "host_bytes h p n = map (\<lambda>i. h (p + of_nat i)) [0..<n]"

primrec host_store :: "u8 list \<Rightarrow> u64 \<Rightarrow> (u64 \<Rightarrow> u8) \<Rightarrow> (u64 \<Rightarrow> u8)" where
  "host_store [] p h = h"
| "host_store (b # bs) p h = host_store bs (p + 1) (h(p := b))"

text \<open>The destination of a read is the list of the bytes written to it so far.\<close>

definition read_walker :: "GuestMemory \<Rightarrow> ((u64 \<Rightarrow> u8) \<times> u8 list) walker" where
  "read_walker m = \<lparr>on_unmapped = (\<lambda>copy_amount current_vaddr (h, buf). (h, buf @ replicate copy_amount 0)),
     on_memory = (\<lambda>copy_amount src_ptr (h, buf). (h, buf @ host_bytes h src_ptr copy_amount)),
     on_rasterizer = (\<lambda>current_vaddr copy_amount host_ptr (h, buf).
       let h1 = HandleRasterizerDownload m current_vaddr copy_amount h
       in (h1, buf @ host_bytes h1 host_ptr copy_amount)),
     increment = (\<lambda>copy_amount s. s)\<rparr>"

definition ReadBlock :: "GuestMemory \<Rightarrow> u64 \<Rightarrow> nat \<Rightarrow> (bool \<times> u8 list \<times> GuestMemory) run" where
  "ReadBlock m src_addr sz =
     bind_run (WalkBlock m (read_walker m) src_addr sz (host m, [])) (\<lambda>(ok, (h, buf)).
     Inr (ok, buf, m\<lparr>host := h\<rparr>))"

text \<open>A write carries the rest of its source buffer.\<close>

definition write_walker :: "GuestMemory \<Rightarrow> ((u64 \<Rightarrow> u8) \<times> u8 list) walker" where
  "write_walker m = \<lparr>on_unmapped = (\<lambda>copy_amount current_vaddr s. s),
     on_memory = (\<lambda>copy_amount dest_ptr (h, src). (host_store (take copy_amount src) dest_ptr h, src)),
     on_rasterizer = (\<lambda>current_vaddr copy_amount host_ptr (h, src).
       (host_store (take copy_amount src) host_ptr (HandleRasterizerWrite m current_vaddr copy_amount h), src)),
     increment = (\<lambda>copy_amount (h, src). (h, drop copy_amount src))\<rparr>"

definition WriteBlock :: "GuestMemory \<Rightarrow> u64 \<Rightarrow> u8 list \<Rightarrow> (bool \<times> GuestMemory) run" where
  "WriteBlock m dest_addr src_buffer =
     bind_run (WalkBlock m (write_walker m) dest_addr (length src_buffer) (host m, src_buffer)) (\<lambda>(ok, (h, src)).
     Inr (ok, m\<lparr>host := h\<rparr>))"

definition IsValidVirtualAddress :: "GuestMemory \<Rightarrow> u64 \<Rightarrow> bool" where
  "IsValidVirtualAddress m vaddr =
     (let page = unat vaddr div SUYU_PAGESIZE
      in if page \<ge> length (pointers m) then False
         else let raw = pointers m ! page
           in ExtractPointer raw \<noteq> 0 \<or> ExtractType raw = RasterizerCachedMemory \<or> ExtractType raw = DebugMemory)"

section \<open>Behaviour\<close>

text \<open>The host address behind a guest byte.\<close>

definition host_of :: "GuestMemory \<Rightarrow> nat \<Rightarrow> u64 option" where
  "host_of m vaddr =
     (let raw = pointers m ! (vaddr div SUYU_PAGESIZE)
      in case ExtractType raw of
           Unmapped \<Rightarrow> None
         | Memory \<Rightarrow> Some (ExtractPointer raw + of_nat vaddr)
         | _ \<Rightarrow> Some (device_base m + (backing_addr m ! (vaddr div SUYU_PAGESIZE) + of_nat vaddr)))"

text \<open>The GPU has nothing to write back: what it is told of reads and writes does not change host memory.\<close>

definition gpu_quiet :: "GuestMemory \<Rightarrow> bool" where
  "gpu_quiet m \<longleftrightarrow> HandleRasterizerDownload m = (\<lambda>v n h. h) \<and> HandleRasterizerWrite m = (\<lambda>v n h. h)"

definition gm_ok :: "GuestMemory \<Rightarrow> bool" where
  "gm_ok m \<longleftrightarrow> SUYU_PAGEBITS \<le> address_space_bits m \<and> address_space_bits m < 64 \<and> gpu_quiet m \<and>
     length (pointers m) = 2 ^ (address_space_bits m - SUYU_PAGEBITS) \<and>
     list_all2 (\<lambda>raw paddr. ExtractType raw = DebugMemory \<or> ExtractType raw = RasterizerCachedMemory \<longrightarrow> paddr \<noteq> 0)
       (pointers m) (backing_addr m)"

definition guest_byte :: "GuestMemory \<Rightarrow> nat \<Rightarrow> u8" where
  "guest_byte m vaddr = (case host_of m vaddr of None \<Rightarrow> 0 | Some p \<Rightarrow> host m p)"

lemma page_of: "ofs < SUYU_PAGESIZE \<Longrightarrow> (page * SUYU_PAGESIZE + ofs) div SUYU_PAGESIZE = page"
  by (simp add: SUYU_PAGESIZE_def)

text \<open>Bytes of one page are consecutive in host memory.\<close>

lemma host_of_same_page:
  assumes "ofs + i < SUYU_PAGESIZE" "host_of m (page * SUYU_PAGESIZE + ofs) = Some p"
  shows "host_of m (page * SUYU_PAGESIZE + ofs + i) = Some (p + of_nat i)"
  using assms page_of [of "ofs + i" page] page_of [of ofs page]
  by (auto simp: host_of_def Let_def add.assoc split: PageType.splits)

lemma host_of_same_page_None:
  assumes "ofs + i < SUYU_PAGESIZE" "host_of m (page * SUYU_PAGESIZE + ofs) = None"
  shows "host_of m (page * SUYU_PAGESIZE + ofs + i) = None"
  using assms page_of [of "ofs + i" page] page_of [of ofs page]
  by (auto simp: host_of_def Let_def add.assoc split: PageType.splits)

text \<open>What the walk does with one page.\<close>

lemma walk_page_eq:
  assumes "gm_ok m" "page < length (pointers m)" "ofs < SUYU_PAGESIZE"
  shows "walk_page m c page ofs n acc s =
    Inr (case host_of m (page * SUYU_PAGESIZE + ofs) of
        None \<Rightarrow> (False, on_unmapped c n (page * SUYU_PAGESIZE + ofs) s)
      | Some p \<Rightarrow> (acc, if ExtractType (pointers m ! page) = RasterizerCachedMemory
          then on_rasterizer c (page * SUYU_PAGESIZE + ofs) n p s else on_memory c n p s))"
proof -
  have "page < length (backing_addr m)"
    "ExtractType (pointers m ! page) = DebugMemory \<or> ExtractType (pointers m ! page) = RasterizerCachedMemory \<longrightarrow>
       backing_addr m ! page \<noteq> 0"
    using assms(1,2) by (auto simp: gm_ok_def list_all2_conv_all_nth)
  then show ?thesis
    using assms(2) page_of [OF assms(3), of page]
    by (auto simp: walk_page_def host_of_def Let_def GetPointerFromDebugMemory_def
        GetPointerFromRasterizerCachedMemory_def split: PageType.split)
qed

lemma map_upt_split: "k \<le> n \<Longrightarrow> map f [0..<n] = map f [0..<k] @ map (\<lambda>i. f (k + i)) [0..<n - k]"
  by (rule nth_equalityI) (auto simp: nth_append)

lemma all_less_split: "k \<le> n \<Longrightarrow> (\<forall>i<n. P i) \<longleftrightarrow> (\<forall>i<k. P i) \<and> (\<forall>i<n - k. P (k + i :: nat))"
  by (metis add_diff_inverse_nat less_diff_conv2 not_less nat_le_iff_add add_less_cancel_left less_le_trans)

text \<open>The bytes of a guest range that lie in one page.\<close>

definition chunk :: "nat \<Rightarrow> nat \<Rightarrow> nat" where
  "chunk ofs n = min (SUYU_PAGESIZE - ofs) n"

lemma chunk_bounds:
  "ofs < SUYU_PAGESIZE \<Longrightarrow> 0 < n \<Longrightarrow> 0 < chunk ofs n"
  "ofs < SUYU_PAGESIZE \<Longrightarrow> ofs + chunk ofs n \<le> SUYU_PAGESIZE"
  "chunk ofs n \<le> n"
  "ofs < SUYU_PAGESIZE \<Longrightarrow> n - chunk ofs n \<noteq> 0 \<Longrightarrow>
     (page + 1) * SUYU_PAGESIZE = page * SUYU_PAGESIZE + ofs + chunk ofs n"
  by (auto simp: chunk_def)

lemma chunk_mapped:
  assumes "ofs < SUYU_PAGESIZE" "i < chunk ofs n"
  shows "host_of m (page * SUYU_PAGESIZE + ofs + i) =
    map_option (\<lambda>p. p + of_nat i) (host_of m (page * SUYU_PAGESIZE + ofs))"
proof -
  have "ofs + i < SUYU_PAGESIZE" using assms by (simp add: chunk_def less_diff_conv)
  then show ?thesis
    using host_of_same_page_None [of ofs i m page] host_of_same_page [of ofs i m page]
    by (cases "host_of m (page * SUYU_PAGESIZE + ofs)") simp_all
qed

declare walk_pages.simps [simp del]

lemma walk_pages_0 [simp]: "walk_pages m c 0 page ofs acc s = Inr (acc, s)"
  by (simp add: walk_pages.simps)

lemma walk_pages_step:
  assumes "gm_ok m" "0 < n" "(page * SUYU_PAGESIZE + ofs) + n \<le> length (pointers m) * SUYU_PAGESIZE"
    "ofs < SUYU_PAGESIZE"
  shows "walk_pages m c n page ofs acc s =
    (case host_of m (page * SUYU_PAGESIZE + ofs) of
       None \<Rightarrow> walk_pages m c (n - chunk ofs n) (page + 1) 0 False
         (increment c (chunk ofs n) (on_unmapped c (chunk ofs n) (page * SUYU_PAGESIZE + ofs) s))
     | Some p \<Rightarrow> walk_pages m c (n - chunk ofs n) (page + 1) 0 acc
         (increment c (chunk ofs n)
           (if ExtractType (pointers m ! page) = RasterizerCachedMemory
            then on_rasterizer c (page * SUYU_PAGESIZE + ofs) (chunk ofs n) p s
            else on_memory c (chunk ofs n) p s)))"
proof -
  have "page * SUYU_PAGESIZE < length (pointers m) * SUYU_PAGESIZE" using assms(2,3) by linarith
  then have page: "page < length (pointers m)" by simp
  show ?thesis
    using assms(2)
    by (simp add: walk_pages.simps [of m c n] walk_page_eq [OF assms(1) page assms(4)] chunk_def Let_def
        split: option.split)
qed

lemma read_pages:
  assumes "gm_ok m" "(page * SUYU_PAGESIZE + ofs) + n \<le> length (pointers m) * SUYU_PAGESIZE" "ofs < SUYU_PAGESIZE"
  shows "walk_pages m (read_walker m) n page ofs acc (host m, buf) =
    Inr (acc \<and> (\<forall>i<n. host_of m (page * SUYU_PAGESIZE + ofs + i) \<noteq> None),
      (host m, buf @ map (\<lambda>i. guest_byte m (page * SUYU_PAGESIZE + ofs + i)) [0..<n]))"
  using assms
proof (induction n arbitrary: page ofs acc buf rule: less_induct)
  case (less n)
  show ?case
  proof (cases "n = 0")
    case False
    let ?a = "page * SUYU_PAGESIZE + ofs"
    let ?k = "chunk ofs n"
    let ?c = "read_walker m"
    have quiet: "HandleRasterizerDownload m = (\<lambda>v n h. h)" using less.prems(1) by (simp add: gm_ok_def gpu_quiet_def)
    note k = chunk_bounds(1) [OF less.prems(3)] chunk_bounds(3) [of ofs n]
    have rest: "walk_pages m ?c (n - ?k) (page + 1) 0 acc' (host m, buf') =
      Inr (acc' \<and> (\<forall>i<n - ?k. host_of m (?a + (?k + i)) \<noteq> None),
        (host m, buf' @ map (\<lambda>i. guest_byte m (?a + (?k + i))) [0..<n - ?k]))" for acc' buf'
    proof (cases "n - ?k = 0")
      case rem: False
      note eq = chunk_bounds(4) [OF less.prems(3) rem, of page]
      have "n - ?k < n" using k(1) False by simp
      from less.IH [OF this less.prems(1), of "page + 1" 0 acc' buf'] less.prems(2) k(2) show ?thesis
        unfolding eq by (simp add: SUYU_PAGESIZE_def add.assoc)
    qed simp
    have split: "map (\<lambda>i. guest_byte m (?a + i)) [0..<n] =
        map (\<lambda>i. guest_byte m (?a + i)) [0..<?k] @ map (\<lambda>i. guest_byte m (?a + (?k + i))) [0..<n - ?k]"
      "(\<forall>i<n. host_of m (?a + i) \<noteq> None) \<longleftrightarrow>
        (\<forall>i<?k. host_of m (?a + i) \<noteq> None) \<and> (\<forall>i<n - ?k. host_of m (?a + (?k + i)) \<noteq> None)"
      using map_upt_split [OF k(2)] all_less_split [OF k(2)] by auto
    note step = walk_pages_step [OF less.prems(1) _ less.prems(2,3), of ?c acc "(host m, buf)"]
    show ?thesis
    proof (cases "host_of m ?a")
      case None
      have "map (\<lambda>i. guest_byte m (?a + i)) [0..<?k] = replicate ?k 0"
        using chunk_mapped [OF less.prems(3)] None by (intro nth_equalityI) (auto simp: guest_byte_def)
      with None step rest split False k(1) chunk_mapped [OF less.prems(3), of 0 n m page] show ?thesis
        by (auto simp: read_walker_def quiet)
    next
      case (Some p)
      have "map (\<lambda>i. guest_byte m (?a + i)) [0..<?k] = host_bytes (host m) p ?k"
        using chunk_mapped [OF less.prems(3)] Some by (auto simp: guest_byte_def host_bytes_def)
      with Some step rest split False chunk_mapped [OF less.prems(3)] show ?thesis
        by (auto simp: read_walker_def quiet)
    qed
  qed simp
qed

text \<open>Storing a range of guest bytes one by one.\<close>

primrec guest_store :: "GuestMemory \<Rightarrow> nat \<Rightarrow> u8 list \<Rightarrow> (u64 \<Rightarrow> u8) \<Rightarrow> (u64 \<Rightarrow> u8)" where
  "guest_store m a [] h = h"
| "guest_store m a (b # bs) h =
     guest_store m (a + 1) bs (case host_of m a of None \<Rightarrow> h | Some p \<Rightarrow> h(p := b))"

lemma guest_store_append:
  "guest_store m a (xs @ ys) h = guest_store m (a + length xs) ys (guest_store m a xs h)"
  by (induction xs arbitrary: a h) simp_all

lemma guest_store_mapped:
  assumes "\<And>i. i < length bs \<Longrightarrow> host_of m (a + i) = Some (p + of_nat i)"
  shows "guest_store m a bs h = host_store bs p h"
  using assms
proof (induction bs arbitrary: a p h)
  case (Cons b bs)
  have "host_of m a = Some p" using Cons.prems [of 0] by simp
  moreover have "host_of m (a + 1 + i) = Some (p + 1 + of_nat i)" if "i < length bs" for i
    using Cons.prems [of "Suc i"] that by (simp add: add.assoc)
  ultimately show ?case using Cons.IH [of "a + 1" "p + 1"] by simp
qed simp

lemma guest_store_unmapped:
  "(\<And>i. i < length bs \<Longrightarrow> host_of m (a + i) = None) \<Longrightarrow> guest_store m a bs h = h"
proof (induction bs arbitrary: a h)
  case (Cons b bs)
  have "host_of m a = None" using Cons.prems [of 0] by simp
  moreover have "host_of m (a + 1 + i) = None" if "i < length bs" for i
    using Cons.prems [of "Suc i"] that by (simp add: add.assoc)
  ultimately show ?case using Cons.IH [of "a + 1"] by simp
qed simp

lemma write_pages:
  assumes "gm_ok m" "(page * SUYU_PAGESIZE + ofs) + length src \<le> length (pointers m) * SUYU_PAGESIZE"
    "ofs < SUYU_PAGESIZE"
  shows "walk_pages m (write_walker m) (length src) page ofs acc (h, src) =
    Inr (acc \<and> (\<forall>i<length src. host_of m (page * SUYU_PAGESIZE + ofs + i) \<noteq> None),
      (guest_store m (page * SUYU_PAGESIZE + ofs) src h, []))"
  using assms
proof (induction "length src" arbitrary: page ofs acc h src rule: less_induct)
  case less
  show ?case
  proof (cases "src = []")
    case False
    let ?n = "length src"
    let ?a = "page * SUYU_PAGESIZE + ofs"
    let ?k = "chunk ofs ?n"
    have n: "0 < ?n" using False by simp
    have quiet: "HandleRasterizerWrite m = (\<lambda>v n h. h)" using less.prems(1) by (simp add: gm_ok_def gpu_quiet_def)
    note k = chunk_bounds(1) [OF less.prems(3) n] chunk_bounds(3) [of ofs ?n]
    have rest: "walk_pages m (write_walker m) (?n - ?k) (page + 1) 0 acc' (h', drop ?k src) =
      Inr (acc' \<and> (\<forall>i<?n - ?k. host_of m (?a + (?k + i)) \<noteq> None),
        (guest_store m (?a + ?k) (drop ?k src) h', []))" for acc' h'
    proof (cases "?n - ?k = 0")
      case rem: False
      note eq = chunk_bounds(4) [OF less.prems(3) rem, of page]
      have "length (drop ?k src) < length src" using k(1) n by simp
      from less.hyps [OF this less.prems(1), of "page + 1" 0 acc' h'] less.prems(2) k(2) show ?thesis
        unfolding eq by (simp add: SUYU_PAGESIZE_def add.assoc)
    qed simp
    have all: "(\<forall>i<?n. host_of m (?a + i) \<noteq> None) \<longleftrightarrow>
        (\<forall>i<?k. host_of m (?a + i) \<noteq> None) \<and> (\<forall>i<?n - ?k. host_of m (?a + (?k + i)) \<noteq> None)"
      using all_less_split [OF k(2)] by auto
    have store: "guest_store m ?a src h = guest_store m (?a + ?k) (drop ?k src) (guest_store m ?a (take ?k src) h)"
      using guest_store_append [of m ?a "take ?k src" "drop ?k src" h] k(2) by simp
    note step = walk_pages_step [OF less.prems(1) n less.prems(2,3), of "write_walker m" acc "(h, src)"]
    show ?thesis
    proof (cases "host_of m ?a")
      case None
      have "guest_store m ?a (take ?k src) h = h"
        using chunk_mapped [OF less.prems(3), of _ ?n m page] None by (intro guest_store_unmapped) simp
      with None step rest all store k(1) chunk_mapped [OF less.prems(3), of 0 ?n m page] show ?thesis
        by (auto simp: write_walker_def quiet)
    next
      case (Some p)
      have "guest_store m ?a (take ?k src) h = host_store (take ?k src) p h"
        using chunk_mapped [OF less.prems(3), of _ ?n m page] Some by (intro guest_store_mapped) simp
      with Some step rest all store chunk_mapped [OF less.prems(3), of _ ?n m page] show ?thesis
        by (auto simp: write_walker_def quiet)
    qed
  qed simp
qed

lemma guest_store_other:
  "(\<And>i. i < length bs \<Longrightarrow> host_of m (a + i) \<noteq> Some q) \<Longrightarrow> guest_store m a bs h q = h q"
proof (induction bs arbitrary: a h)
  case (Cons b bs)
  have "host_of m a \<noteq> Some q" using Cons.prems [of 0] by simp
  moreover have "host_of m (a + 1 + i) \<noteq> Some q" if "i < length bs" for i
    using Cons.prems [of "Suc i"] that by (simp add: add.assoc)
  ultimately show ?case using Cons.IH [of "a + 1"] by (auto split: option.split)
qed simp

lemma guest_store_nth:
  assumes "i < length bs" "host_of m (a + i) = Some p"
    "\<And>j. j < length bs \<Longrightarrow> host_of m (a + j) = Some p \<Longrightarrow> j = i"
  shows "guest_store m a bs h p = bs ! i"
  using assms
proof (induction bs arbitrary: a i h)
  case (Cons b bs)
  show ?case
  proof (cases i)
    case 0
    have "guest_store m (a + 1) bs h' p = h' p" for h'
    proof (rule guest_store_other)
      show "host_of m (a + 1 + j) \<noteq> Some p" if "j < length bs" for j
        using Cons.prems(3) [of "Suc j"] that 0 by (auto simp: add.assoc)
    qed
    with Cons.prems(2) 0 show ?thesis by simp
  next
    case (Suc k)
    have "guest_store m (a + 1) bs h' p = bs ! k" for h'
    proof (rule Cons.IH)
      show "k < length bs" "host_of m (a + 1 + k) = Some p" using Cons.prems(1,2) Suc by (simp_all add: add.assoc)
      show "j = k" if "j < length bs" "host_of m (a + 1 + j) = Some p" for j
        using Cons.prems(3) [of "Suc j"] that Suc by (simp add: add.assoc)
    qed
    then show ?thesis using Suc by simp
  qed
qed simp

lemma contains_bound:
  assumes "gm_ok m" "AddressSpaceContains m addr (of_nat n)" "n < 2 ^ 64"
  shows "unat addr + n \<le> length (pointers m) * SUYU_PAGESIZE"
proof -
  have "unat (addr + of_nat n) = unat addr + unat (of_nat n :: u64)"
    using assms(2) unat_plus_simple [of addr "of_nat n"] by (simp add: AddressSpaceContains_def)
  then have "unat (addr + of_nat n) = unat addr + n"
    using assms(3) by (simp add: unat_of_nat take_bit_nat_eq_self)
  moreover have "unat (of_nat (2 ^ address_space_bits m) :: u64) = 2 ^ address_space_bits m"
    using assms(1) power_strict_increasing [of "address_space_bits m" 64 "2 :: nat"]
    unfolding unat_of_nat by (simp add: gm_ok_def)
  ultimately have "unat addr + n \<le> 2 ^ address_space_bits m"
    using assms(2) by (simp add: AddressSpaceContains_def word_le_nat_alt)
  moreover have "length (pointers m) * SUYU_PAGESIZE = 2 ^ address_space_bits m"
  proof -
    have "address_space_bits m = (address_space_bits m - 12) + 12" using assms(1) by (simp add: gm_ok_def SUYU_PAGEBITS_def)
    then have "(2 :: nat) ^ address_space_bits m = 2 ^ (address_space_bits m - 12) * 2 ^ 12"
      by (metis power_add)
    then show ?thesis using assms(1) by (simp add: gm_ok_def SUYU_PAGEBITS_def SUYU_PAGESIZE_def)
  qed
  ultimately show ?thesis by simp
qed

lemma vaddr_split: "unat a div SUYU_PAGESIZE * SUYU_PAGESIZE + unat a mod SUYU_PAGESIZE = unat (a :: u64)"
  by simp

lemma ReadBlock_spec:
  assumes "gm_ok m" "n < 2 ^ 64"
  shows "ReadBlock m addr n = Inr
    (if AddressSpaceContains m addr (of_nat n)
     then (\<forall>i<n. host_of m (unat addr + i) \<noteq> None, map (\<lambda>i. guest_byte m (unat addr + i)) [0..<n], m)
     else (False, replicate n 0, m))"
proof (cases "AddressSpaceContains m addr (of_nat n)")
  case True
  from read_pages [OF assms(1), of "unat addr div SUYU_PAGESIZE" "unat addr mod SUYU_PAGESIZE" n True "[]"]
    contains_bound [OF assms(1) True assms(2)]
  show ?thesis using True
    unfolding vaddr_split by (simp add: ReadBlock_def WalkBlock_def SUYU_PAGESIZE_def)
qed (simp add: ReadBlock_def WalkBlock_def read_walker_def)

lemma WriteBlock_spec:
  assumes "gm_ok m" "length src < 2 ^ 64"
  shows "WriteBlock m addr src = Inr
    (if AddressSpaceContains m addr (of_nat (length src))
     then (\<forall>i<length src. host_of m (unat addr + i) \<noteq> None, m\<lparr>host := guest_store m (unat addr) src (host m)\<rparr>)
     else (False, m))"
proof (cases "AddressSpaceContains m addr (of_nat (length src))")
  case True
  from write_pages [OF assms(1), of "unat addr div SUYU_PAGESIZE" "unat addr mod SUYU_PAGESIZE" src True "host m"]
    contains_bound [OF assms(1) True assms(2)]
  show ?thesis using True
    unfolding vaddr_split by (simp add: WriteBlock_def WalkBlock_def SUYU_PAGESIZE_def)
qed (simp add: WriteBlock_def WalkBlock_def write_walker_def)

lemma host_of_update [simp]: "host_of (m\<lparr>host := h\<rparr>) a = host_of m a"
  by (simp add: host_of_def Let_def split: PageType.split)

lemma gm_ok_update [simp]: "gm_ok (m\<lparr>host := h\<rparr>) = gm_ok m"
  by (simp add: gm_ok_def gpu_quiet_def)

lemma contains_update [simp]: "AddressSpaceContains (m\<lparr>host := h\<rparr>) a n = AddressSpaceContains m a n"
  by (simp add: AddressSpaceContains_def)

section \<open>Properties\<close>

text \<open>A page table entry gives back the pointer and the type it was stored with, for every pointer aligned to the
  attribute bits.\<close>

theorem page_info_roundtrip:
  assumes "p AND 3 = 0"
  shows "ExtractPointer (PageInfo_Store p t) = p \<and> ExtractType (PageInfo_Store p t) = t"
proof -
  have low: "(p OR b) AND 3 = b AND 3" for b using assms by (simp add: bit.conj_disj_distrib2)
  have "p = p AND (3 OR NOT 3)" by simp
  also have "\<dots> = p AND NOT 3" using assms by (simp only: bit.conj_disj_distrib) simp
  finally have "p AND NOT 3 = p" by simp
  then have high: "(p OR b) AND NOT 3 = p OR (b AND NOT 3)" for b by (simp add: bit.conj_disj_distrib2)
  have mask: "push_bit ATTRIBUTE_BITS (NOT 0) = (NOT 3 :: u64)" "push_bit ATTRIBUTE_BITS 1 - 1 = (3 :: u64)"
    by (simp_all add: ATTRIBUTE_BITS_def mask_eq_exp_minus_1)
  show ?thesis
    unfolding ExtractPointer_def ExtractType_def PageInfo_Store_def mask low high
    by (cases t) (simp_all add: PageType_bits_def)
qed

theorem page_info_roundtrip_witness:
  "ExtractPointer (PageInfo_Store 0x7F0000001000 DebugMemory) = 0x7F0000001000 \<and>
   ExtractType (PageInfo_Store 0x7F0000001000 DebugMemory) = DebugMemory"
  by (rule page_info_roundtrip) simp

text \<open>C24: \<^verbatim>\<open>ReadBlock\<close> returns the guest bytes of the range, across page borders and page types, with zeros for the
  unmapped ones, and reports whether all of them were mapped; a range outside the address space reads as zeros.\<close>

theorem guest_read_block:
  assumes "gm_ok m" "n < 2 ^ 64"
  shows "ReadBlock m addr n = Inr
    (if AddressSpaceContains m addr (of_nat n)
     then (\<forall>i<n. host_of m (unat addr + i) \<noteq> None, map (\<lambda>i. guest_byte m (unat addr + i)) [0..<n], m)
     else (False, replicate n 0, m))"
  by (rule ReadBlock_spec [OF assms])

definition two_pages :: GuestMemory where
  "two_pages = \<lparr>address_space_bits = 13, pointers = [PageInfo_Store 0x10000 Memory, PageInfo_Store 0 DebugMemory],
     backing_addr = [0, 0x20000], device_base = 0x100000, HandleRasterizerDownload = (\<lambda>v n h. h),
     HandleRasterizerWrite = (\<lambda>v n h. h), host = (\<lambda>p. ucast p)\<rparr>"

lemma two_pages_ok: "gm_ok two_pages"
  by (simp add: gm_ok_def gpu_quiet_def two_pages_def SUYU_PAGEBITS_def PageInfo_Store_def PageType_bits_def ExtractType_def
      ATTRIBUTE_BITS_def)

lemma two_pages_host:
  "host_of two_pages 4095 = Some 0x10FFF" "host_of two_pages 4096 = Some 0x121000"
  by (simp_all add: host_of_def two_pages_def SUYU_PAGESIZE_def PageInfo_Store_def PageType_bits_def
      ExtractType_def ExtractPointer_def ATTRIBUTE_BITS_def Let_def mask_eq_exp_minus_1)

lemma two_pages_contains: "AddressSpaceContains two_pages 0xFFF 2"
  by (simp add: AddressSpaceContains_def two_pages_def)

theorem guest_read_block_witness:
  "ReadBlock two_pages 0xFFF 2 = Inr (True, [0xFF, 0], two_pages)"
proof -
  have "[0..<2] = [0, 1 :: nat]" by (simp add: upt_rec)
  moreover have "(\<forall>i<2. P i) \<longleftrightarrow> P 0 \<and> P (1 :: nat)" for P by (auto simp: less_2_cases_iff)
  ultimately show ?thesis
    using guest_read_block [OF two_pages_ok, of 2 "0xFFF"] two_pages_host two_pages_contains
    by (simp add: guest_byte_def two_pages_def)
qed

text \<open>C23: What \<^verbatim>\<open>WriteBlock\<close> wrote, \<^verbatim>\<open>ReadBlock\<close> returns: for a mapped range whose bytes have distinct host addresses the
  written bytes are read back, and every host byte that does not back the range keeps its value.\<close>

theorem guest_write_read:
  assumes "gm_ok m" "length src < 2 ^ 64" "AddressSpaceContains m addr (of_nat (length src))"
    "\<forall>i<length src. host_of m (unat addr + i) \<noteq> None"
    "inj_on (\<lambda>i. host_of m (unat addr + i)) {..<length src}"
  shows "\<exists>m'. WriteBlock m addr src = Inr (True, m') \<and> ReadBlock m' addr (length src) = Inr (True, src, m') \<and>
    (\<forall>q. (\<forall>i<length src. host_of m (unat addr + i) \<noteq> Some q) \<longrightarrow> host m' q = host m q)"
proof -
  let ?m = "m\<lparr>host := guest_store m (unat addr) src (host m)\<rparr>"
  have "guest_byte ?m (unat addr + i) = src ! i" if i: "i < length src" for i
  proof -
    from assms(4) i obtain p where p: "host_of m (unat addr + i) = Some p" by blast
    have "guest_store m (unat addr) src (host m) p = src ! i"
      by (rule guest_store_nth [OF i p]) (use assms(5) i p in \<open>auto simp: inj_on_def\<close>)
    with p show ?thesis by (simp add: guest_byte_def)
  qed
  then have "map (\<lambda>i. guest_byte ?m (unat addr + i)) [0..<length src] = src" by (intro nth_equalityI) simp_all
  then have "ReadBlock ?m addr (length src) = Inr (True, src, ?m)"
    using ReadBlock_spec [of ?m "length src" addr] assms(1-4) by simp
  moreover have "WriteBlock m addr src = Inr (True, ?m)" using WriteBlock_spec [OF assms(1,2)] assms(3,4) by simp
  moreover have "host ?m q = host m q" if "\<forall>i<length src. host_of m (unat addr + i) \<noteq> Some q" for q
    using guest_store_other [of src m "unat addr" q] that by simp
  ultimately show ?thesis by blast
qed

theorem guest_write_read_witness:
  "\<exists>m'. WriteBlock two_pages 0xFFF [1, 2] = Inr (True, m') \<and> ReadBlock m' 0xFFF 2 = Inr (True, [1, 2], m')"
proof -
  let ?src = "[1, 2] :: u8 list"
  have "\<forall>i<length ?src. host_of two_pages (unat (0xFFF :: u64) + i) \<noteq> None"
    "inj_on (\<lambda>i. host_of two_pages (unat (0xFFF :: u64) + i)) {..<length ?src}"
    using two_pages_host by (auto simp: inj_on_def less_Suc_eq)
  moreover have "AddressSpaceContains two_pages 0xFFF (of_nat (length ?src))" using two_pages_contains by simp
  ultimately have "\<exists>m'. WriteBlock two_pages 0xFFF ?src = Inr (True, m') \<and>
      ReadBlock m' 0xFFF (length ?src) = Inr (True, ?src, m')"
    using guest_write_read [OF two_pages_ok, of ?src "0xFFF"] by auto
  then show ?thesis by (simp add: numeral_2_eq_2)
qed

end
