(* ===== verification/CheatEngine.thy ===== *)
theory CheatEngine
  imports CheatVm GuestMemory
begin

text \<open>
  The cheat engine around the virtual machine (\<^verbatim>\<open>core/memory/cheat_engine.cpp\<close>): the callbacks that connect it to guest
  memory, the parser of text cheats, and the frame callback.  The system is the record \<open>System\<close>; what a process reports of
  its address space is the record \<open>ProcessLayout\<close>.
\<close>

section \<open>The standard callbacks\<close>

record System =
  ApplicationMemory :: GuestMemory
  process_paused :: bool
  hid_available :: bool
  press_state :: u64
  debug_lines :: "(u8 \<times> u64) list"
  invalidated_code :: "(u64 \<times> nat) list"

definition in_extents :: "u64 \<Rightarrow> MemoryRegionExtents \<Rightarrow> bool" where
  "in_extents a e \<longleftrightarrow> \<not> (a < extent_base e \<or> a \<ge> extent_base e + extent_size e)"

definition IsAddressInRange :: "CheatProcessMetadata \<Rightarrow> u64 \<Rightarrow> bool" where
  "IsAddressInRange metadata a \<longleftrightarrow>
     in_extents a (main_nso_extents metadata) \<or> in_extents a (heap_extents metadata) \<or>
     in_extents a (alias_extents metadata) \<or> in_extents a (aslr_extents metadata)"

definition std_MemoryReadUnsafe :: "CheatProcessMetadata \<Rightarrow> u64 \<Rightarrow> nat \<Rightarrow> System \<Rightarrow> (u8 list \<times> System) run" where
  "std_MemoryReadUnsafe metadata address sz sys =
     (if \<not> IsAddressInRange metadata address \<or> \<not> IsValidVirtualAddress (ApplicationMemory sys) address
      then Inr (replicate sz 0, sys)
      else bind_run (ReadBlock (ApplicationMemory sys) address sz) (\<lambda>(ok, bytes, m).
        Inr (bytes, sys\<lparr>ApplicationMemory := m\<rparr>)))"

definition std_MemoryWriteUnsafe :: "CheatProcessMetadata \<Rightarrow> u64 \<Rightarrow> u8 list \<Rightarrow> System \<Rightarrow> System run" where
  "std_MemoryWriteUnsafe metadata address bytes sys =
     (if \<not> IsAddressInRange metadata address \<or> \<not> IsValidVirtualAddress (ApplicationMemory sys) address
      then Inr sys
      else bind_run (WriteBlock (ApplicationMemory sys) address bytes) (\<lambda>(ok, m).
        Inr (if ok then sys\<lparr>ApplicationMemory := m, invalidated_code := invalidated_code sys @ [(address, length bytes)]\<rparr>
             else sys\<lparr>ApplicationMemory := m\<rparr>)))"

definition std_HidKeysDown :: "System \<Rightarrow> u64 \<times> System" where
  "std_HidKeysDown sys =
     (if \<not> hid_available sys then (0, sys)
      else (press_state sys AND 0xFFFFFFFFFFFFFFFF, sys\<lparr>press_state := 0\<rparr>))"

definition std_PauseProcess :: "System \<Rightarrow> System" where
  "std_PauseProcess sys = (if process_paused sys then sys else sys\<lparr>process_paused := True\<rparr>)"

definition std_ResumeProcess :: "System \<Rightarrow> System" where
  "std_ResumeProcess sys = (if \<not> process_paused sys then sys else sys\<lparr>process_paused := False\<rparr>)"

definition std_DebugLog :: "u8 \<Rightarrow> u64 \<Rightarrow> System \<Rightarrow> System" where
  "std_DebugLog i v sys = sys\<lparr>debug_lines := debug_lines sys @ [(i, v)]\<rparr>"

definition StandardVmCallbacks :: "CheatProcessMetadata \<Rightarrow> System Callbacks" where
  "StandardVmCallbacks metadata = \<lparr>MemoryReadUnsafe = std_MemoryReadUnsafe metadata,
     MemoryWriteUnsafe = std_MemoryWriteUnsafe metadata, HidKeysDown = std_HidKeysDown,
     cb_PauseProcess = std_PauseProcess, cb_ResumeProcess = std_ResumeProcess, cb_DebugLog = std_DebugLog\<rparr>"

section \<open>Text cheats\<close>

definition is_space :: "char \<Rightarrow> bool" where
  "is_space c \<longleftrightarrow> c = CHR '' '' \<or> (9 \<le> (of_char c :: nat) \<and> (of_char c :: nat) \<le> 13)"

definition digit_value :: "char \<Rightarrow> nat option" where
  "digit_value c =
     (let n = of_char c :: nat
      in if 48 \<le> n \<and> n \<le> 57 then Some (n - 48)
         else if 65 \<le> n \<and> n \<le> 70 then Some (n - 55)
         else if 97 \<le> n \<and> n \<le> 102 then Some (n - 87) else None)"

definition is_xdigit :: "char \<Rightarrow> bool" where
  "is_xdigit c \<longleftrightarrow> digit_value c \<noteq> None"

text \<open>\<^verbatim>\<open>strtoul\<close> in base 16 on hexadecimal digits only.\<close>

definition hex_value :: "string \<Rightarrow> nat" where
  "hex_value hex = foldl (\<lambda>n c. 16 * n + (case digit_value c of Some d \<Rightarrow> d | None \<Rightarrow> 0)) 0 hex"

text \<open>The loop of \<^verbatim>\<open>ExtractName\<close>: \<open>data[end_index]\<close> is read before \<open>end_index\<close> is compared with the size.\<close>

function find_match :: "string \<Rightarrow> nat \<Rightarrow> char \<Rightarrow> nat option run" where
  "find_match data end_index c =
     (if end_index \<ge> length data then Inl OutOfBounds
      else if data ! end_index = c then Inr (Some end_index)
      else if end_index + 1 > length data then Inr None
      else find_match data (end_index + 1) c)"
  by pat_completeness auto
termination
  by (relation "measure (\<lambda>(data, end_index, c). length data - end_index)") auto

definition ExtractName :: "string \<Rightarrow> nat \<Rightarrow> char \<Rightarrow> (nat \<times> string) run" where
  "ExtractName data start_index c =
     bind_run (find_match data start_index c) (\<lambda>found.
     case found of
       None \<Rightarrow> Inr (0, [])
     | Some end_index \<Rightarrow>
         let out_name_size = end_index - start_index;
             end1 = (if out_name_size > 0x40 then start_index + 0x40 else end_index)
         in Inr (out_name_size, take (end1 - start_index) (drop start_index data)))"

definition new_entry :: CheatEntry where
  "new_entry = \<lparr>enabled = False, cheat_id = 0, cheat_definition =
     \<lparr>readable_name = replicate 0x40 CHR 0x00, def_num_opcodes = 0, opcodes = replicate 0x100 0\<rparr>\<rparr>"

definition set_name :: "string \<Rightarrow> CheatEntry \<Rightarrow> CheatEntry" where
  "set_name name e =
     (let old = readable_name (cheat_definition e);
          n = min (length old) (length name);
          copied = take n name @ drop n old
      in e\<lparr>cheat_definition := (cheat_definition e)\<lparr>readable_name := copied[length old - 1 := CHR 0x00]\<rparr>\<rparr>)"

text \<open>A digit: one opcode of up to eight digits appended to the current entry, or the parse fails.\<close>

definition parse_opcode :: "string \<Rightarrow> nat \<Rightarrow> CheatEntry \<Rightarrow> CheatEntry option run" where
  "parse_opcode data i e =
     (let d = cheat_definition e; hex = take 8 (drop i data)
      in if unat (def_num_opcodes d) \<ge> length (opcodes d) then Inr None
         else if \<not> list_all is_xdigit hex then Inr None
         else bind_run (aset (opcodes d) (uint (def_num_opcodes d)) (of_nat (hex_value hex))) (\<lambda>ops.
           Inr (Some (e\<lparr>cheat_definition := d\<lparr>opcodes := ops, def_num_opcodes := def_num_opcodes d + 1\<rparr>\<rparr>))))"

text \<open>\<open>None\<close> is the empty vector every malformed file yields.  A name's length is added to \<open>i\<close>, an opcode advances it by eight;
  the loop's own increment comes on top.\<close>

function parse_loop :: "string \<Rightarrow> nat \<Rightarrow> CheatEntry list \<Rightarrow> nat option \<Rightarrow> CheatEntry list option run" where
  "parse_loop data i out current_entry =
     (if i \<ge> length data then Inr (Some out)
      else if is_space (data ! i) then parse_loop data (i + 1) out current_entry
      else if data ! i = CHR ''{'' then
        (case aget out 0 of
           Inl f \<Rightarrow> Inl f
         | Inr e \<Rightarrow>
             if def_num_opcodes (cheat_definition e) > 0 then Inr None
             else (case ExtractName data (i + 1) CHR ''}'' of
                 Inl f \<Rightarrow> Inl f
               | Inr (name_size, name) \<Rightarrow>
                   if name = [] then Inr None
                   else parse_loop data (i + name_size + 2) (out[0 := set_name name e]) (Some 0)))
      else if data ! i = CHR ''['' then
        (case ExtractName data (i + 1) CHR '']'' of
           Inl f \<Rightarrow> Inl f
         | Inr (name_size, name) \<Rightarrow>
             if name = [] then Inr None
             else parse_loop data (i + name_size + 2) (out @ [set_name name new_entry]) (Some (length out)))
      else if is_xdigit (data ! i) then
        (case current_entry of
           None \<Rightarrow> Inr None
         | Some cur \<Rightarrow>
             (case aget out (int cur) of
                Inl f \<Rightarrow> Inl f
              | Inr e \<Rightarrow>
                  (case parse_opcode data i e of
                     Inl f \<Rightarrow> Inl f
                   | Inr None \<Rightarrow> Inr None
                   | Inr (Some e1) \<Rightarrow> parse_loop data (i + 9) (out[cur := e1]) current_entry)))
      else Inr None)"
  by pat_completeness auto
termination
  by (relation "measure (\<lambda>(data, i, out, cur). length data - i)") auto

definition Parse :: "string \<Rightarrow> CheatEntry list run" where
  "Parse data =
     bind_run (parse_loop data 0 [new_entry] None) (\<lambda>parsed.
     case parsed of
       None \<Rightarrow> Inr []
     | Some out \<Rightarrow> Inr (map (\<lambda>(i, e). e\<lparr>enabled := def_num_opcodes (cheat_definition e) > 0, cheat_id := of_nat i\<rparr>)
         (enumerate 0 out)))"

section \<open>The engine\<close>

record CheatEngine =
  engine_vm :: DmntCheatVm
  engine_metadata :: CheatProcessMetadata
  cheats :: "CheatEntry list"
  is_pending_reload :: bool
  event_scheduled :: bool

definition new_CheatEngine :: "CheatEntry list \<Rightarrow> u8 list \<Rightarrow> CheatEngine" where
  "new_CheatEngine entries build_id = \<lparr>engine_vm = new_vm,
     engine_metadata = no_metadata\<lparr>main_nso_build_id := build_id\<rparr>, cheats = entries, is_pending_reload = False,
     event_scheduled = False\<rparr>"

text \<open>What \<^verbatim>\<open>Initialize\<close> asks the process for is the record \<open>ProcessLayout\<close>.\<close>

record ProcessLayout =
  process_id :: u64
  program_id :: u64
  heap_region :: MemoryRegionExtents
  alias_code_region :: MemoryRegionExtents
  alias_region :: MemoryRegionExtents

definition CheatEngine_Initialize :: "ProcessLayout \<Rightarrow> CheatEngine \<Rightarrow> CheatEngine" where
  "CheatEngine_Initialize p e =
     e\<lparr>event_scheduled := True,
       engine_metadata := (engine_metadata e)\<lparr>metadata_process_id := process_id p, metadata_title_id := program_id p,
         heap_extents := heap_region p, aslr_extents := alias_code_region p, alias_extents := alias_region p\<rparr>,
       is_pending_reload := True\<rparr>"

definition SetMainMemoryParameters :: "u64 \<Rightarrow> u64 \<Rightarrow> CheatEngine \<Rightarrow> CheatEngine" where
  "SetMainMemoryParameters main_region_begin main_region_size e =
     e\<lparr>engine_metadata := (engine_metadata e)\<lparr>main_nso_extents :=
       \<lparr>extent_base = main_region_begin, extent_size = main_region_size\<rparr>\<rparr>\<rparr>"

definition Reload :: "CheatEntry list \<Rightarrow> CheatEngine \<Rightarrow> CheatEngine" where
  "Reload reload_cheats e = e\<lparr>cheats := reload_cheats, is_pending_reload := True\<rparr>"

definition FrameCallback :: "nat \<Rightarrow> CheatEngine \<times> System \<Rightarrow> (CheatEngine \<times> System) run" where
  "FrameCallback fuel s =
     (case s of (e, sys) \<Rightarrow>
        bind_run (if is_pending_reload e then
            bind_run (LoadProgram (cheats e) (engine_vm e)) (\<lambda>(ok, vm).
            Inr (e\<lparr>engine_vm := vm, is_pending_reload := False\<rparr>))
          else Inr e) (\<lambda>e1.
        if num_opcodes (engine_vm e1) = 0 then Inr (e1, sys)
        else
          bind_run (Execute fuel (StandardVmCallbacks (engine_metadata e1)) (engine_metadata e1) (engine_vm e1, sys))
            (\<lambda>(vm, sys1). Inr (e1\<lparr>engine_vm := vm\<rparr>, sys1))))"

section \<open>The callbacks keep memory well formed\<close>

definition sys_ok :: "System \<Rightarrow> bool" where
  "sys_ok sys \<longleftrightarrow> gm_ok (ApplicationMemory sys)"

lemma std_read_ok: "sys_ok sys \<Longrightarrow> n \<le> 8 \<Longrightarrow> \<exists>bs. std_MemoryReadUnsafe metadata a n sys = Inr (bs, sys)"
  using ReadBlock_spec [of "ApplicationMemory sys" n a] by (simp add: std_MemoryReadUnsafe_def sys_ok_def)

lemma std_write_eq:
  assumes "sys_ok sys" "length bs \<le> 8"
  shows "\<exists>h ic. std_MemoryWriteUnsafe metadata a bs sys =
      Inr (sys\<lparr>ApplicationMemory := (ApplicationMemory sys)\<lparr>host := h\<rparr>, invalidated_code := ic\<rparr>) \<and>
    (\<forall>q. h q \<noteq> host (ApplicationMemory sys) q \<longrightarrow> IsAddressInRange metadata a \<and>
       (\<exists>i<length bs. host_of (ApplicationMemory sys) (unat a + i) = Some q))"
proof -
  let ?m = "ApplicationMemory sys"
  have same: "sys\<lparr>ApplicationMemory := ?m\<lparr>host := host ?m\<rparr>, invalidated_code := invalidated_code sys\<rparr> = sys" by simp
  show ?thesis
  proof (cases "IsAddressInRange metadata a \<and> IsValidVirtualAddress ?m a \<and> AddressSpaceContains ?m a (of_nat (length bs))")
    case True
    let ?h = "guest_store ?m (unat a) bs (host ?m)"
    have reached: "\<forall>q. ?h q \<noteq> host ?m q \<longrightarrow> (\<exists>i<length bs. host_of ?m (unat a + i) = Some q)"
      using guest_store_other [of bs ?m "unat a" _ "host ?m"] by blast
    from True WriteBlock_spec [of ?m bs a] assms obtain ok where ok: "WriteBlock ?m a bs = Inr (ok, ?m\<lparr>host := ?h\<rparr>)"
      by (auto simp: sys_ok_def)
    define ic where "ic = (if ok then invalidated_code sys @ [(a, length bs)] else invalidated_code sys)"
    have "std_MemoryWriteUnsafe metadata a bs sys = Inr (sys\<lparr>ApplicationMemory := ?m\<lparr>host := ?h\<rparr>, invalidated_code := ic\<rparr>)"
      using True ok by (simp add: std_MemoryWriteUnsafe_def ic_def)
    with reached True show ?thesis by (intro exI conjI) auto
  next
    case False
    then have "std_MemoryWriteUnsafe metadata a bs sys = Inr sys"
      using WriteBlock_spec [of ?m bs a] assms by (auto simp: std_MemoryWriteUnsafe_def sys_ok_def)
    with same show ?thesis by metis
  qed
qed

lemma std_write_ok:
  assumes "sys_ok sys" "length bs \<le> 8"
  shows "\<exists>sys'. std_MemoryWriteUnsafe metadata a bs sys = Inr sys' \<and> sys_ok sys'"
proof -
  from std_write_eq [OF assms, of metadata a] obtain h ic
    where "std_MemoryWriteUnsafe metadata a bs sys =
      Inr (sys\<lparr>ApplicationMemory := (ApplicationMemory sys)\<lparr>host := h\<rparr>, invalidated_code := ic\<rparr>)" by blast
  then show ?thesis using assms(1) by (simp add: sys_ok_def)
qed

lemma std_silent_ok:
  "sys_ok sys \<Longrightarrow> sys_ok (snd (std_HidKeysDown sys))" "sys_ok sys \<Longrightarrow> sys_ok (std_PauseProcess sys)"
  "sys_ok sys \<Longrightarrow> sys_ok (std_ResumeProcess sys)" "sys_ok sys \<Longrightarrow> sys_ok (std_DebugLog i v sys)"
  by (simp_all add: sys_ok_def std_HidKeysDown_def std_PauseProcess_def std_ResumeProcess_def std_DebugLog_def)

interpretation std: cheat_callbacks "StandardVmCallbacks metadata" sys_ok for metadata
proof
  fix w n a assume "sys_ok w" "n \<le> (8 :: nat)"
  then show "\<exists>bs w'. MemoryReadUnsafe (StandardVmCallbacks metadata) a n w = Inr (bs, w') \<and> sys_ok w'"
    using std_read_ok [of w n metadata a] by (auto simp: StandardVmCallbacks_def)
qed (simp_all add: StandardVmCallbacks_def std_write_ok std_silent_ok)

text \<open>The host bytes a cheat can reach: those behind eight bytes from an address in one of the extents.\<close>

definition cheat_reach :: "CheatProcessMetadata \<Rightarrow> GuestMemory \<Rightarrow> u64 set" where
  "cheat_reach metadata m =
     {q. \<exists>a i. IsAddressInRange metadata a \<and> i < 8 \<and> host_of m (unat a + i) = Some q}"

definition confined :: "CheatProcessMetadata \<Rightarrow> GuestMemory \<Rightarrow> System \<Rightarrow> bool" where
  "confined metadata m sys \<longleftrightarrow> gm_ok m \<and> (\<exists>h. ApplicationMemory sys = m\<lparr>host := h\<rparr> \<and>
     (\<forall>q. q \<notin> cheat_reach metadata m \<longrightarrow> h q = host m q))"

lemma confined_sys_ok: "confined metadata m sys \<Longrightarrow> sys_ok sys"
  by (auto simp: confined_def sys_ok_def)

lemma confined_write:
  assumes "confined metadata m sys" "length bs \<le> 8"
  shows "\<exists>sys'. std_MemoryWriteUnsafe metadata a bs sys = Inr sys' \<and> confined metadata m sys'"
proof -
  from assms(1) obtain h where h: "ApplicationMemory sys = m\<lparr>host := h\<rparr>" "gm_ok m"
    "\<forall>q. q \<notin> cheat_reach metadata m \<longrightarrow> h q = host m q" by (auto simp: confined_def)
  from std_write_eq [OF confined_sys_ok [OF assms(1)] assms(2), of metadata a] h(1) obtain h' ic
    where h': "std_MemoryWriteUnsafe metadata a bs sys =
      Inr (sys\<lparr>ApplicationMemory := m\<lparr>host := h'\<rparr>, invalidated_code := ic\<rparr>)"
      "\<forall>q. h' q \<noteq> h q \<longrightarrow> IsAddressInRange metadata a \<and> (\<exists>i<length bs. host_of m (unat a + i) = Some q)"
    by auto
  have "h' q = host m q" if q: "q \<notin> cheat_reach metadata m" for q
  proof (rule ccontr)
    assume "h' q \<noteq> host m q"
    with h(3) q have "h' q \<noteq> h q" by auto
    with h'(2) obtain i where "IsAddressInRange metadata a" "i < length bs" "host_of m (unat a + i) = Some q" by blast
    moreover from this(2) assms(2) have "i < 8" by simp
    ultimately show False using q unfolding cheat_reach_def by blast
  qed
  with h'(1) h(2) show ?thesis by (auto simp: confined_def)
qed

interpretation std_frame: cheat_callbacks "StandardVmCallbacks metadata" "confined metadata m" for metadata m
proof
  fix w n a assume "confined metadata m w" "n \<le> (8 :: nat)"
  then show "\<exists>bs w'. MemoryReadUnsafe (StandardVmCallbacks metadata) a n w = Inr (bs, w') \<and> confined metadata m w'"
    using std_read_ok [OF confined_sys_ok, of metadata m w n metadata a] by (auto simp: StandardVmCallbacks_def)
qed (simp_all add: StandardVmCallbacks_def confined_write,
  simp_all add: confined_def std_HidKeysDown_def std_PauseProcess_def std_ResumeProcess_def std_DebugLog_def)

section \<open>Parsed cheats are well formed\<close>

lemma new_entry_ok: "entry_ok new_entry"
  by (simp add: entry_ok_def new_entry_def)

lemma set_name_ok: "entry_ok (set_name name e) = entry_ok e"
  by (simp add: entry_ok_def set_name_def Let_def)

lemma parse_opcode_ok:
  assumes "entry_ok e"
  shows "\<exists>r. parse_opcode data i e = Inr r \<and> (\<forall>e'. r = Some e' \<longrightarrow> entry_ok e')"
proof -
  let ?d = "cheat_definition e"
  have len: "length (opcodes ?d) = 256" "unat (def_num_opcodes ?d) \<le> 256"
    using assms by (auto simp: entry_ok_def word_le_nat_alt)
  have "unat (def_num_opcodes ?d + 1) = unat (def_num_opcodes ?d) + 1" if "unat (def_num_opcodes ?d) < 256"
    using that by (simp add: unat_word_ariths)
  with len show ?thesis
    by (auto simp: parse_opcode_def Let_def entry_ok_def word_le_nat_alt)
qed

declare parse_loop.simps [simp del]
declare find_match.simps [simp del]

lemma find_match_fault: "find_match data e c = Inl f \<Longrightarrow> f = OutOfBounds"
proof (induction data e c rule: find_match.induct)
  case (1 data e c)
  then show ?case using find_match.simps [of data e c] by (auto split: if_splits)
qed

lemma find_match_found:
  "c \<notin> set name \<Longrightarrow> find_match (pre @ name @ c # rest) (length pre) c = Inr (Some (length pre + length name))"
proof (induction name arbitrary: pre)
  case Nil
  then show ?case by (simp add: find_match.simps)
next
  case (Cons x name)
  then show ?case
    using Cons.IH [of "pre @ [x]"] find_match.simps [of "pre @ (x # name) @ c # rest" "length pre" c]
    by (auto simp: nth_append)
qed

lemma find_match_missing: "c \<notin> set (drop e data) \<Longrightarrow> find_match data e c = Inl OutOfBounds"
proof (induction data e c rule: find_match.induct)
  case (1 data e c)
  show ?case
  proof (cases "length data \<le> e")
    case False
    then have "data ! e # drop (Suc e) data = drop e data" by (simp add: Cons_nth_drop_Suc)
    with 1 False find_match.simps [of data e c] show ?thesis by (metis Suc_eq_plus1 list.set_intros not_less_eq not_less)
  qed (simp add: find_match.simps)
qed

lemma ExtractName_fault: "ExtractName data e c = Inl f \<Longrightarrow> f = OutOfBounds"
  by (auto simp: ExtractName_def bind_run_eq_Inl Let_def split: option.splits dest: find_match_fault)

text \<open>Well-formed entries, a current one among them.\<close>

definition parse_inv :: "CheatEntry list \<Rightarrow> nat option \<Rightarrow> bool" where
  "parse_inv out current \<longleftrightarrow> list_all entry_ok out \<and> out \<noteq> [] \<and> (\<forall>c. current = Some c \<longrightarrow> c < length out)"

lemma parse_inv_update: "parse_inv out c \<Longrightarrow> entry_ok e \<Longrightarrow> parse_inv (out[k := e]) c"
  using set_update_subset_insert [of out k e] by (auto simp: parse_inv_def list_all_iff)

lemma parse_inv_current: "parse_inv out c \<Longrightarrow> k < length out \<Longrightarrow> parse_inv out (Some k)"
  by (simp add: parse_inv_def)

lemma parse_inv_append: "parse_inv out c \<Longrightarrow> entry_ok e \<Longrightarrow> parse_inv (out @ [e]) (Some (length out))"
  by (simp add: parse_inv_def)

lemma parse_inv_get: "parse_inv out c \<Longrightarrow> k < length out \<Longrightarrow> entry_ok (out ! k)"
  by (simp add: parse_inv_def list_all_length)

lemma parse_loop_ok:
  assumes "parse_inv out current"
  shows "case parse_loop data i out current of
      Inl f \<Rightarrow> f = OutOfBounds
    | Inr parsed \<Rightarrow> (\<forall>out'. parsed = Some out' \<longrightarrow> list_all entry_ok out')"
  using assms
proof (induction data i out current rule: parse_loop.induct)
  case (1 data i out current)
  note inv = 1(5)
  have ne: "0 < length out" using inv by (simp add: parse_inv_def)
  have get0: "aget out 0 = Inr (out ! 0)" using ne aget_nat [of 0 out] by simp
  consider (finish) "length data \<le> i" | (space) "\<not> length data \<le> i" "is_space (data ! i)"
    | (brace) "\<not> length data \<le> i" "\<not> is_space (data ! i)" "data ! i = CHR ''{''"
    | (bracket) "\<not> length data \<le> i" "\<not> is_space (data ! i)" "data ! i \<noteq> CHR ''{''" "data ! i = CHR ''[''"
    | (digit) "\<not> length data \<le> i" "\<not> is_space (data ! i)" "data ! i \<noteq> CHR ''{''" "data ! i \<noteq> CHR ''[''"
        "is_xdigit (data ! i)"
    | (other) "\<not> length data \<le> i" "\<not> is_space (data ! i)" "data ! i \<noteq> CHR ''{''" "data ! i \<noteq> CHR ''[''"
        "\<not> is_xdigit (data ! i)" by blast
  then show ?case
  proof cases
    case finish
    then show ?thesis using inv by (simp add: parse_loop.simps [of data] parse_inv_def)
  next
    case space
    with 1(1) [OF space inv] show ?thesis by (simp add: parse_loop.simps [of data i])
  next
    case brace
    show ?thesis
    proof (cases "ExtractName data (i + 1) CHR ''}''")
      case (Inl f)
      with brace get0 ExtractName_fault show ?thesis by (auto simp: parse_loop.simps [of data i])
    next
      case (Inr r)
      obtain x y where r: "r = (x, y)" by (cases r)
      have "parse_inv (out[0 := set_name y (out ! 0)]) (Some 0)"
        using parse_inv_update [OF parse_inv_current [OF inv ne]] parse_inv_get [OF inv ne] by (simp add: set_name_ok)
      with 1(2) [OF brace get0 _ Inr, of x y] r Inr brace get0 show ?thesis
        by (auto simp: parse_loop.simps [of data i])
    qed
  next
    case bracket
    show ?thesis
    proof (cases "ExtractName data (i + 1) CHR '']''")
      case (Inl f)
      with bracket ExtractName_fault show ?thesis by (auto simp: parse_loop.simps [of data i])
    next
      case (Inr r)
      obtain x y where r: "r = (x, y)" by (cases r)
      have "parse_inv (out @ [set_name y new_entry]) (Some (length out))"
        using parse_inv_append [OF inv] new_entry_ok by (simp add: set_name_ok)
      with 1(3) [OF bracket Inr, of x y] r Inr bracket show ?thesis
        by (auto simp: parse_loop.simps [of data i])
    qed
  next
    case digit
    show ?thesis
    proof (cases current)
      case None
      with digit show ?thesis by (simp add: parse_loop.simps [of data i])
    next
      case (Some c)
      have c: "c < length out" using inv Some by (simp add: parse_inv_def)
      from parse_opcode_ok [OF parse_inv_get [OF inv c], of data i] obtain r
        where r: "parse_opcode data i (out ! c) = Inr r" "\<forall>e'. r = Some e' \<longrightarrow> entry_ok e'" by blast
      show ?thesis
      proof (cases r)
        case (Some e)
        with 1(4) [OF digit \<open>current = Some c\<close> _ r(1), of e] parse_inv_update [OF inv, of e c] r c digit
          \<open>current = Some c\<close>
        show ?thesis by (simp add: parse_loop.simps [of data i])
      qed (use r(1) c digit \<open>current = Some c\<close> in \<open>simp add: parse_loop.simps [of data i]\<close>)
    qed
  next
    case other
    then show ?thesis by (simp add: parse_loop.simps [of data i])
  qed
qed

lemma Parse_ok:
  "case Parse data of Inl f \<Rightarrow> f = OutOfBounds | Inr entries \<Rightarrow> list_all entry_ok entries"
proof -
  have "parse_inv [new_entry] None" using new_entry_ok by (simp add: parse_inv_def)
  from parse_loop_ok [OF this, of data 0] show ?thesis
    by (auto simp: Parse_def list_all_length entry_ok_def nth_enumerate_eq split: sum.splits option.splits)
qed

section \<open>Printing cheats\<close>

definition hex_digit :: "nat \<Rightarrow> char" where
  "hex_digit n = (if n < 10 then char_of (48 + n) else char_of (55 + n))"

primrec hex_digits :: "nat \<Rightarrow> nat \<Rightarrow> string" where
  "hex_digits 0 n = []"
| "hex_digits (Suc k) n = hex_digits k (n div 16) @ [hex_digit (n mod 16)]"

definition print_opcode :: "u32 \<Rightarrow> string" where
  "print_opcode w = hex_digits 8 (unat w) @ [CHR 0x0A]"

definition print_cheat :: "string \<times> u32 list \<Rightarrow> string" where
  "print_cheat c = CHR ''['' # fst c @ CHR '']'' # CHR 0x0A # concat (map print_opcode (snd c))"

lemma digit_value_hex_digit: "n < 16 \<Longrightarrow> digit_value (hex_digit n) = Some n"
  by (auto simp: digit_value_def hex_digit_def Let_def)

lemma length_hex_digits [simp]: "length (hex_digits k n) = k"
  by (induction k arbitrary: n) simp_all

lemma hex_digits_xdigit: "list_all is_xdigit (hex_digits k n)"
  by (induction k arbitrary: n) (simp_all add: is_xdigit_def digit_value_hex_digit)

lemma hex_value_snoc: "hex_value (xs @ [c]) = 16 * hex_value xs + (case digit_value c of Some d \<Rightarrow> d | None \<Rightarrow> 0)"
  by (simp add: hex_value_def)

lemma hex_value_digits: "hex_value (hex_digits k n) = n mod 16 ^ k"
proof (induction k arbitrary: n)
  case (Suc k)
  have "n mod 16 ^ Suc k = 16 * (n div 16 mod 16 ^ k) + n mod 16"
    using mod_mult2_eq [of n 16 "16 ^ k"] by simp
  with Suc show ?case by (simp add: hex_value_snoc digit_value_hex_digit)
qed (simp add: hex_value_def)

lemma hex_value_opcode: "of_nat (hex_value (hex_digits 8 (unat w))) = (w :: u32)"
proof -
  have "unat w < 2 ^ 32" using unsigned_less [of w, where 'a = nat] by simp
  then show ?thesis by (simp add: hex_value_digits)
qed

section \<open>Parsing what was printed\<close>

definition add_opcode :: "u32 \<Rightarrow> CheatEntry \<Rightarrow> CheatEntry" where
  "add_opcode w e = (let d = cheat_definition e in e\<lparr>cheat_definition := d\<lparr>
     opcodes := (opcodes d)[unat (def_num_opcodes d) := w], def_num_opcodes := def_num_opcodes d + 1\<rparr>\<rparr>)"

lemma xdigit_class: "is_xdigit c \<Longrightarrow> \<not> is_space c \<and> c \<noteq> CHR ''{'' \<and> c \<noteq> CHR ''[''"
  by (auto simp: is_xdigit_def digit_value_def is_space_def Let_def split: if_splits)

lemma bracket_class: "\<not> is_space CHR ''['' \<and> is_space CHR 0x0A"
  by (simp add: is_space_def)

lemma parse_space:
  "is_space c \<Longrightarrow> parse_loop (pre @ c # rest) (length pre) out cur = parse_loop (pre @ c # rest) (length pre + 1) out cur"
  by (simp add: parse_loop.simps [of "pre @ c # rest" "length pre"] nth_append)

lemma parse_one_opcode:
  assumes "cur < length out" "entry_ok (out ! cur)" "unat (def_num_opcodes (cheat_definition (out ! cur))) < 0x100"
  shows "parse_loop (pre @ print_opcode w @ rest) (length pre) out (Some cur) =
    parse_loop (pre @ print_opcode w @ rest) (length (pre @ print_opcode w)) (out[cur := add_opcode w (out ! cur)]) (Some cur)"
proof -
  let ?hex = "hex_digits 8 (unat w)"
  let ?data = "pre @ print_opcode w @ rest"
  obtain c cs where hex: "?hex = c # cs" using length_hex_digits [of 8 "unat w"] by (cases ?hex) auto
  then have "is_xdigit c" using hex_digits_xdigit [of 8 "unat w"] by simp
  with xdigit_class [of c] hex have at: "?data ! length pre = c" "is_xdigit c" "\<not> is_space c" "c \<noteq> CHR ''{''" "c \<noteq> CHR ''[''"
    by (simp_all add: print_opcode_def nth_append)
  have take: "take 8 (drop (length pre) ?data) = ?hex" by (simp add: print_opcode_def)
  have "parse_opcode ?data (length pre) (out ! cur) = Inr (Some (add_opcode w (out ! cur)))"
    using assms take hex_digits_xdigit hex_value_opcode
    by (simp add: parse_opcode_def add_opcode_def Let_def entry_ok_def)
  moreover have "length (print_opcode w) = 9" by (simp add: print_opcode_def)
  ultimately show ?thesis using at assms(1) by (simp add: parse_loop.simps [of ?data "length pre"])
qed

lemma parse_opcodes:
  assumes "cur < length out" "entry_ok (out ! cur)"
    "unat (def_num_opcodes (cheat_definition (out ! cur))) + length ws \<le> 0x100"
  shows "parse_loop (pre @ concat (map print_opcode ws) @ rest) (length pre) out (Some cur) =
    parse_loop (pre @ concat (map print_opcode ws) @ rest) (length (pre @ concat (map print_opcode ws)))
      (out[cur := fold add_opcode ws (out ! cur)]) (Some cur)"
  using assms
proof (induction ws arbitrary: pre out)
  case (Cons w ws)
  let ?e = "add_opcode w (out ! cur)"
  have room: "unat (def_num_opcodes (cheat_definition (out ! cur))) < 0x100" using Cons.prems(3) by simp
  then have num: "unat (def_num_opcodes (cheat_definition ?e)) = unat (def_num_opcodes (cheat_definition (out ! cur))) + 1"
    by (simp add: add_opcode_def Let_def unat_word_ariths)
  then have "entry_ok ?e"
    using Cons.prems(2) room by (simp add: entry_ok_def add_opcode_def Let_def word_le_nat_alt)
  with num Cons.prems Cons.IH [of "out[cur := ?e]" "pre @ print_opcode w"]
    parse_one_opcode [OF Cons.prems(1,2) room, of pre w "concat (map print_opcode ws) @ rest"]
  show ?case by simp
qed simp

lemma parse_name:
  assumes "name \<noteq> []" "CHR '']'' \<notin> set name" "length name \<le> 0x40"
  shows "parse_loop (pre @ CHR ''['' # name @ CHR '']'' # rest) (length pre) out cur =
    parse_loop (pre @ CHR ''['' # name @ CHR '']'' # rest) (length pre + length name + 2)
      (out @ [set_name name new_entry]) (Some (length out))"
proof -
  let ?data = "pre @ CHR ''['' # name @ CHR '']'' # rest"
  have "ExtractName ?data (length pre + 1) CHR '']'' = Inr (length name, name)"
    using find_match_found [OF assms(2), of "pre @ [CHR ''['']" rest] assms(3)
    by (simp add: ExtractName_def Let_def)
  then show ?thesis
    using assms(1) bracket_class by (simp add: parse_loop.simps [of ?data "length pre"] nth_append)
qed

definition printed_entry :: "string \<times> u32 list \<Rightarrow> CheatEntry" where
  "printed_entry c = fold add_opcode (snd c) (set_name (fst c) new_entry)"

definition printable :: "string \<times> u32 list \<Rightarrow> bool" where
  "printable c \<longleftrightarrow> fst c \<noteq> [] \<and> CHR '']'' \<notin> set (fst c) \<and> CHR 0x00 \<notin> set (fst c) \<and> length (fst c) < 0x40 \<and>
     length (snd c) \<le> 0x100"

lemma parse_cheat:
  assumes "printable c"
  shows "parse_loop (pre @ print_cheat c @ rest) (length pre) out cur =
    parse_loop (pre @ print_cheat c @ rest) (length (pre @ print_cheat c)) (out @ [printed_entry c]) (Some (length out))"
proof -
  let ?body = "concat (map print_opcode (snd c))"
  let ?pre1 = "pre @ CHR ''['' # fst c @ [CHR '']'']"
  let ?e = "set_name (fst c) new_entry"
  have p: "fst c \<noteq> []" "CHR '']'' \<notin> set (fst c)" "length (fst c) \<le> 0x40" "length (snd c) \<le> 0x100"
    using assms by (simp_all add: printable_def)
  have "parse_loop (pre @ print_cheat c @ rest) (length pre) out cur =
      parse_loop (?pre1 @ CHR 0x0A # ?body @ rest) (length ?pre1) (out @ [?e]) (Some (length out))"
    using parse_name [OF p(1-3), of pre "CHR 0x0A # ?body @ rest" out cur] by (simp add: print_cheat_def)
  also have "\<dots> = parse_loop ((?pre1 @ [CHR 0x0A]) @ ?body @ rest) (length (?pre1 @ [CHR 0x0A])) (out @ [?e]) (Some (length out))"
    using parse_space [of "CHR 0x0A" ?pre1 "?body @ rest"] bracket_class by simp
  also have "\<dots> = parse_loop ((?pre1 @ [CHR 0x0A]) @ ?body @ rest) (length ((?pre1 @ [CHR 0x0A]) @ ?body))
      (out @ [printed_entry c]) (Some (length out))"
    using parse_opcodes [of "length out" "out @ [?e]" "snd c" "?pre1 @ [CHR 0x0A]" rest] p(4) new_entry_ok
    by (simp add: set_name_ok printed_entry_def) (simp add: set_name_def new_entry_def Let_def)
  finally show ?thesis by (simp add: print_cheat_def)
qed

lemma parse_cheats:
  "list_all printable cs \<Longrightarrow> \<exists>cur'. parse_loop (pre @ concat (map print_cheat cs)) (length pre) out cur =
     parse_loop (pre @ concat (map print_cheat cs)) (length (pre @ concat (map print_cheat cs)))
       (out @ map printed_entry cs) cur'"
proof (induction cs arbitrary: pre out cur)
  case (Cons c cs)
  from Cons.prems parse_cheat [of c pre "concat (map print_cheat cs)" out cur]
    Cons.IH [of "pre @ print_cheat c" "out @ [printed_entry c]" "Some (length out)"]
  show ?case by auto
qed auto

lemma parse_loop_end: "parse_loop data (length data) out cur = Inr (Some out)"
  by (simp add: parse_loop.simps)

lemma fold_add_opcode:
  assumes "n + length ws \<le> 0x100"
    "opcodes (cheat_definition e) = xs @ replicate (0x100 - n) 0" "length xs = n"
    "def_num_opcodes (cheat_definition e) = of_nat n"
  shows "let d = cheat_definition (fold add_opcode ws e) in
    opcodes d = xs @ ws @ replicate (0x100 - (n + length ws)) 0 \<and> def_num_opcodes d = of_nat (n + length ws) \<and>
    readable_name d = readable_name (cheat_definition e)"
  using assms
proof (induction ws arbitrary: n xs e)
  case (Cons w ws)
  let ?e = "add_opcode w e"
  have n: "unat (of_nat n :: u32) = n" using Cons.prems(1) by (simp add: unat_of_nat)
  have "0x100 - n = Suc (0x100 - (n + 1))" using Cons.prems(1) by simp
  then have "replicate (0x100 - n) (0 :: u32) = 0 # replicate (0x100 - (n + 1)) 0" by (simp only: replicate_Suc)
  then have "opcodes (cheat_definition ?e) = (xs @ [w]) @ replicate (0x100 - (n + 1)) 0"
    using Cons.prems(2-4) n by (simp add: add_opcode_def Let_def list_update_append)
  moreover have "def_num_opcodes (cheat_definition ?e) = of_nat (n + 1)"
    using Cons.prems(4) by (simp add: add_opcode_def Let_def)
  moreover have "readable_name (cheat_definition ?e) = readable_name (cheat_definition e)"
    by (simp add: add_opcode_def Let_def)
  ultimately show ?case using Cons.IH [of "n + 1" ?e "xs @ [w]"] Cons.prems(1,3) by (simp add: Let_def)
qed simp

lemma printed_entry_code:
  assumes "printable c"
  shows "take (unat (def_num_opcodes (cheat_definition (printed_entry c)))) (opcodes (cheat_definition (printed_entry c)))
      = snd c"
    and "takeWhile (\<lambda>x. x \<noteq> CHR 0x00) (readable_name (cheat_definition (printed_entry c))) = fst c"
    and "unat (def_num_opcodes (cheat_definition (printed_entry c))) = length (snd c)"
proof -
  let ?e = "set_name (fst c) new_entry"
  let ?n = "length (fst c)"
  have "cheat_definition ?e = \<lparr>readable_name = fst c @ replicate (0x40 - ?n) CHR 0x00, def_num_opcodes = 0,
      opcodes = replicate 0x100 0\<rparr>"
  proof -
    have "(fst c @ replicate (0x40 - ?n) CHR 0x00)[63 := CHR 0x00] = fst c @ replicate (0x40 - ?n) CHR 0x00"
      using assms by (intro list_update_same_conv [THEN iffD2]) (auto simp: printable_def nth_append)
    then show ?thesis using assms by (simp add: set_name_def new_entry_def Let_def printable_def min_def)
  qed
  with fold_add_opcode [of 0 "snd c" ?e "[]"] assms
  have d: "opcodes (cheat_definition (printed_entry c)) = snd c @ replicate (0x100 - length (snd c)) 0"
    "def_num_opcodes (cheat_definition (printed_entry c)) = of_nat (length (snd c))"
    "readable_name (cheat_definition (printed_entry c)) = fst c @ replicate (0x40 - ?n) CHR 0x00"
    by (simp_all add: printed_entry_def printable_def Let_def)
  show num: "unat (def_num_opcodes (cheat_definition (printed_entry c))) = length (snd c)"
    using assms d(2) by (simp add: printable_def unat_of_nat)
  then show "take (unat (def_num_opcodes (cheat_definition (printed_entry c)))) (opcodes (cheat_definition (printed_entry c)))
      = snd c" using d(1) by simp
  have "takeWhile (\<lambda>x. x \<noteq> CHR 0x00) (fst c @ replicate (0x40 - ?n) CHR 0x00) = fst c"
    using assms by (subst takeWhile_append2) (auto simp: printable_def)
  with d(3) show "takeWhile (\<lambda>x. x \<noteq> CHR 0x00) (readable_name (cheat_definition (printed_entry c))) = fst c" by simp
qed

text \<open>The name and the code a parsed entry carries.\<close>

definition cheat_of :: "CheatEntry \<Rightarrow> string \<times> u32 list" where
  "cheat_of e = (takeWhile (\<lambda>x. x \<noteq> CHR 0x00) (readable_name (cheat_definition e)), entry_code e)"

lemma Parse_print:
  assumes "list_all printable cs"
  shows "\<exists>entries. Parse (concat (map print_cheat cs)) = Inr entries \<and> map cheat_of entries = ([], []) # cs"
proof -
  let ?data = "concat (map print_cheat cs)"
  let ?fin = "\<lambda>(i, e). e\<lparr>enabled := def_num_opcodes (cheat_definition e) > 0, cheat_id := of_nat i\<rparr>"
  have "Parse ?data = Inr (map ?fin (enumerate 0 (new_entry # map printed_entry cs)))"
    using parse_cheats [OF assms, of "[]" "[new_entry]" None] parse_loop_end [of ?data] by (auto simp: Parse_def)
  moreover have "map cheat_of (map ?fin (enumerate 0 (new_entry # map printed_entry cs))) = ([], []) # cs"
  proof (rule nth_equalityI)
    fix i assume "i < length (map cheat_of (map ?fin (enumerate 0 (new_entry # map printed_entry cs))))"
    then have i: "i < Suc (length cs)" by simp
    show "map cheat_of (map ?fin (enumerate 0 (new_entry # map printed_entry cs))) ! i = (([], []) # cs) ! i"
    proof (cases i)
      case 0
      then show ?thesis by (simp add: cheat_of_def entry_code_def new_entry_def)
    next
      case (Suc j)
      then have pr: "printable (cs ! j)" using assms i by (simp add: list_all_length)
      have e: "enumerate 0 (new_entry # map printed_entry cs) ! i = (i, printed_entry (cs ! j))"
        using i Suc nth_enumerate_eq [of i "new_entry # map printed_entry cs" 0] by simp
      have pos: "0 < def_num_opcodes (cheat_definition (printed_entry (cs ! j))) \<longleftrightarrow> snd (cs ! j) \<noteq> []"
        using printed_entry_code(3) [OF pr] by (simp add: word_less_nat_alt)
      have "map cheat_of (map ?fin (enumerate 0 (new_entry # map printed_entry cs))) ! i =
          cheat_of (?fin (enumerate 0 (new_entry # map printed_entry cs) ! i))"
        using i by (simp only: nth_map length_map length_enumerate list.size add_0_right add_Suc_right)
      also have "\<dots> = (fst (cs ! j), snd (cs ! j))"
        unfolding e
        by (cases "snd (cs ! j) = []")
          (simp_all add: cheat_of_def entry_code_def printed_entry_code(1,2) [OF pr] pos del: prod.collapse)
      also have "\<dots> = cs ! j" by simp
      also have "\<dots> = (([], []) # cs) ! i" by (simp only: Suc nth_Cons_Suc)
      finally show ?thesis .
    qed
  qed simp
  ultimately show ?thesis by (intro exI conjI)
qed

section \<open>Values in memory\<close>

lemma le_overlay_bytes: "le_overlay (le_bytes n v) 0 = take_bit (8 * n) v"
proof (induction n arbitrary: v)
  case (Suc n)
  have "push_bit 8 (take_bit (8 * n) (drop_bit 8 v)) OR ucast (ucast v :: u8) = take_bit (8 * Suc n) v"
    by (rule bit_word_eqI) (auto simp: bit_simps)
  with Suc show ?case by simp
qed simp

section \<open>Properties\<close>

definition idle_system :: System where
  "idle_system = \<lparr>ApplicationMemory = two_pages, process_paused = False, hid_available = True, press_state = 0,
     debug_lines = [], invalidated_code = []\<rparr>"

definition low_metadata :: CheatProcessMetadata where
  "low_metadata = no_metadata\<lparr>main_nso_extents := \<lparr>extent_base = 0, extent_size = 0x2000\<rparr>\<rparr>"

lemma idle_system_ok: "sys_ok idle_system"
  using two_pages_ok by (simp add: sys_ok_def idle_system_def)

lemma vm_with_shape: "length ws \<le> MaximumProgramOpcodeCount \<Longrightarrow> vm_shape (vm_with ws)"
  by (simp add: vm_shape_def vm_with_def new_vm_def NumStaticRegisters_def)

lemma vm_ok_shape: "vm_ok vm \<Longrightarrow> vm_shape vm"
  by (simp add: vm_ok_def vm_shape_def code_ok_def)

text \<open>A cheat that stores two bytes across a page boundary, and what its run leaves behind.\<close>

definition poke_code :: "u32 list" where
  "poke_code = [0x02000000, 0xFFF, 0x1234]"

lemma poke_shape: "vm_shape (vm_with poke_code)"
  by (rule vm_with_shape) (simp add: poke_code_def MaximumProgramOpcodeCount_def)

lemma poke_write:
  "std_MemoryWriteUnsafe low_metadata 0xFFF [0x34, 0x12] idle_system =
     Inr (idle_system\<lparr>ApplicationMemory := two_pages\<lparr>host := (host two_pages)(0x10FFF := 0x34, 0x121000 := 0x12)\<rparr>,
       invalidated_code := [(0xFFF, 2)]\<rparr>)"
proof -
  let ?bs = "[0x34, 0x12] :: u8 list"
  have "\<forall>i<2. host_of two_pages (unat (0xFFF :: u64) + i) \<noteq> None" using two_pages_host by (auto simp: less_2_cases_iff)
  moreover have "guest_store two_pages 4095 ?bs (host two_pages) = (host two_pages)(0x10FFF := 0x34, 0x121000 := 0x12)"
    using two_pages_host by simp
  ultimately have "WriteBlock two_pages 0xFFF ?bs =
      Inr (True, two_pages\<lparr>host := (host two_pages)(0x10FFF := 0x34, 0x121000 := 0x12)\<rparr>)"
    using WriteBlock_spec [OF two_pages_ok, of ?bs "0xFFF"] two_pages_contains by simp
  moreover have "IsAddressInRange low_metadata 0xFFF"
    by (simp add: IsAddressInRange_def in_extents_def low_metadata_def no_metadata_def)
  moreover have "IsValidVirtualAddress two_pages 0xFFF"
    by (simp add: IsValidVirtualAddress_def two_pages_def SUYU_PAGESIZE_def PageInfo_Store_def PageType_bits_def
        ExtractPointer_def ATTRIBUTE_BITS_def mask_eq_exp_minus_1)
  ultimately show ?thesis by (simp add: std_MemoryWriteUnsafe_def idle_system_def)
qed

lemma poke_run:
  "\<exists>vm'. Execute 2 (StandardVmCallbacks low_metadata) low_metadata (vm_with poke_code, idle_system) =
     Inr (vm', idle_system\<lparr>ApplicationMemory := two_pages\<lparr>host := (host two_pages)(0x10FFF := 0x34, 0x121000 := 0x12)\<rparr>,
       invalidated_code := [(0xFFF, 2)]\<rparr>)"
proof -
  let ?vm = "ResetState (vm_with poke_code)"
  have d: "DecodeNextOpcode ?vm = Inr (Some (False, StoreStaticOpcode 2 MainNso 0 0xFFF 0x1234), vm_at ?vm 3 0)"
    "DecodeNextOpcode (vm_at ?vm 3 0) = Inr (None, (vm_at ?vm 3 0)\<lparr>decode_success := False\<rparr>)" by code_simp+
  have r: "reg_get 0 (vm_at ?vm 3 0) = Inr 0" "le_bytes (unat (2 :: u32)) (GetVmInt 0x1234 2) = [0x34, 0x12]"
    "GetCheatProcessAddress low_metadata MainNso (0xFFF + 0) = 0xFFF" by code_simp+
  have "idle_system\<lparr>press_state := 0\<rparr> = idle_system" by (simp add: idle_system_def)
  with d r poke_write show ?thesis
    by (simp add: Execute_def numeral_2_eq_2 execute_step_def execute_opcode_def StandardVmCallbacks_def std_HidKeysDown_def
        exec_StoreStatic_def write_memory_def valid_width_def del: unat_numeral)
qed

text \<open>C13: Whatever words a program holds, \<^verbatim>\<open>Execute\<close> on the standard callbacks never leaves an array of the machine and
  never faults in guest memory: for every fuel and every program of at most 1024 words the run ends in a
  well-formed machine over well-formed memory, uses up the fuel, or stops at one of the two remaining faults, a
  shift by 64 or more and an else outside every block.\<close>

theorem cheat_execute_memory_safe:
  assumes "vm_shape vm" "sys_ok sys"
  shows "case Execute fuel (StandardVmCallbacks metadata) metadata (vm, sys) of
      Inl f \<Rightarrow> f = OutOfFuel \<or> f = ShiftOutOfRange \<or> f = UnreachableCode
    | Inr s' \<Rightarrow> vm_ok (fst s') \<and> sys_ok (snd s')"
  using std.Execute_safe [OF ResetState_ok [OF assms(1)] assms(2), of fuel metadata metadata]
  by (auto simp: st_ok_def split: sum.splits)

theorem cheat_execute_memory_safe_witness:
  "\<exists>vm' sys'. Execute 2 (StandardVmCallbacks low_metadata) low_metadata (vm_with poke_code, idle_system) = Inr (vm', sys') \<and>
     host (ApplicationMemory sys') 0x121000 = 0x12 \<and> vm_ok vm' \<and> sys_ok sys'"
  using poke_run cheat_execute_memory_safe [OF poke_shape idle_system_ok, of 2 low_metadata] by fastforce

text \<open>C15: A program in which linear decoding meets no end of a loop terminates: one unit of fuel per program word
  and one more are enough, whatever the conditions evaluate to.\<close>

theorem cheat_loop_free_terminates:
  assumes "vm_shape vm" "sys_ok sys" "loop_free vm" "num_opcodes vm < fuel"
  shows "Execute fuel (StandardVmCallbacks metadata) metadata (vm, sys) \<noteq> Inl OutOfFuel"
  by (rule std.Execute_returns [OF ResetState_ok [OF assms(1)] assms(2-4)])

theorem cheat_loop_free_terminates_witness:
  "Execute 3 (StandardVmCallbacks low_metadata) low_metadata (vm_with [0x80000001, 0x20000000], idle_system)
     \<noteq> Inl OutOfFuel"
proof (rule cheat_loop_free_terminates [OF vm_with_shape idle_system_ok])
  show "length [0x80000001, 0x20000000 :: u32] \<le> MaximumProgramOpcodeCount" by (simp add: MaximumProgramOpcodeCount_def)
  show "loop_free (vm_with [0x80000001, 0x20000000])" by code_simp
  show "num_opcodes (vm_with [0x80000001, 0x20000000]) < 3" by (simp add: vm_with_def)
qed

text \<open>C14: Cheats are confined up to the width of one access: a run changes no page table, and every host byte it changes
  backs one of the eight guest bytes that start at an address inside one of the four extents.  The range check looks at
  the first byte of an access only, so the bytes of the extents and the seven bytes behind each of them are within reach,
  and nothing else is.\<close>

theorem cheat_memory_confined:
  assumes "vm_shape vm" "sys_ok sys"
    "Execute fuel (StandardVmCallbacks metadata) metadata (vm, sys) = Inr (vm', sys')"
  shows "\<exists>h. ApplicationMemory sys' = (ApplicationMemory sys)\<lparr>host := h\<rparr> \<and>
    (\<forall>q. h q \<noteq> host (ApplicationMemory sys) q \<longrightarrow>
      (\<exists>a i. IsAddressInRange metadata a \<and> i < 8 \<and> host_of (ApplicationMemory sys) (unat a + i) = Some q))"
proof -
  let ?m = "ApplicationMemory sys"
  have "confined metadata ?m sys" using assms(2) unfolding confined_def sys_ok_def by (intro conjI exI [of _ "host ?m"]) auto
  from std_frame.Execute_safe [OF ResetState_ok [OF assms(1)] this, of fuel metadata] assms(3)
  show ?thesis unfolding st_ok_def confined_def cheat_reach_def by simp blast
qed

theorem cheat_memory_confined_witness:
  "\<exists>vm' sys' h. Execute 2 (StandardVmCallbacks low_metadata) low_metadata (vm_with poke_code, idle_system) = Inr (vm', sys') \<and>
     ApplicationMemory sys' = two_pages\<lparr>host := h\<rparr> \<and> h 0x10FFF = 0x34 \<and> h 0x121000 = 0x12 \<and>
     (\<forall>q. h q \<noteq> host two_pages q \<longrightarrow>
       (\<exists>a i. IsAddressInRange low_metadata a \<and> i < 8 \<and> host_of two_pages (unat a + i) = Some q))"
proof -
  obtain vm' sys' where run: "Execute 2 (StandardVmCallbacks low_metadata) low_metadata (vm_with poke_code, idle_system) = Inr (vm', sys')"
    "ApplicationMemory sys' = two_pages\<lparr>host := (host two_pages)(0x10FFF := 0x34, 0x121000 := 0x12)\<rparr>" using poke_run by auto
  have idle: "ApplicationMemory idle_system = two_pages" by (simp add: idle_system_def)
  obtain h where h: "ApplicationMemory sys' = two_pages\<lparr>host := h\<rparr>"
    "\<forall>q. h q \<noteq> host two_pages q \<longrightarrow> (\<exists>a i. IsAddressInRange low_metadata a \<and> i < 8 \<and> host_of two_pages (unat a + i) = Some q)"
    using cheat_memory_confined [OF poke_shape idle_system_ok run(1)] unfolding idle by blast
  have "host (two_pages\<lparr>host := h\<rparr>) = host (two_pages\<lparr>host := (host two_pages)(0x10FFF := 0x34, 0x121000 := 0x12)\<rparr>)"
    using h(1) run(2) by simp
  then have "h 0x10FFF = 0x34 \<and> h 0x121000 = 0x12" by simp
  with run(1) h show ?thesis by blast
qed

text \<open>C19: Parsing inverts printing: a text that lists cheats, each a bracketed name and one opcode of eight hexadecimal
  digits per line, parses to the master entry, empty, followed by exactly those cheats.\<close>

theorem cheat_text_roundtrip:
  assumes "list_all printable cs"
  shows "\<exists>entries. Parse (concat (map print_cheat cs)) = Inr entries \<and> map cheat_of entries = ([], []) # cs"
  by (rule Parse_print [OF assms])

theorem cheat_text_roundtrip_witness:
  "\<exists>entries. Parse (concat (map print_cheat [(''Max'', [0x04000000, 0x10, 0x63]), (''None'', [])])) = Inr entries \<and>
     map cheat_of entries = [([], []), (''Max'', [0x04000000, 0x10, 0x63]), (''None'', [])]"
  by (rule cheat_text_roundtrip) (simp add: printable_def)

text \<open>A name that is never closed makes \<^verbatim>\<open>ExtractName\<close> read past the end of the text: the comparison with the size
  comes after the access, so the empty result for this case is never returned.\<close>

theorem cheat_text_unterminated_name:
  assumes "CHR '']'' \<notin> set name"
  shows "Parse (CHR ''['' # name) = Inl OutOfBounds"
proof -
  have "ExtractName (CHR ''['' # name) 1 CHR '']'' = Inl OutOfBounds"
    using find_match_missing [of "CHR '']''" 1 "CHR ''['' # name"] assms by (simp add: ExtractName_def)
  then show ?thesis
    using bracket_class by (simp add: Parse_def parse_loop.simps [of "CHR ''['' # name"])
qed

theorem cheat_text_unterminated_name_witness: "Parse ''[Infinite Health'' = Inl OutOfBounds"
  using cheat_text_unterminated_name [of "''Infinite Health''"] by simp

text \<open>C21: A frame after a reload runs exactly the parsed cheats: whatever the text, once it parses, the callback clears the
  reload flag and puts the enabled cheats, one after the other, into the machine, or nothing when they exceed 1024
  words; with nothing loaded it ends there and leaves the system alone, otherwise its result is that of one run of the
  loaded program with the engine's extents, and that run is memory safe.\<close>

theorem cheat_frame_after_reload:
  assumes "Parse contents = Inr entries" "vm_shape (engine_vm e)" "sys_ok sys"
  shows "\<exists>vm. vm_shape vm \<and>
    loaded vm = (let code = concat (map entry_code entries) in if length code \<le> MaximumProgramOpcodeCount then code else []) \<and>
    FrameCallback fuel (Reload entries e, sys) =
      (if loaded vm = [] then Inr (e\<lparr>cheats := entries, is_pending_reload := False, engine_vm := vm\<rparr>, sys)
       else case Execute fuel (StandardVmCallbacks (engine_metadata e)) (engine_metadata e) (vm, sys) of
           Inl f \<Rightarrow> Inl f
         | Inr (vm', sys') \<Rightarrow> Inr (e\<lparr>cheats := entries, is_pending_reload := False, engine_vm := vm'\<rparr>, sys')) \<and>
    (case FrameCallback fuel (Reload entries e, sys) of
      Inl f \<Rightarrow> f = OutOfFuel \<or> f = ShiftOutOfRange \<or> f = UnreachableCode
    | Inr (e', sys') \<Rightarrow> \<not> is_pending_reload e' \<and> vm_shape (engine_vm e') \<and> sys_ok sys')"
proof -
  have "list_all entry_ok entries" using Parse_ok [of contents] assms(1) by simp
  then obtain ok vm where vm: "LoadProgram entries (engine_vm e) = Inr (ok, vm)" "vm_shape vm"
    "loaded vm = (let code = concat (map entry_code entries) in if length code \<le> MaximumProgramOpcodeCount then code else [])"
    using load_entries_spec [of "(engine_vm e)\<lparr>num_opcodes := 0\<rparr>" entries] assms(2)
    by (auto simp: LoadProgram_def vm_shape_def loaded_def)
  have empty: "num_opcodes vm = 0 \<longleftrightarrow> loaded vm = []"
    using vm(2) by (auto simp: loaded_def vm_shape_def MaximumProgramOpcodeCount_def)
  let ?run = "Execute fuel (StandardVmCallbacks (engine_metadata e)) (engine_metadata e) (vm, sys)"
  have safe: "case ?run of Inl f \<Rightarrow> f = OutOfFuel \<or> f = ShiftOutOfRange \<or> f = UnreachableCode | Inr s' \<Rightarrow> st_ok sys_ok s'"
    by (rule std.Execute_safe [OF ResetState_ok [OF vm(2)] assms(3)])
  have frame: "FrameCallback fuel (Reload entries e, sys) =
      (if loaded vm = [] then Inr (e\<lparr>cheats := entries, is_pending_reload := False, engine_vm := vm\<rparr>, sys)
       else case ?run of Inl f \<Rightarrow> Inl f
         | Inr (vm', sys') \<Rightarrow> Inr (e\<lparr>cheats := entries, is_pending_reload := False, engine_vm := vm'\<rparr>, sys'))"
    using vm(1) empty by (cases ?run) (auto simp: FrameCallback_def Reload_def)
  moreover have "case FrameCallback fuel (Reload entries e, sys) of
      Inl f \<Rightarrow> f = OutOfFuel \<or> f = ShiftOutOfRange \<or> f = UnreachableCode
    | Inr (e', sys') \<Rightarrow> \<not> is_pending_reload e' \<and> vm_shape (engine_vm e') \<and> sys_ok sys'"
    unfolding frame using safe assms(3) vm(2) by (cases ?run) (auto simp: st_ok_def vm_ok_shape)
  ultimately show ?thesis using vm(2,3) by blast
qed

definition idle_engine :: CheatEngine where
  "idle_engine = \<lparr>engine_vm = new_vm, engine_metadata = low_metadata, cheats = [], is_pending_reload = False,
     event_scheduled = False\<rparr>"

theorem cheat_frame_after_reload_witness:
  "\<exists>entries vm. Parse (concat (map print_cheat [(''Poke'', poke_code), (''Pause'', [0xFF000000])])) = Inr entries \<and>
    loaded vm = [0x02000000, 0xFFF, 0x1234, 0xFF000000] \<and>
    FrameCallback 9 (Reload entries idle_engine, idle_system) =
      (case Execute 9 (StandardVmCallbacks low_metadata) low_metadata (vm, idle_system) of
         Inl f \<Rightarrow> Inl f
       | Inr (vm', sys') \<Rightarrow> Inr (idle_engine\<lparr>cheats := entries, engine_vm := vm'\<rparr>, sys'))"
proof -
  let ?cs = "[(''Poke'', poke_code), (''Pause'', [0xFF000000])]"
  obtain entries where p: "Parse (concat (map print_cheat ?cs)) = Inr entries" "map cheat_of entries = ([], []) # ?cs"
    using Parse_print [of ?cs] by (auto simp: printable_def poke_code_def)
  have "map entry_code entries = map snd (map cheat_of entries)" by (simp add: cheat_of_def)
  then have code: "concat (map entry_code entries) = [0x02000000, 0xFFF, 0x1234, 0xFF000000]"
    unfolding p(2) by (simp add: poke_code_def)
  have e: "vm_shape (engine_vm idle_engine)" "engine_metadata idle_engine = low_metadata"
    "idle_engine\<lparr>cheats := entries, is_pending_reload := False, engine_vm := v\<rparr> = idle_engine\<lparr>cheats := entries, engine_vm := v\<rparr>" for v
    by (simp_all add: idle_engine_def vm_shape_def new_vm_def MaximumProgramOpcodeCount_def NumStaticRegisters_def)
  from cheat_frame_after_reload [OF p(1) e(1) idle_system_ok, of 9] obtain vm where
    "loaded vm = [0x02000000, 0xFFF, 0x1234, 0xFF000000]"
    "FrameCallback 9 (Reload entries idle_engine, idle_system) =
      (case Execute 9 (StandardVmCallbacks low_metadata) low_metadata (vm, idle_system) of
         Inl f \<Rightarrow> Inl f
       | Inr (vm', sys') \<Rightarrow> Inr (idle_engine\<lparr>cheats := entries, engine_vm := vm'\<rparr>, sys'))"
    unfolding code e(2,3) by (auto simp: MaximumProgramOpcodeCount_def)
  with p(1) show ?thesis by blast
qed

text \<open>C22: A value a cheat stores is the value it loads back: after a write of a valid width to a mapped range inside an
  extent, whose bytes have distinct host addresses, reading the same address at the same width gives the value's
  low bytes.\<close>

theorem cheat_store_then_load:
  assumes "sys_ok sys" "valid_width width" "IsAddressInRange metadata a"
    "IsValidVirtualAddress (ApplicationMemory sys) a"
    "AddressSpaceContains (ApplicationMemory sys) a (of_nat (unat width))"
    "\<forall>i<unat width. host_of (ApplicationMemory sys) (unat a + i) \<noteq> None"
    "inj_on (\<lambda>i. host_of (ApplicationMemory sys) (unat a + i)) {..<unat width}"
  shows "\<exists>sys'. write_memory (StandardVmCallbacks metadata) width a v sys = Inr sys' \<and>
    read_memory (StandardVmCallbacks metadata) width a 0 sys' = Inr (take_bit (8 * unat width) v, sys')"
proof -
  let ?m = "ApplicationMemory sys"
  let ?bs = "le_bytes (unat width) v"
  let ?m' = "?m\<lparr>host := guest_store ?m (unat a) ?bs (host ?m)\<rparr>"
  have gm: "gm_ok ?m" using assms(1) by (simp add: sys_ok_def)
  have len: "unat width < 2 ^ 64" using valid_width_le [OF assms(2)] by simp
  have wr: "WriteBlock ?m a ?bs = Inr (True, ?m')" using WriteBlock_spec [OF gm, of ?bs a] len assms(5,6) by simp
  have "guest_byte ?m' (unat a + i) = ?bs ! i" if i: "i < unat width" for i
  proof -
    from assms(6) i obtain p where p: "host_of ?m (unat a + i) = Some p" by blast
    have "guest_store ?m (unat a) ?bs (host ?m) p = ?bs ! i"
      by (rule guest_store_nth [OF _ p]) (use assms(7) i p in \<open>auto simp: inj_on_def\<close>)
    with p show ?thesis by (simp add: guest_byte_def)
  qed
  then have "map (\<lambda>i. guest_byte ?m' (unat a + i)) [0..<unat width] = ?bs" by (intro nth_equalityI) simp_all
  then have "ReadBlock ?m' a (unat width) = Inr (True, ?bs, ?m')"
    using ReadBlock_spec [of ?m' "unat width" a] gm len assms(5,6) by simp
  moreover have "IsValidVirtualAddress ?m' a"
    using assms(4) unfolding IsValidVirtualAddress_def Let_def by (simp split: if_splits)
  ultimately show ?thesis
    using assms(2-4) wr le_overlay_bytes [of "unat width" v]
    by (simp add: write_memory_def read_memory_def StandardVmCallbacks_def std_MemoryWriteUnsafe_def
        std_MemoryReadUnsafe_def)
qed

theorem cheat_store_then_load_witness:
  "\<exists>sys'. write_memory (StandardVmCallbacks low_metadata) 2 0xFFF 0x123456 idle_system = Inr sys' \<and>
    read_memory (StandardVmCallbacks low_metadata) 2 0xFFF 0 sys' = Inr (0x3456, sys')"
proof -
  have "\<forall>i<unat (2 :: u32). host_of two_pages (unat (0xFFF :: u64) + i) \<noteq> None"
    "inj_on (\<lambda>i. host_of two_pages (unat (0xFFF :: u64) + i)) {..<unat (2 :: u32)}"
    using two_pages_host by (auto simp: inj_on_def less_2_cases_iff)
  moreover have "IsAddressInRange low_metadata 0xFFF"
    by (simp add: IsAddressInRange_def in_extents_def low_metadata_def no_metadata_def)
  moreover have "IsValidVirtualAddress two_pages 0xFFF"
    by (simp add: IsValidVirtualAddress_def two_pages_def SUYU_PAGESIZE_def PageInfo_Store_def PageType_bits_def
        ExtractPointer_def ATTRIBUTE_BITS_def mask_eq_exp_minus_1)
  ultimately show ?thesis
    using cheat_store_then_load [OF idle_system_ok, of 2 low_metadata "0xFFF" "0x123456"] two_pages_contains
    by (simp add: idle_system_def valid_width_def)
qed

end
