(* ===== verification/MacroInterpreter.thy ===== *)
theory MacroInterpreter
  imports Prelude
begin

text \<open>
  The interpreter of GPU macros (\<^verbatim>\<open>video_core/macro/macro_interpreter.cpp\<close>, \<^verbatim>\<open>macro.h\<close>): small programs that games upload to the
  3D engine, with eight registers, a carry flag, a parameter queue and branch and exit instructions that have a delay
  slot.  The 3D engine the macros read and write is the record \<open>Maxwell3D\<close> of operations on an engine state.  A macro may
  loop forever, so \<^verbatim>\<open>Execute\<close> takes fuel, one unit per call of \<^verbatim>\<open>Step\<close> from its loop.
\<close>

section \<open>Opcodes\<close>

definition NUM_MACRO_REGISTERS :: nat where "NUM_MACRO_REGISTERS = 8"

datatype Operation =
    ALU
  | AddImmediate
  | ExtractInsert
  | ExtractShiftLeftImmediate
  | ExtractShiftLeftRegister
  | ReadOperation
  | UnusedOperation
  | Branch

datatype ALUOperation =
    Add
  | AddWithCarry
  | Subtract
  | SubtractWithBorrow
  | Xor
  | Or
  | And
  | AndNot
  | Nand
  | OtherALU u32

datatype ResultOperation =
    IgnoreAndFetch
  | Move
  | MoveAndSetMethod
  | FetchAndSend
  | MoveAndSend
  | FetchAndSetMethod
  | MoveAndSetMethodFetchAndSend
  | MoveAndSetMethodSend

datatype BranchCondition = Zero | NotZero

definition to_Operation :: "u32 \<Rightarrow> Operation" where
  "to_Operation n =
     (if n = 0 then ALU else if n = 1 then AddImmediate else if n = 2 then ExtractInsert
      else if n = 3 then ExtractShiftLeftImmediate else if n = 4 then ExtractShiftLeftRegister
      else if n = 5 then ReadOperation else if n = 6 then UnusedOperation else Branch)"

definition to_ALUOperation :: "u32 \<Rightarrow> ALUOperation" where
  "to_ALUOperation n =
     (if n = 0 then Add else if n = 1 then AddWithCarry else if n = 2 then Subtract
      else if n = 3 then SubtractWithBorrow else if n = 8 then Xor else if n = 9 then Or
      else if n = 10 then And else if n = 11 then AndNot else if n = 12 then Nand else OtherALU n)"

definition to_ResultOperation :: "u32 \<Rightarrow> ResultOperation" where
  "to_ResultOperation n =
     (if n = 0 then IgnoreAndFetch else if n = 1 then Move else if n = 2 then MoveAndSetMethod
      else if n = 3 then FetchAndSend else if n = 4 then MoveAndSend else if n = 5 then FetchAndSetMethod
      else if n = 6 then MoveAndSetMethodFetchAndSend else MoveAndSetMethodSend)"

definition to_BranchCondition :: "u32 \<Rightarrow> BranchCondition" where
  "to_BranchCondition n = (if n = 0 then Zero else NotZero)"

text \<open>The fields of the union \<^verbatim>\<open>Opcode\<close>, read off the raw word.\<close>

definition op_operation :: "u32 \<Rightarrow> Operation" where
  "op_operation raw = to_Operation (bf_ExtractValue 0 3 raw)"

definition op_result_operation :: "u32 \<Rightarrow> ResultOperation" where
  "op_result_operation raw = to_ResultOperation (bf_ExtractValue 4 3 raw)"

definition op_branch_condition :: "u32 \<Rightarrow> BranchCondition" where
  "op_branch_condition raw = to_BranchCondition (bf_ExtractValue 4 1 raw)"

definition op_branch_annul :: "u32 \<Rightarrow> bool" where
  "op_branch_annul raw \<longleftrightarrow> bf_ExtractValue 5 1 raw \<noteq> 0"

definition op_is_exit :: "u32 \<Rightarrow> bool" where
  "op_is_exit raw \<longleftrightarrow> bf_ExtractValue 7 1 raw \<noteq> 0"

definition op_dst :: "u32 \<Rightarrow> u32" where "op_dst raw = bf_ExtractValue 8 3 raw"
definition op_src_a :: "u32 \<Rightarrow> u32" where "op_src_a raw = bf_ExtractValue 11 3 raw"
definition op_src_b :: "u32 \<Rightarrow> u32" where "op_src_b raw = bf_ExtractValue 14 3 raw"
definition op_immediate :: "u32 \<Rightarrow> u32" where "op_immediate raw = bf_ExtractSigned 14 18 raw"

definition op_alu_operation :: "u32 \<Rightarrow> ALUOperation" where
  "op_alu_operation raw = to_ALUOperation (bf_ExtractValue 17 5 raw)"

definition op_bf_src_bit :: "u32 \<Rightarrow> u32" where "op_bf_src_bit raw = bf_ExtractValue 17 5 raw"
definition op_bf_size :: "u32 \<Rightarrow> u32" where "op_bf_size raw = bf_ExtractValue 22 5 raw"
definition op_bf_dst_bit :: "u32 \<Rightarrow> u32" where "op_bf_dst_bit raw = bf_ExtractValue 27 5 raw"

text \<open>\<^verbatim>\<open>(1 << bf_size) - 1\<close> is computed in \<^verbatim>\<open>int\<close>: for a size of 31 the subtraction overflows.\<close>

definition GetBitfieldMask :: "u32 \<Rightarrow> u32 run" where
  "GetBitfieldMask raw =
     (if op_bf_size raw = 31 then Inl SignedOverflow
      else Inr (push_bit (unat (op_bf_size raw)) 1 - 1))"

definition GetBranchTarget :: "u32 \<Rightarrow> u32" where
  "GetBranchTarget raw = op_immediate raw * 4"

text \<open>The union \<^verbatim>\<open>MethodAddress\<close>.\<close>

definition ma_address :: "u32 \<Rightarrow> u32" where "ma_address raw = bf_ExtractValue 0 12 raw"
definition ma_increment :: "u32 \<Rightarrow> u32" where "ma_increment raw = bf_ExtractValue 12 6 raw"

section \<open>State\<close>

record 'g Maxwell3D =
  CallMethod :: "u32 \<Rightarrow> u32 \<Rightarrow> bool \<Rightarrow> 'g \<Rightarrow> 'g run"
  GetRegisterValue :: "u32 \<Rightarrow> 'g \<Rightarrow> u32 run"
  RefreshParameters :: "u32 list \<Rightarrow> 'g \<Rightarrow> (u32 list \<times> 'g) run"

record MacroInterpreterImpl =
  pc :: u32
  delayed_pc :: "u32 option"
  macro_registers :: "u32 list"
  method_address :: u32
  parameters :: "u32 list"
  num_parameters :: nat
  parameters_capacity :: nat
  next_parameter_index :: u32
  carry_flag :: bool

definition new_interpreter :: MacroInterpreterImpl where
  "new_interpreter = \<lparr>pc = 0, delayed_pc = None, macro_registers = replicate NUM_MACRO_REGISTERS 0,
     method_address = 0, parameters = [], num_parameters = 0, parameters_capacity = 0,
     next_parameter_index = 0, carry_flag = False\<rparr>"

definition macro_Reset :: "MacroInterpreterImpl \<Rightarrow> MacroInterpreterImpl" where
  "macro_Reset m = m\<lparr>macro_registers := replicate NUM_MACRO_REGISTERS 0, pc := 0, delayed_pc := None,
     method_address := 0, num_parameters := 0, next_parameter_index := 1, carry_flag := False\<rparr>"

type_synonym 'g mst = "MacroInterpreterImpl \<times> 'g"

definition GetOpcode :: "u32 list \<Rightarrow> MacroInterpreterImpl \<Rightarrow> u32 run" where
  "GetOpcode code m =
     ensure (pc m mod 4 = 0) (ensure (unat (pc m) < length code * 4) (aget code (int (unat (pc m) div 4))))"

definition GetRegister :: "u32 \<Rightarrow> MacroInterpreterImpl \<Rightarrow> u32 run" where
  "GetRegister i m = aget (macro_registers m) (uint i)"

definition SetRegister :: "u32 \<Rightarrow> u32 \<Rightarrow> MacroInterpreterImpl \<Rightarrow> MacroInterpreterImpl run" where
  "SetRegister i v m =
     (if i = 0 then Inr m
      else bind_run (aset (macro_registers m) (uint i) v) (\<lambda>rs. Inr (m\<lparr>macro_registers := rs\<rparr>)))"

definition SetMethodAddress :: "u32 \<Rightarrow> MacroInterpreterImpl \<Rightarrow> MacroInterpreterImpl" where
  "SetMethodAddress address m = m\<lparr>method_address := address\<rparr>"

definition macro_Send :: "'g Maxwell3D \<Rightarrow> u32 \<Rightarrow> 'g mst \<Rightarrow> 'g mst run" where
  "macro_Send maxwell3d v s =
     (case s of (m, g) \<Rightarrow>
        bind_run (CallMethod maxwell3d (ma_address (method_address m)) v True g) (\<lambda>g1.
        Inr (m\<lparr>method_address := bf_Assign 0 12 (ma_address (method_address m) + ma_increment (method_address m))
               (method_address m)\<rparr>, g1)))"

definition FetchParameter :: "MacroInterpreterImpl \<Rightarrow> (u32 \<times> MacroInterpreterImpl) run" where
  "FetchParameter m =
     ensure (unat (next_parameter_index m) < num_parameters m)
       (bind_run (aget (parameters m) (uint (next_parameter_index m))) (\<lambda>v.
        Inr (v, m\<lparr>next_parameter_index := next_parameter_index m + 1\<rparr>)))"

section \<open>Instructions\<close>

definition GetALUResult ::
  "ALUOperation \<Rightarrow> u32 \<Rightarrow> u32 \<Rightarrow> MacroInterpreterImpl \<Rightarrow> (u32 \<times> MacroInterpreterImpl) run" where
  "GetALUResult operation src_a src_b m =
     (case operation of
        Add \<Rightarrow>
          let result = ucast src_a + ucast src_b :: u64
          in Inr (ucast result, m\<lparr>carry_flag := result > 0xffffffff\<rparr>)
      | AddWithCarry \<Rightarrow>
          let result = ucast src_a + ucast src_b + (if carry_flag m then 1 else 0) :: u64
          in Inr (ucast result, m\<lparr>carry_flag := result > 0xffffffff\<rparr>)
      | Subtract \<Rightarrow>
          let result = ucast src_a - ucast src_b :: u64
          in Inr (ucast result, m\<lparr>carry_flag := result < 0x100000000\<rparr>)
      | SubtractWithBorrow \<Rightarrow>
          let result = ucast src_a - ucast src_b - (if carry_flag m then 0 else 1) :: u64
          in Inr (ucast result, m\<lparr>carry_flag := result < 0x100000000\<rparr>)
      | Xor \<Rightarrow> Inr (src_a XOR src_b, m)
      | Or \<Rightarrow> Inr (src_a OR src_b, m)
      | And \<Rightarrow> Inr (src_a AND src_b, m)
      | AndNot \<Rightarrow> Inr (src_a AND NOT src_b, m)
      | Nand \<Rightarrow> Inr (NOT (src_a AND src_b), m)
      | OtherALU n \<Rightarrow> Inl AssertFailed)"

definition fetch_to :: "u32 \<Rightarrow> MacroInterpreterImpl \<Rightarrow> MacroInterpreterImpl run" where
  "fetch_to reg m = bind_run (FetchParameter m) (\<lambda>(v, m1). SetRegister reg v m1)"

definition ProcessResult ::
  "'g Maxwell3D \<Rightarrow> ResultOperation \<Rightarrow> u32 \<Rightarrow> u32 \<Rightarrow> 'g mst \<Rightarrow> 'g mst run" where
  "ProcessResult maxwell3d operation reg result s =
     (case s of (m, g) \<Rightarrow>
        (case operation of
           IgnoreAndFetch \<Rightarrow> bind_run (fetch_to reg m) (\<lambda>m1. Inr (m1, g))
         | Move \<Rightarrow> bind_run (SetRegister reg result m) (\<lambda>m1. Inr (m1, g))
         | MoveAndSetMethod \<Rightarrow>
             bind_run (SetRegister reg result m) (\<lambda>m1. Inr (SetMethodAddress result m1, g))
         | FetchAndSend \<Rightarrow> bind_run (fetch_to reg m) (\<lambda>m1. macro_Send maxwell3d result (m1, g))
         | MoveAndSend \<Rightarrow> bind_run (SetRegister reg result m) (\<lambda>m1. macro_Send maxwell3d result (m1, g))
         | FetchAndSetMethod \<Rightarrow> bind_run (fetch_to reg m) (\<lambda>m1. Inr (SetMethodAddress result m1, g))
         | MoveAndSetMethodFetchAndSend \<Rightarrow>
             bind_run (SetRegister reg result m) (\<lambda>m1.
             bind_run (FetchParameter (SetMethodAddress result m1)) (\<lambda>(v, m2).
             macro_Send maxwell3d v (m2, g)))
         | MoveAndSetMethodSend \<Rightarrow>
             bind_run (SetRegister reg result m) (\<lambda>m1.
             macro_Send maxwell3d (drop_bit 12 result AND 0b111111) (SetMethodAddress result m1, g))))"

definition EvaluateBranchCondition :: "BranchCondition \<Rightarrow> u32 \<Rightarrow> bool" where
  "EvaluateBranchCondition cond v = (case cond of Zero \<Rightarrow> v = 0 | NotZero \<Rightarrow> v \<noteq> 0)"

text \<open>Shifts of a 32-bit value by 32 or more are undefined.\<close>

definition shr32 :: "u32 \<Rightarrow> u32 \<Rightarrow> u32 run" where
  "shr32 x n = (if n < 32 then Inr (drop_bit (unat n) x) else Inl ShiftOutOfRange)"

definition shl32 :: "u32 \<Rightarrow> u32 \<Rightarrow> u32 run" where
  "shl32 x n = (if n < 32 then Inr (push_bit (unat n) x) else Inl ShiftOutOfRange)"

definition extract_insert :: "u32 \<Rightarrow> u32 \<Rightarrow> u32 \<Rightarrow> u32 run" where
  "extract_insert opcode dst src =
     bind_run (shr32 src (op_bf_src_bit opcode)) (\<lambda>shifted.
     bind_run (GetBitfieldMask opcode) (\<lambda>m.
     bind_run (shl32 m (op_bf_dst_bit opcode)) (\<lambda>hole.
     bind_run (shl32 (shifted AND m) (op_bf_dst_bit opcode)) (\<lambda>field.
     Inr ((dst AND NOT hole) OR field)))))"

definition extract_shift :: "u32 \<Rightarrow> u32 \<Rightarrow> u32 \<Rightarrow> u32 \<Rightarrow> u32 run" where
  "extract_shift opcode src right left =
     bind_run (shr32 src right) (\<lambda>shifted.
     bind_run (GetBitfieldMask opcode) (\<lambda>m. shl32 (shifted AND m) left))"

text \<open>The operations that compute a result for \<^verbatim>\<open>ProcessResult\<close>.\<close>

definition compute_result ::
  "'g Maxwell3D \<Rightarrow> u32 \<Rightarrow> 'g mst \<Rightarrow> (u32 \<times> MacroInterpreterImpl) run" where
  "compute_result maxwell3d opcode s =
     (case s of (m, g) \<Rightarrow>
        bind_run (GetRegister (op_src_a opcode) m) (\<lambda>a.
        bind_run (GetRegister (op_src_b opcode) m) (\<lambda>b.
        (case op_operation opcode of
           ALU \<Rightarrow> GetALUResult (op_alu_operation opcode) a b m
         | AddImmediate \<Rightarrow> Inr (a + op_immediate opcode, m)
         | ExtractInsert \<Rightarrow> bind_run (extract_insert opcode a b) (\<lambda>r. Inr (r, m))
         | ExtractShiftLeftImmediate \<Rightarrow>
             bind_run (extract_shift opcode b a (op_bf_dst_bit opcode)) (\<lambda>r. Inr (r, m))
         | ExtractShiftLeftRegister \<Rightarrow>
             bind_run (extract_shift opcode b (op_bf_src_bit opcode) a) (\<lambda>r. Inr (r, m))
         | ReadOperation \<Rightarrow>
             bind_run (GetRegisterValue maxwell3d (a + op_immediate opcode) g) (\<lambda>r. Inr (r, m))
         | UnusedOperation \<Rightarrow> Inl AssertFailed
         | Branch \<Rightarrow> Inl AssertFailed))))"

text \<open>The start of a step: the opcode, and the machine with its program counter advanced or taken from the branch.\<close>

definition advance :: "bool \<Rightarrow> MacroInterpreterImpl \<Rightarrow> MacroInterpreterImpl run" where
  "advance is_delay_slot m =
     (case delayed_pc m of
        None \<Rightarrow> Inr (m\<lparr>pc := pc m + 4\<rparr>)
      | Some target \<Rightarrow> ensure is_delay_slot (Inr (m\<lparr>pc := target, delayed_pc := None\<rparr>)))"

function macro_Step :: "'g Maxwell3D \<Rightarrow> u32 list \<Rightarrow> bool \<Rightarrow> 'g mst \<Rightarrow> (bool \<times> 'g mst) run" where
  "macro_Step maxwell3d code is_delay_slot (m, g) =
     (let base_address = pc m
      in bind_run (GetOpcode code m) (\<lambda>opcode.
         bind_run (advance is_delay_slot m) (\<lambda>m1.
         if op_operation opcode = Branch then
           (if is_delay_slot then Inl AssertFailed
            else
              bind_run (GetRegister (op_src_a opcode) m1) (\<lambda>v.
              if EvaluateBranchCondition (op_branch_condition opcode) v then
                (if op_branch_annul opcode
                 then Inr (True, (m1\<lparr>pc := base_address + GetBranchTarget opcode\<rparr>, g))
                 else macro_Step maxwell3d code True
                   (m1\<lparr>delayed_pc := Some (base_address + GetBranchTarget opcode)\<rparr>, g))
              else if op_is_exit opcode then
                bind_run (macro_Step maxwell3d code True (m1, g)) (\<lambda>(keep, s2). Inr (False, s2))
              else Inr (True, (m1, g))))
         else
           bind_run (compute_result maxwell3d opcode (m1, g)) (\<lambda>(result, m2).
           bind_run (ProcessResult maxwell3d (op_result_operation opcode) (op_dst opcode) result (m2, g)) (\<lambda>s1.
           if op_is_exit opcode \<and> \<not> is_delay_slot then
             bind_run (macro_Step maxwell3d code True s1) (\<lambda>(keep, s2). Inr (False, s2))
           else Inr (True, s1))))))"
  by pat_completeness auto
termination
  by (relation "measure (\<lambda>(x, c, d, s). if d then 0 else 1)") auto

fun macro_loop :: "nat \<Rightarrow> 'g Maxwell3D \<Rightarrow> u32 list \<Rightarrow> 'g mst \<Rightarrow> 'g mst run" where
  "macro_loop 0 maxwell3d code s = Inl OutOfFuel"
| "macro_loop (Suc fuel) maxwell3d code s =
     bind_run (macro_Step maxwell3d code False s) (\<lambda>(keep_executing, s1).
     if keep_executing then macro_loop fuel maxwell3d code s1 else Inr s1)"

definition load_parameters :: "u32 list \<Rightarrow> MacroInterpreterImpl \<Rightarrow> MacroInterpreterImpl run" where
  "load_parameters params m =
     bind_run (aget params 0) (\<lambda>first.
     bind_run (aset (macro_registers m) 1 first) (\<lambda>rs.
     let m1 = m\<lparr>macro_registers := rs, num_parameters := length params\<rparr>;
         m2 = (if length params > parameters_capacity m1
               then m1\<lparr>parameters_capacity := length params, parameters := replicate (length params) 0\<rparr> else m1)
     in Inr (m2\<lparr>parameters := params @ drop (length params) (parameters m2)\<rparr>)))"

definition MacroInterpreterImpl_Execute ::
  "nat \<Rightarrow> 'g Maxwell3D \<Rightarrow> u32 list \<Rightarrow> u32 list \<Rightarrow> 'g mst \<Rightarrow> 'g mst run" where
  "MacroInterpreterImpl_Execute fuel maxwell3d code params s =
     bind_run (load_parameters params (macro_Reset (fst s))) (\<lambda>m.
     bind_run (macro_loop fuel maxwell3d code (m, snd s)) (\<lambda>s1.
     ensure (unat (next_parameter_index (fst s1)) = num_parameters (fst s1)) (Inr s1)))"

section \<open>A reference machine for delay slots\<close>

text \<open>The machine of the instruction set: a program counter and the address that follows it.  A taken branch changes the
  address behind its delay slot, an exit makes the instruction after it the last one.  The state's own program counter is
  the current address and its pending branch is unused.\<close>

datatype phase = Running | InSlot | LastSlot | Halted

type_synonym 'g isa = "phase \<times> u32 \<times> 'g mst"

definition phase_after :: "u32 \<Rightarrow> phase \<Rightarrow> phase" where
  "phase_after opcode ph =
     (case ph of Running \<Rightarrow> (if op_is_exit opcode then LastSlot else Running) | InSlot \<Rightarrow> Running | _ \<Rightarrow> Halted)"

definition isa_step :: "'g Maxwell3D \<Rightarrow> u32 list \<Rightarrow> 'g isa \<Rightarrow> 'g isa run" where
  "isa_step x code c =
     (case c of (ph, npc, (m, g)) \<Rightarrow>
        bind_run (GetOpcode code m) (\<lambda>opcode.
        let m1 = m\<lparr>pc := npc\<rparr>
        in if op_operation opcode = Branch then
             ensure (ph = Running) (bind_run (GetRegister (op_src_a opcode) m1) (\<lambda>v.
             let target = pc m + GetBranchTarget opcode
             in Inr (if \<not> EvaluateBranchCondition (op_branch_condition opcode) v
                     then (phase_after opcode ph, npc + 4, (m1, g))
                     else if op_branch_annul opcode then (Running, target + 4, (m1\<lparr>pc := target\<rparr>, g))
                     else (InSlot, target, (m1, g)))))
           else
             bind_run (compute_result x opcode (m1, g)) (\<lambda>(result, m2).
             bind_run (ProcessResult x (op_result_operation opcode) (op_dst opcode) result (m2, g)) (\<lambda>s1.
             Inr (phase_after opcode ph, npc + 4, s1)))))"

fun isa_run :: "nat \<Rightarrow> 'g Maxwell3D \<Rightarrow> u32 list \<Rightarrow> 'g isa \<Rightarrow> 'g mst run" where
  "isa_run 0 x code c = Inl OutOfFuel"
| "isa_run (Suc n) x code c =
     bind_run (isa_step x code c) (\<lambda>(ph, npc, s). if ph = Halted then Inr s else isa_run n x code (ph, npc, s))"

text \<open>What an instruction's result does to the machine leaves the program counter and the pending branch alone.\<close>

definition same_pc :: "MacroInterpreterImpl \<Rightarrow> MacroInterpreterImpl \<Rightarrow> bool" where
  "same_pc m m' \<longleftrightarrow> pc m' = pc m \<and> delayed_pc m' = delayed_pc m"

lemma same_pc_refl [simp]: "same_pc m m"
  by (simp add: same_pc_def)

lemma same_pc_trans: "same_pc a b \<Longrightarrow> same_pc b c \<Longrightarrow> same_pc a c"
  by (simp add: same_pc_def)

lemma SetRegister_pc: "SetRegister i v m = Inr m' \<Longrightarrow> same_pc m m'"
  by (auto simp: SetRegister_def same_pc_def bind_run_eq_Inr split: if_splits)

lemma FetchParameter_pc: "FetchParameter m = Inr (v, m') \<Longrightarrow> same_pc m m'"
  by (auto simp: FetchParameter_def same_pc_def bind_run_eq_Inr ensure_eq_Inr)

lemma fetch_to_pc: "fetch_to r m = Inr m' \<Longrightarrow> same_pc m m'"
  by (auto simp: fetch_to_def bind_run_eq_Inr intro: same_pc_trans dest!: SetRegister_pc FetchParameter_pc)

lemma macro_Send_pc: "macro_Send x v (m, g) = Inr (m', g') \<Longrightarrow> same_pc m m'"
  by (auto simp: macro_Send_def same_pc_def bind_run_eq_Inr)

lemma SetMethodAddress_pc [simp]: "same_pc m (SetMethodAddress a m') = same_pc m m'"
  "same_pc (SetMethodAddress a m) m' = same_pc m m'"
  by (simp_all add: SetMethodAddress_def same_pc_def)

lemma ProcessResult_pc:
  "ProcessResult x op r v (m, g) = Inr (m', g') \<Longrightarrow> same_pc m m'"
  by (cases op; fastforce simp: ProcessResult_def bind_run_eq_Inr
      dest!: SetRegister_pc FetchParameter_pc fetch_to_pc macro_Send_pc intro: same_pc_trans [OF same_pc_trans])

lemma GetALUResult_pc: "GetALUResult op a b m = Inr (r, m') \<Longrightarrow> same_pc m m'"
  by (cases op) (auto simp: GetALUResult_def same_pc_def Let_def)

lemma compute_result_pc: "compute_result x op (m, g) = Inr (r, m') \<Longrightarrow> same_pc m m'"
  by (cases "op_operation op") (auto simp: compute_result_def bind_run_eq_Inr dest: GetALUResult_pc)

lemma instruction_pc:
  assumes "compute_result x opcode (m, g) = Inr (r, m2)" "ProcessResult x ro d r (m2, g) = Inr (m3, g3)"
  shows "same_pc m m3"
  using same_pc_trans [OF compute_result_pc [OF assms(1)] ProcessResult_pc [OF assms(2)]] .

declare macro_Step.simps [simp del]

lemma GetOpcode_delayed [simp]: "GetOpcode code (m\<lparr>delayed_pc := d\<rparr>) = GetOpcode code m"
  by (simp add: GetOpcode_def)

text \<open>A step in a delay slot is one instruction of the machine.\<close>

lemma Step_slot:
  assumes "ph = InSlot \<or> ph = LastSlot" "npc = (case delayed_pc m of None \<Rightarrow> pc m + 4 | Some t \<Rightarrow> t)"
  shows "macro_Step x code True (m, g) =
    bind_run (isa_step x code (ph, npc, (m\<lparr>delayed_pc := None\<rparr>, g))) (\<lambda>(ph', npc', s). Inr (True, s))"
proof -
  have adv: "advance True m = Inr (m\<lparr>delayed_pc := None, pc := npc\<rparr>)"
    using assms(2) by (cases m) (auto simp: advance_def split: option.splits)
  show ?thesis
  proof (cases "GetOpcode code m")
    case (Inr opcode)
    then show ?thesis
      using adv assms(1)
      by (auto simp: macro_Step.simps isa_step_def Let_def ensure_def bind_run_def
          split: sum.split prod.split)
  qed (simp add: macro_Step.simps isa_step_def)
qed

lemma Step_isa:
  assumes "delayed_pc m = None"
  shows "macro_Step x code False (m, g) =
    bind_run (isa_step x code (Running, pc m + 4, (m, g))) (\<lambda>(ph, npc, s).
    if ph = Running then Inr (True, s)
    else bind_run (isa_step x code (ph, npc, s)) (\<lambda>(ph', npc', s'). Inr (ph = InSlot, s')))"
proof (cases "GetOpcode code m")
  case (Inr opcode)
  have adv: "advance False m = Inr (m\<lparr>pc := pc m + 4\<rparr>)" using assms by (simp add: advance_def)
  have clear: "m'\<lparr>delayed_pc := None\<rparr> = m'" if "delayed_pc m' = None" for m' using that by (cases m') simp
  show ?thesis
  proof (cases "op_operation opcode = Branch")
    case True
    let ?m1 = "m\<lparr>pc := pc m + 4\<rparr>"
    let ?t = "pc m + GetBranchTarget opcode"
    have slot: "macro_Step x code True (?m1\<lparr>delayed_pc := Some ?t\<rparr>, g) =
        bind_run (isa_step x code (InSlot, ?t, (?m1, g))) (\<lambda>(ph', npc', s). Inr (True, s))"
      using Step_slot [of InSlot ?t "?m1\<lparr>delayed_pc := Some ?t\<rparr>" x code g] clear [of ?m1] assms by simp
    have last: "macro_Step x code True (?m1, g) =
        bind_run (isa_step x code (LastSlot, pc m + 8, (?m1, g))) (\<lambda>(ph', npc', s). Inr (True, s))"
      using Step_slot [of LastSlot "pc m + 8" ?m1 x code g] clear [of ?m1] assms by (simp add: add.assoc)
    show ?thesis
      using Inr adv True slot last
      by (cases "GetRegister (op_src_a opcode) ?m1")
        (auto simp: macro_Step.simps [of x code False m] isa_step_def [of x code "(Running, _, _)"] Let_def phase_after_def
          add.assoc bind_run_assoc split_def)
  next
    case False
    let ?m1 = "m\<lparr>pc := pc m + 4\<rparr>"
    have last: "macro_Step x code True s1 =
        bind_run (isa_step x code (LastSlot, pc m + 8, s1)) (\<lambda>(ph', npc', s). Inr (True, s))"
      if "compute_result x opcode (?m1, g) = Inr (r, m2)"
        "ProcessResult x (op_result_operation opcode) (op_dst opcode) r (m2, g) = Inr s1" for r m2 s1
    proof -
      obtain m3 g3 where s1: "s1 = (m3, g3)" by (cases s1)
      with instruction_pc [OF that(1), of "op_result_operation opcode" "op_dst opcode" m3 g3] that(2) assms
      have "pc m3 = pc m + 4" "delayed_pc m3 = None" by (simp_all add: same_pc_def)
      then show ?thesis
        using Step_slot [of LastSlot "pc m + 8" m3 x code g3] clear [of m3] s1 by (simp add: add.assoc)
    qed
    show ?thesis
    proof (cases "compute_result x opcode (?m1, g)")
      case c: (Inr p)
      obtain r m2 where p: "p = (r, m2)" by (cases p)
      show ?thesis
        using Inr adv False c p last [OF c [unfolded p]]
        by (cases "ProcessResult x (op_result_operation opcode) (op_dst opcode) r (m2, g)")
          (auto simp: macro_Step.simps [of x code False m] isa_step_def [of x code "(Running, _, _)"] Let_def
            phase_after_def bind_run_assoc split_def add.assoc)
    qed (use Inr adv False in \<open>simp add: macro_Step.simps isa_step_def Let_def\<close>)
  qed
qed (simp add: macro_Step.simps isa_step_def)

text \<open>Where a step of the machine leads.\<close>

lemma isa_step_shape:
  assumes "isa_step x code (ph, npc, (m, g)) = Inr (ph', npc', (m', g'))"
  obtains (plain) opcode where "GetOpcode code m = Inr opcode" "delayed_pc m' = delayed_pc m" "pc m' = npc"
      "npc' = npc + 4" "ph' = phase_after opcode ph"
    | (annul) opcode where "GetOpcode code m = Inr opcode" "delayed_pc m' = delayed_pc m" "ph = Running" "ph' = Running"
      "op_operation opcode = Branch" "pc m' = pc m + GetBranchTarget opcode" "npc' = pc m' + 4"
    | (taken) opcode where "GetOpcode code m = Inr opcode" "delayed_pc m' = delayed_pc m" "ph = Running" "ph' = InSlot"
      "op_operation opcode = Branch" "pc m' = npc" "npc' = pc m + GetBranchTarget opcode"
proof -
  from assms obtain opcode where op: "GetOpcode code m = Inr opcode" by (auto simp: isa_step_def bind_run_eq_Inr)
  show thesis
  proof (cases "op_operation opcode = Branch")
    case True
    let ?t = "pc m + GetBranchTarget opcode"
    from assms op True obtain v where ph: "ph = Running" and e:
        "(if \<not> EvaluateBranchCondition (op_branch_condition opcode) v then (phase_after opcode ph, npc + 4, (m\<lparr>pc := npc\<rparr>, g))
         else if op_branch_annul opcode then (Running, ?t + 4, (m\<lparr>pc := npc, pc := ?t\<rparr>, g))
         else (InSlot, ?t, (m\<lparr>pc := npc\<rparr>, g))) = (ph', npc', (m', g'))"
      by (auto simp: isa_step_def Let_def bind_run_eq_Inr ensure_eq_Inr)
    consider (p) "\<not> EvaluateBranchCondition (op_branch_condition opcode) v"
      | (a) "EvaluateBranchCondition (op_branch_condition opcode) v" "op_branch_annul opcode"
      | (t) "EvaluateBranchCondition (op_branch_condition opcode) v" "\<not> op_branch_annul opcode" by blast
    then show thesis
    proof cases
      case p then show thesis using e by (intro plain [OF op]) auto
    next
      case a then show thesis using e ph True by (intro annul [OF op]) auto
    next
      case t then show thesis using e ph True by (intro taken [OF op]) auto
    qed
  next
    case False
    from assms op False obtain r m2 where c: "compute_result x opcode (m\<lparr>pc := npc\<rparr>, g) = Inr (r, m2)"
      "ProcessResult x (op_result_operation opcode) (op_dst opcode) r (m2, g) = Inr (m', g')"
      and e: "ph' = phase_after opcode ph" "npc' = npc + 4"
      by (auto simp: isa_step_def Let_def bind_run_eq_Inr)
    from instruction_pc [OF c] e show thesis by (intro plain [OF op]) (simp_all add: same_pc_def)
  qed
qed

lemma isa_step_ok:
  assumes "isa_step x code (ph, npc, (m, g)) = Inr (ph', npc', (m', g'))"
  shows "delayed_pc m' = delayed_pc m" "ph' \<noteq> InSlot \<Longrightarrow> npc' = pc m' + 4" "ph = Running \<Longrightarrow> ph' \<noteq> Halted"
    "ph = InSlot \<Longrightarrow> ph' = Running" "ph = LastSlot \<Longrightarrow> ph' = Halted"
  using assms by (cases rule: isa_step_shape; simp add: phase_after_def split: phase.splits if_splits)+

text \<open>Steps of the interpreter and of the machine compute the same.\<close>

lemma isa_two_steps:
  assumes "delayed_pc m = None" "macro_Step x code False (m, g) = r"
  shows "(\<forall>f. r = Inl f \<longrightarrow> isa_run (Suc (Suc n)) x code (Running, pc m + 4, (m, g)) = Inl f) \<and>
    (\<forall>s. r = Inr (False, s) \<longrightarrow> isa_run (Suc (Suc n)) x code (Running, pc m + 4, (m, g)) = Inr s) \<and>
    (\<forall>m' g'. r = Inr (True, (m', g')) \<longrightarrow> delayed_pc m' = None \<and>
       (isa_run (Suc n) x code (Running, pc m + 4, (m, g)) = isa_run n x code (Running, pc m' + 4, (m', g')) \<or>
        isa_run (Suc (Suc n)) x code (Running, pc m + 4, (m, g)) = isa_run n x code (Running, pc m' + 4, (m', g'))))"
proof (cases "isa_step x code (Running, pc m + 4, (m, g))")
  case (Inl f)
  with assms Step_isa [OF assms(1), of x code g] show ?thesis by auto
next
  case (Inr c)
  obtain ph npc m1 g1 where c: "c = (ph, npc, (m1, g1))" by (cases c) auto
  note one = isa_step_ok [OF Inr [unfolded c]]
  show ?thesis
  proof (cases "ph = Running")
    case True
    with assms Step_isa [OF assms(1), of x code g] Inr c one show ?thesis by auto
  next
    case False
    with one have ph: "ph = InSlot \<or> ph = LastSlot" by (cases ph) auto
    show ?thesis
    proof (cases "isa_step x code c")
      case two: (Inr c2)
      obtain ph2 npc2 m2 g2 where c2: "c2 = (ph2, npc2, (m2, g2))" by (cases c2) auto
      from isa_step_ok [OF two [unfolded c c2]] two c2 ph assms Step_isa [OF assms(1), of x code g] Inr c one
      show ?thesis by auto
    qed (use ph assms Step_isa [OF assms(1), of x code g] Inr c one in auto)
  qed
qed

lemma isa_run_mono:
  assumes "isa_run n x code c = r" "r \<noteq> Inl OutOfFuel" "n \<le> k"
  shows "isa_run k x code c = r"
  using assms
proof (induction n arbitrary: c k)
  case (Suc n)
  then obtain j where "k = Suc j" "n \<le> j" by (cases k) auto
  show ?case
  proof (cases "isa_step x code c")
    case (Inr c1)
    obtain ph npc s where c1: "c1 = (ph, npc, s)" by (cases c1)
    show ?thesis
    proof (cases "ph = Halted")
      case False
      with Suc.prems(1) Inr c1 have "isa_run n x code (ph, npc, s) = r" by simp
      from Suc.IH [OF this Suc.prems(2) \<open>n \<le> j\<close>] show ?thesis using Inr c1 False \<open>k = Suc j\<close> by simp
    qed (use Suc.prems(1) Inr c1 \<open>k = Suc j\<close> in simp)
  qed (use Suc.prems(1) \<open>k = Suc j\<close> in simp)
qed simp

declare isa_run.simps(2) [simp del]

lemma macro_loop_isa:
  assumes "macro_loop fuel x code (m, g) = r" "r \<noteq> Inl OutOfFuel" "delayed_pc m = None"
  shows "\<exists>n. isa_run n x code (Running, pc m + 4, (m, g)) = r"
  using assms
proof (induction fuel arbitrary: m g)
  case (Suc fuel)
  note two = isa_two_steps [OF Suc.prems(3) refl, of x code g]
  show ?case
  proof (cases "macro_Step x code False (m, g)")
    case (Inl f)
    with two [of 0] Suc.prems show ?thesis by auto
  next
    case (Inr p)
    obtain keep m1 g1 where p: "p = (keep, (m1, g1))" by (cases p) auto
    show ?thesis
    proof (cases keep)
      case True
      with Suc.prems Inr p two [of 0] have "macro_loop fuel x code (m1, g1) = r" "delayed_pc m1 = None" by auto
      from Suc.IH [OF this(1) Suc.prems(2) this(2)] obtain n where "isa_run n x code (Running, pc m1 + 4, (m1, g1)) = r"
        by blast
      with two [of n] Inr p True have "isa_run (Suc n) x code (Running, pc m + 4, (m, g)) = r \<or>
          isa_run (Suc (Suc n)) x code (Running, pc m + 4, (m, g)) = r" by simp
      then show ?thesis by (elim disjE; intro exI)
    next
      case False
      with Suc.prems Inr p two [of 0] have "isa_run (Suc (Suc 0)) x code (Running, pc m + 4, (m, g)) = r" by simp
      then show ?thesis ..
    qed
  qed
qed simp

lemma isa_macro_loop:
  assumes "isa_run n x code (Running, pc m + 4, (m, g)) = r" "r \<noteq> Inl OutOfFuel" "delayed_pc m = None"
  shows "\<exists>fuel. macro_loop fuel x code (m, g) = r"
  using assms
proof (induction n arbitrary: m g rule: less_induct)
  case (less n)
  have big: "isa_run (Suc (Suc n)) x code (Running, pc m + 4, (m, g)) = r"
    by (rule isa_run_mono [OF less.prems(1,2)]) simp
  note two = isa_two_steps [OF less.prems(3) refl, of x code g]
  have n: "n \<noteq> 0" using less.prems by (cases n) auto
  show ?case
  proof (cases "macro_Step x code False (m, g)")
    case (Inl f)
    with two [of n] big have "macro_loop 1 x code (m, g) = r" by simp
    then show ?thesis ..
  next
    case (Inr p)
    obtain keep m1 g1 where p: "p = (keep, (m1, g1))" by (cases p) auto
    show ?thesis
    proof (cases keep)
      case True
      have rest: "isa_run (n - 1) x code (Running, pc m1 + 4, (m1, g1)) = r"
      proof -
        have "isa_run (Suc (n - 1)) x code (Running, pc m + 4, (m, g)) = r"
          "isa_run (Suc (Suc (n - 1))) x code (Running, pc m + 4, (m, g)) = r"
          by (rule isa_run_mono [OF less.prems(1,2)]; use n in simp)+
        with two [of "n - 1"] Inr p True show ?thesis by auto
      qed
      have "delayed_pc m1 = None" using two [of 0] Inr p True by simp
      from less.IH [OF _ rest less.prems(2) this] n obtain fuel where "macro_loop fuel x code (m1, g1) = r" by auto
      with Inr p True have "macro_loop (Suc fuel) x code (m, g) = r" by simp
      then show ?thesis ..
    next
      case False
      with two [of n] big Inr p have "macro_loop 1 x code (m, g) = r" by simp
      then show ?thesis ..
    qed
  qed
qed

lemma Step_pc:
  assumes "macro_Step x code False (m, g) = Inr (True, (m', g'))" "delayed_pc m = None"
  obtains opcode where "GetOpcode code m = Inr opcode" "delayed_pc m' = None"
    "pc m' = pc m + 4 \<or> op_operation opcode = Branch \<and> pc m' = pc m + GetBranchTarget opcode"
proof -
  from assms Step_isa [OF assms(2), of x code g] obtain ph npc m1 g1
    where one: "isa_step x code (Running, pc m + 4, (m, g)) = Inr (ph, npc, (m1, g1))"
      and rest: "ph = Running \<and> (m1, g1) = (m', g') \<or>
        ph = InSlot \<and> (\<exists>ph2 npc2. isa_step x code (ph, npc, (m1, g1)) = Inr (ph2, npc2, (m', g')))"
    by (auto simp: bind_run_eq_Inr split: if_splits prod.splits)
  show thesis
  proof (cases "ph = Running")
    case True
    with rest have eq: "m1 = m'" by auto
    from one show thesis
      by (cases rule: isa_step_shape) (use that eq True assms(2) in auto)
  next
    case False
    with rest obtain ph2 npc2 where ph: "ph = InSlot" and two: "isa_step x code (InSlot, npc, (m1, g1)) = Inr (ph2, npc2, (m', g'))"
      by auto
    from two have m': "pc m' = npc" "delayed_pc m' = delayed_pc m1" by (cases rule: isa_step_shape; simp)+
    from one ph show thesis
      by (cases rule: isa_step_shape) (use that m' assms(2) in \<open>auto simp: phase_after_def split: if_splits\<close>)
  qed
qed

section \<open>What a macro needs of the engine\<close>

text \<open>A failed assertion, or one of the faults \<open>F\<close>.\<close>

definition benign :: "fault set \<Rightarrow> fault \<Rightarrow> bool" where
  "benign F f \<longleftrightarrow> f \<in> F \<or> f = AssertFailed"

definition tame :: "fault set \<Rightarrow> ('a \<Rightarrow> bool) \<Rightarrow> 'a run \<Rightarrow> bool" where
  "tame F P r = (case r of Inl f \<Rightarrow> benign F f | Inr v \<Rightarrow> P v)"

lemma tame_Inr [simp]: "tame F P (Inr v) = P v" and tame_Inl [simp]: "tame F P (Inl f) = benign F f"
  by (simp_all add: tame_def)

lemma benign_simps [simp]:
  "benign F AssertFailed" "benign F ShiftOutOfRange \<longleftrightarrow> ShiftOutOfRange \<in> F"
  "benign F SignedOverflow \<longleftrightarrow> SignedOverflow \<in> F" "benign F OutOfFuel \<longleftrightarrow> OutOfFuel \<in> F"
  by (simp_all add: benign_def)

lemma tame_bind: "tame F P r \<Longrightarrow> (\<And>v. P v \<Longrightarrow> tame F Q (f v)) \<Longrightarrow> tame F Q (bind_run r f)"
  by (cases r) auto

lemma tame_ensure: "(p \<Longrightarrow> tame F P r) \<Longrightarrow> tame F P (ensure p r)"
  by (simp add: ensure_def)

lemma tame_mono: "tame F P r \<Longrightarrow> F \<subseteq> G \<Longrightarrow> tame G P r"
  by (cases r) (auto simp: benign_def)

definition macro_ok :: "nat \<Rightarrow> MacroInterpreterImpl \<Rightarrow> bool" where
  "macro_ok n m \<longleftrightarrow> length (macro_registers m) = NUM_MACRO_REGISTERS \<and> macro_registers m ! 0 = 0 \<and>
     num_parameters m = n \<and> n \<le> length (parameters m)"

locale macro_target =
  fixes x :: "'g Maxwell3D" and I :: "'g \<Rightarrow> bool" and F :: "fault set"
  assumes fuel_ok: "OutOfFuel \<notin> F"
    and call_ok: "I g \<Longrightarrow> tame F I (CallMethod x a v l g)"
    and read_ok: "I g \<Longrightarrow> tame {} (\<lambda>v. True) (GetRegisterValue x a g)"
begin

lemma call_not_out_of_fuel: "I g \<Longrightarrow> CallMethod x a v l g \<noteq> Inl OutOfFuel"
  using call_ok [of g a v l] fuel_ok by auto

end

definition mst_ok :: "nat \<Rightarrow> ('g \<Rightarrow> bool) \<Rightarrow> 'g mst \<Rightarrow> bool" where
  "mst_ok n I s \<longleftrightarrow> macro_ok n (fst s) \<and> I (snd s)"

lemma macro_ok_update [simp]:
  "macro_ok n (m\<lparr>pc := a\<rparr>) = macro_ok n m" "macro_ok n (m\<lparr>delayed_pc := d\<rparr>) = macro_ok n m"
  "macro_ok n (m\<lparr>method_address := r\<rparr>) = macro_ok n m" "macro_ok n (m\<lparr>carry_flag := c\<rparr>) = macro_ok n m"
  "macro_ok n (m\<lparr>next_parameter_index := i\<rparr>) = macro_ok n m" "macro_ok n (SetMethodAddress r m) = macro_ok n m"
  by (simp_all add: macro_ok_def SetMethodAddress_def)

lemma field3_less: "p + 3 \<le> 32 \<Longrightarrow> unat (bf_ExtractValue p 3 (w :: u32)) < 8"
  using bf_ExtractValue_less [of p 3 w] by simp

lemma op_register_less: "unat (op_dst w) < 8" "unat (op_src_a w) < 8" "unat (op_src_b w) < 8"
  by (simp_all add: op_dst_def op_src_a_def op_src_b_def field3_less)

lemma GetRegister_ok: "macro_ok n m \<Longrightarrow> unat r < 8 \<Longrightarrow> GetRegister r m = Inr (macro_registers m ! unat r)"
  by (simp add: GetRegister_def macro_ok_def NUM_MACRO_REGISTERS_def)

lemma SetRegister_ok: "macro_ok n m \<Longrightarrow> unat r < 8 \<Longrightarrow> tame F (macro_ok n) (SetRegister r v m)"
  by (auto simp: SetRegister_def macro_ok_def NUM_MACRO_REGISTERS_def unat_eq_0 nth_list_update)

lemma FetchParameter_ok: "macro_ok n m \<Longrightarrow> tame F (\<lambda>(v, m'). macro_ok n m') (FetchParameter m)"
  by (auto simp: FetchParameter_def macro_ok_def intro!: tame_ensure)

lemma fetch_to_ok: "macro_ok n m \<Longrightarrow> unat r < 8 \<Longrightarrow> tame F (macro_ok n) (fetch_to r m)"
  unfolding fetch_to_def by (rule tame_bind [OF FetchParameter_ok]) (auto intro: SetRegister_ok)

lemma GetALUResult_ok: "macro_ok n m \<Longrightarrow> tame F (\<lambda>(v, m'). macro_ok n m') (GetALUResult op a b m)"
  by (simp add: GetALUResult_def Let_def split: ALUOperation.split)

text \<open>Apart from a failed assertion a word can fault in two ways: it sends to an engine that faults with one of \<open>F\<close>, or it
  computes a field of 31 bits or shifts by a register.\<close>

definition sends :: "u32 \<Rightarrow> bool" where
  "sends w \<longleftrightarrow> op_operation w \<noteq> Branch \<and>
     op_result_operation w \<in> {FetchAndSend, MoveAndSend, MoveAndSetMethodFetchAndSend, MoveAndSetMethodSend}"

definition word_faults :: "fault set \<Rightarrow> u32 \<Rightarrow> fault set" where
  "word_faults F w = {f. f \<in> F \<and> sends w \<or>
     f = SignedOverflow \<and> op_bf_size w = 31 \<and>
       op_operation w \<in> {ExtractInsert, ExtractShiftLeftImmediate, ExtractShiftLeftRegister} \<or>
     f = ShiftOutOfRange \<and> op_operation w \<in> {ExtractShiftLeftImmediate, ExtractShiftLeftRegister}}"

definition code_faults :: "fault set \<Rightarrow> u32 list \<Rightarrow> fault set" where
  "code_faults F code = (\<Union>w\<in>set code. word_faults F w)"

lemma GetBitfieldMask_ok: "(op_bf_size w = 31 \<Longrightarrow> SignedOverflow \<in> F) \<Longrightarrow> tame F (\<lambda>v. True) (GetBitfieldMask w)"
  by (simp add: GetBitfieldMask_def)

lemma shift_ok:
  "(\<not> n < 32 \<Longrightarrow> ShiftOutOfRange \<in> F) \<Longrightarrow> tame F (\<lambda>v. True) (shr32 v n)"
  "(\<not> n < 32 \<Longrightarrow> ShiftOutOfRange \<in> F) \<Longrightarrow> tame F (\<lambda>v. True) (shl32 v n)"
  by (simp_all add: shr32_def shl32_def)

lemma field5_less: "p + 5 \<le> 32 \<Longrightarrow> bf_ExtractValue p 5 (w :: u32) < 32"
  using bf_ExtractValue_less [of p 5 w] by (simp add: word_less_nat_alt)

lemma op_bit_less: "op_bf_src_bit w < 32" "op_bf_dst_bit w < 32"
  by (simp_all add: op_bf_src_bit_def op_bf_dst_bit_def field5_less)

lemma extract_ok:
  "(op_bf_size w = 31 \<Longrightarrow> SignedOverflow \<in> F) \<Longrightarrow> tame F (\<lambda>v. True) (extract_insert w a b)"
  "(op_bf_size w = 31 \<Longrightarrow> SignedOverflow \<in> F) \<Longrightarrow> ShiftOutOfRange \<in> F \<Longrightarrow> tame F (\<lambda>v. True) (extract_shift w a b c)"
  unfolding extract_insert_def extract_shift_def
  by (intro tame_bind [OF shift_ok(1)] tame_bind [OF shift_ok(2)] tame_bind [OF GetBitfieldMask_ok] shift_ok;
      simp add: op_bit_less)+

context macro_target
begin

lemma compute_result_ok:
  assumes "macro_ok n m" "I g" "op_operation opcode \<noteq> Branch"
  shows "tame (word_faults F opcode) (\<lambda>(r, m'). macro_ok n m') (compute_result x opcode (m, g))"
  using assms
  by (cases "op_operation opcode")
    (auto simp: compute_result_def GetRegister_ok op_register_less GetALUResult_ok word_faults_def
      intro!: tame_bind [OF extract_ok(1)] tame_bind [OF extract_ok(2)] tame_bind [OF tame_mono [OF read_ok]])

lemma macro_Send_ok: "macro_ok n m \<Longrightarrow> I g \<Longrightarrow> F \<subseteq> G \<Longrightarrow> tame G (mst_ok n I) (macro_Send x v (m, g))"
  by (auto simp: macro_Send_def mst_ok_def intro!: tame_bind [OF tame_mono [OF call_ok]])

lemma ProcessResult_ok:
  assumes "macro_ok n m" "I g" "op_operation opcode \<noteq> Branch"
  shows "tame (word_faults F opcode) (mst_ok n I) (ProcessResult x (op_result_operation opcode) (op_dst opcode) v (m, g))"
proof -
  have "F \<subseteq> word_faults F opcode" if "sends opcode" using that by (auto simp: word_faults_def)
  then show ?thesis
    using assms op_register_less(1) [of opcode]
    by (cases "op_result_operation opcode")
      (auto simp: ProcessResult_def mst_ok_def sends_def intro!: tame_bind [OF fetch_to_ok] tame_bind [OF SetRegister_ok]
        tame_bind [OF FetchParameter_ok] macro_Send_ok)
qed

lemma GetOpcode_ok: "tame G (\<lambda>w. w \<in> set code) (GetOpcode code m)"
  by (auto simp: GetOpcode_def intro!: tame_ensure)

lemma advance_ok: "macro_ok n m \<Longrightarrow> tame G (macro_ok n) (advance d m)"
  by (auto simp: advance_def split: option.split intro!: tame_ensure)

lemma word_faults_code: "w \<in> set code \<Longrightarrow> word_faults F w \<subseteq> code_faults F code"
  by (auto simp: code_faults_def)

lemma fuel_not_code_fault: "OutOfFuel \<notin> code_faults F code"
  using fuel_ok by (auto simp: code_faults_def word_faults_def)

lemma Step_from:
  assumes "macro_ok n m" "I g"
    and slot: "\<And>s. \<not> d \<Longrightarrow> mst_ok n I s \<Longrightarrow> tame (code_faults F code) (\<lambda>(k, s'). mst_ok n I s') (macro_Step x code True s)"
  shows "tame (code_faults F code) (\<lambda>(k, s'). mst_ok n I s') (macro_Step x code d (m, g))"
proof -
  have step: "tame (code_faults F code) (\<lambda>(k, s'). mst_ok n I s')
      (if op_operation opcode = Branch then
         (if d then Inl AssertFailed
          else bind_run (GetRegister (op_src_a opcode) m1) (\<lambda>v.
            if EvaluateBranchCondition (op_branch_condition opcode) v then
              (if op_branch_annul opcode then Inr (True, (m1\<lparr>pc := pc m + GetBranchTarget opcode\<rparr>, g))
               else macro_Step x code True (m1\<lparr>delayed_pc := Some (pc m + GetBranchTarget opcode)\<rparr>, g))
            else if op_is_exit opcode then
              bind_run (macro_Step x code True (m1, g)) (\<lambda>(keep, s2). Inr (False, s2))
            else Inr (True, (m1, g))))
       else
         bind_run (compute_result x opcode (m1, g)) (\<lambda>(result, m2).
         bind_run (ProcessResult x (op_result_operation opcode) (op_dst opcode) result (m2, g)) (\<lambda>s1.
         if op_is_exit opcode \<and> \<not> d then
           bind_run (macro_Step x code True s1) (\<lambda>(keep, s2). Inr (False, s2))
         else Inr (True, s1))))" if m1: "macro_ok n m1" "opcode \<in> set code" for opcode m1
    using m1 assms(2)
    by (auto simp: GetRegister_ok op_register_less mst_ok_def
        intro!: tame_bind [OF tame_mono [OF compute_result_ok word_faults_code]]
          tame_bind [OF tame_mono [OF ProcessResult_ok [unfolded mst_ok_def] word_faults_code]]
          tame_bind [OF slot] slot [unfolded mst_ok_def])
  show ?thesis
    by (subst macro_Step.simps, unfold Let_def)
      (intro tame_bind [OF GetOpcode_ok] tame_bind [OF advance_ok [OF assms(1)]] step)
qed

lemma macro_Step_ok:
  assumes "mst_ok n I s"
  shows "tame (code_faults F code) (\<lambda>(k, s'). mst_ok n I s') (macro_Step x code d s)"
proof -
  have pair: "macro_ok n (fst t) \<and> I (snd t)" if "mst_ok n I t" for t using that by (simp add: mst_ok_def)
  have slot: "tame (code_faults F code) (\<lambda>(k, s'). mst_ok n I s') (macro_Step x code True t)" if "mst_ok n I t" for t
    using Step_from [of n "fst t" "snd t" True code] pair [OF that] by simp
  show ?thesis using Step_from [of n "fst s" "snd s" d code] slot pair [OF assms] by simp
qed

end

section \<open>Macros without backward branches\<close>

definition forward_only :: "u32 list \<Rightarrow> bool" where
  "forward_only code \<longleftrightarrow> list_all (\<lambda>w. op_operation w = Branch \<longrightarrow> 0 < sint (op_immediate w)) code"

lemma sint_immediate: "sint (op_immediate w) = drop_bit 14 (sint w)"
  by (simp add: op_immediate_def bf_ExtractSigned_def sint_signed_drop_bit_eq)

lemma forward_target:
  assumes "0 < sint (op_immediate w)"
  shows "4 \<le> unat (GetBranchTarget w)" "unat (GetBranchTarget w) < 2 ^ 19"
proof -
  let ?i = "op_immediate w"
  have "sint w < 2 ^ 31" using sint_lt [of w] by simp
  then have "sint w div 2 ^ 14 < 2 ^ 17" by simp
  then have small: "sint ?i < 2 ^ 17" by (simp add: sint_immediate drop_bit_eq_div)
  have "sint ?i = uint ?i" using assms small by (simp add: uint_sint take_bit_int_eq_self)
  with small assms have "0 < uint ?i" "uint ?i < 131072" by simp_all
  moreover have "int (unat ?i) = uint ?i" by simp
  ultimately have n: "0 < unat ?i" "unat ?i < 131072" by linarith+
  then have "unat (?i * 4) = unat ?i * 4" by (subst unat_mult_lem [THEN iffD1]) simp_all
  with n show "4 \<le> unat (GetBranchTarget w)" "unat (GetBranchTarget w) < 2 ^ 19" by (simp_all add: GetBranchTarget_def)
qed

lemma unat_add_small: "unat a + unat b < 2 ^ 32 \<Longrightarrow> unat (a + b :: u32) = unat a + unat b"
  by (subst unat_add_lem [THEN iffD1]) simp_all

lemma GetOpcode_bound:
  "GetOpcode code m = Inr w \<Longrightarrow> unat (pc m) < length code * 4 \<and> w \<in> set code"
  by (auto simp: GetOpcode_def ensure_eq_Inr aget_def split: if_splits)

lemma Step_progress:
  assumes "macro_Step x code False (m, g) = Inr (True, (m', g'))" "delayed_pc m = None"
    "forward_only code" "length code \<le> 2 ^ 28"
  shows "unat (pc m) + 4 \<le> unat (pc m') \<and> delayed_pc m' = None"
  using assms(1,2)
proof (cases rule: Step_pc)
  case (1 w)
  have b: "unat (pc m) < 2 ^ 30" "w \<in> set code" using GetOpcode_bound [OF 1(1)] assms(4) by auto
  from 1(3) show ?thesis
  proof
    assume "pc m' = pc m + 4"
    moreover have "unat (pc m + 4) = unat (pc m) + unat (4 :: u32)" using b by (intro unat_add_small) simp
    ultimately show ?thesis using 1(2) by simp
  next
    assume br: "op_operation w = Branch \<and> pc m' = pc m + GetBranchTarget w"
    with b(2) assms(3) have "0 < sint (op_immediate w)" by (auto simp: forward_only_def list_all_iff)
    note t = forward_target [OF this]
    have "unat (pc m + GetBranchTarget w) = unat (pc m) + unat (GetBranchTarget w)"
      using b t by (intro unat_add_small) simp
    with br t 1(2) show ?thesis by simp
  qed
qed

context macro_target
begin

lemma macro_loop_ok:
  assumes "mst_ok n I s"
  shows "case macro_loop fuel x code s of Inl f \<Rightarrow> f = OutOfFuel \<or> benign (code_faults F code) f | Inr s' \<Rightarrow> mst_ok n I s'"
  using assms
proof (induction fuel arbitrary: s)
  case (Suc fuel)
  from macro_Step_ok [OF Suc.prems, of code False] Suc.IH show ?case
    by (cases "macro_Step x code False s") auto
qed simp

lemma macro_loop_returns:
  assumes "mst_ok k I (m, g)" "delayed_pc m = None" "forward_only code" "length code \<le> 2 ^ 28"
    "length code * 4 \<le> unat (pc m) + 4 * n"
  shows "macro_loop (Suc n) x code (m, g) \<noteq> Inl OutOfFuel"
  using assms
proof (induction n arbitrary: m g)
  case 0
  then have "GetOpcode code m = Inl AssertFailed" by (simp add: GetOpcode_def ensure_def)
  then show ?case by (simp add: macro_Step.simps)
next
  case (Suc n)
  note ok = macro_Step_ok [OF Suc.prems(1), of code False]
  show ?case
  proof (cases "macro_Step x code False (m, g)")
    case (Inl f)
    with ok fuel_not_code_fault show ?thesis by auto
  next
    case (Inr p)
    obtain keep m' g' where p: "p = (keep, (m', g'))" by (cases p) auto
    show ?thesis
    proof (cases keep)
      case True
      with Step_progress [of x code m g m' g'] Inr p Suc.prems
      have "unat (pc m) + 4 \<le> unat (pc m')" "delayed_pc m' = None" by simp_all
      with Suc.IH [of m' g'] Suc.prems ok Inr p True have "macro_loop (Suc n) x code (m', g') \<noteq> Inl OutOfFuel" by simp
      with Inr p True show ?thesis by (simp del: macro_loop.simps add: macro_loop.simps(2) [of "Suc n"])
    qed (use Inr p in simp)
  qed
qed

end

section \<open>Wide arithmetic\<close>

text \<open>The value of a list of words, least significant first.\<close>

primrec limbs :: "u32 list \<Rightarrow> nat" where
  "limbs [] = 0"
| "limbs (w # ws) = unat w + 2 ^ 32 * limbs ws"

primrec alu_chain ::
  "ALUOperation \<Rightarrow> (u32 \<times> u32) list \<Rightarrow> MacroInterpreterImpl \<Rightarrow> (u32 list \<times> MacroInterpreterImpl) run" where
  "alu_chain op [] m = Inr ([], m)"
| "alu_chain op (p # ps) m =
     bind_run (GetALUResult op (fst p) (snd p) m) (\<lambda>(r, m1).
     bind_run (alu_chain op ps m1) (\<lambda>(rs, m2). Inr (r # rs, m2)))"

lemma u32_less: "unat (a :: u32) < 4294967296"
proof -
  have "unat a < 2 ^ LENGTH(32)" by (rule unsigned_less)
  then show ?thesis by simp
qed

lemma unat_u64_of_u32: "unat (ucast (a :: u32) :: u64) = unat a"
  using u32_less [of a] by (simp add: unsigned_ucast_eq take_bit_nat_eq_self)

lemma unat_low_u32: "unat (ucast (a :: u64) :: u32) = unat a mod 4294967296"
  by (simp add: unsigned_ucast_eq take_bit_eq_mod)

lemma carry_less: "unat (a :: u32) + unat (b :: u32) + of_bool c < 2 ^ 33"
  using u32_less [of a] u32_less [of b] by simp

lemma unat_u64_sum:
  "unat (ucast a + ucast b + (if c then 1 else 0) :: u64) = unat (a :: u32) + unat (b :: u32) + of_bool c"
  using u32_less [of a] u32_less [of b] by (cases c) (simp_all add: unat_word_ariths unat_u64_of_u32)

lemma low_and_carry:
  assumes "n < 2 * 4294967296" shows "n mod 4294967296 + 4294967296 * of_bool (4294967295 < n) = (n :: nat)"
proof (cases "n < 4294967296")
  case False
  then have "n div 4294967296 = 1" using assms by simp
  with False div_mult_mod_eq [of n 4294967296] show ?thesis by simp
qed simp

lemma AddWithCarry_spec:
  "\<exists>r c. GetALUResult AddWithCarry a b m = Inr (r, m\<lparr>carry_flag := c\<rparr>) \<and>
     unat r + 2 ^ 32 * of_bool c = unat a + unat b + of_bool (carry_flag m)"
proof -
  let ?s = "ucast a + ucast b + (if carry_flag m then 1 else 0) :: u64"
  note s = unat_u64_sum [of a b "carry_flag m"]
  have "unat (ucast ?s :: u32) + 2 ^ 32 * of_bool (?s > 0xffffffff) = unat ?s"
    using low_and_carry [of "unat ?s"] u32_less [of a] u32_less [of b] s
    unfolding unat_low_u32 word_less_nat_alt by simp
  with s show ?thesis
    by (intro exI [of _ "ucast ?s"] exI [of _ "?s > 0xffffffff"]) (simp only: GetALUResult_def Let_def ALUOperation.case)
qed

lemma Add_carry: "GetALUResult Add a b m = GetALUResult AddWithCarry a b (m\<lparr>carry_flag := False\<rparr>)"
  by (simp add: GetALUResult_def Let_def)

lemma Subtract_carry: "GetALUResult Subtract a b m = GetALUResult SubtractWithBorrow a b (m\<lparr>carry_flag := True\<rparr>)"
  by (simp add: GetALUResult_def Let_def)

lemma uint_u64_diff:
  fixes a b :: u32
  shows "uint (ucast a - ucast b - (if c then 0 else 1) :: u64) = (uint a - uint b - of_bool (\<not> c)) mod 2 ^ 64"
proof -
  have "uint (ucast w :: u64) = uint w" for w :: u32
    using unat_u64_of_u32 [of w] by (metis of_nat_unat)
  then show ?thesis by (cases c) (simp_all add: uint_word_ariths mod_simps)
qed

lemma mod_wrapped:
  assumes "- 4294967296 \<le> d" "d < (4294967296 :: int)"
  shows "d mod 2 ^ 64 = (if 0 \<le> d then d else d + 2 ^ 64)"
proof (cases "0 \<le> d")
  case False
  have "d mod 2 ^ 64 = (d + 2 ^ 64) mod 2 ^ 64" by simp
  also have "\<dots> = d + 2 ^ 64" using False assms by (intro mod_pos_pos_trivial) simp_all
  finally show ?thesis using False by simp
qed (use assms in simp)

lemma SubtractWithBorrow_spec:
  "\<exists>r c. GetALUResult SubtractWithBorrow a b m = Inr (r, m\<lparr>carry_flag := c\<rparr>) \<and>
     unat r + unat b + of_bool (\<not> carry_flag m) = unat a + 2 ^ 32 * of_bool (\<not> c)"
proof -
  let ?s = "ucast a - ucast b - (if carry_flag m then 0 else 1) :: u64"
  define d where "d = uint a - uint b - of_bool (\<not> carry_flag m)"
  have ab: "int (unat a) = uint a" "int (unat b) = uint b" by simp_all
  have range: "- 4294967296 \<le> d" "d < 4294967296"
  proof -
    have "0 \<le> uint a" "uint a < 4294967296" "0 \<le> uint b" "uint b < 4294967296"
      using u32_less [of a] u32_less [of b] ab by linarith+
    moreover have "0 \<le> (of_bool (\<not> carry_flag m) :: int)" "of_bool (\<not> carry_flag m) \<le> (1 :: int)" by simp_all
    ultimately show "- 4294967296 \<le> d" "d < 4294967296" unfolding d_def by linarith+
  qed
  have s: "uint ?s = (if 0 \<le> d then d else d + 2 ^ 64)"
    unfolding uint_u64_diff using mod_wrapped [OF range] by (simp add: d_def)
  have c: "?s < 0x100000000 \<longleftrightarrow> 0 \<le> d" unfolding word_less_def s using range by auto
  have "int (unat (ucast ?s :: u32)) = uint ?s mod 4294967296" by (simp add: unat_low_u32 zmod_int)
  also have "\<dots> = (if 0 \<le> d then d else d + 4294967296)"
  proof (cases "0 \<le> d")
    case False
    have "(d + 2 ^ 64) mod 4294967296 = (d + 4294967296) mod 4294967296"
      by (simp add: mod_add_right_eq [symmetric, of _ "18446744073709551616"])
    also have "\<dots> = d + 4294967296" using False range by (intro mod_pos_pos_trivial) simp_all
    finally show ?thesis using s False by simp
  qed (use s range in simp)
  finally have r: "int (unat (ucast ?s :: u32)) = (if 0 \<le> d then d else d + 4294967296)" .
  have "int (unat (ucast ?s :: u32) + unat b + of_bool (\<not> carry_flag m)) =
      int (unat a + 2 ^ 32 * of_bool (\<not> (?s < 0x100000000)))"
    unfolding of_nat_add r c ab using d_def by (cases "0 \<le> d") (simp_all add: ab)
  then have "unat (ucast ?s :: u32) + unat b + of_bool (\<not> carry_flag m) =
      unat a + 2 ^ 32 * of_bool (\<not> (?s < 0x100000000))" by linarith
  then show ?thesis
    by (intro exI [of _ "ucast ?s"] exI [of _ "?s < 0x100000000"]) (simp only: GetALUResult_def Let_def ALUOperation.case)
qed

lemma chain_Cons:
  "alu_chain op (p # ps) m = Inr (rs0, m') \<longleftrightarrow>
     (\<exists>r m1 rs. GetALUResult op (fst p) (snd p) m = Inr (r, m1) \<and> alu_chain op ps m1 = Inr (rs, m') \<and> rs0 = r # rs)"
  by (auto simp: bind_run_eq_Inr)

lemma add_chain:
  "\<exists>rs c. alu_chain AddWithCarry ps m = Inr (rs, m\<lparr>carry_flag := c\<rparr>) \<and> length rs = length ps \<and>
     limbs rs + 2 ^ (32 * length ps) * of_bool c = limbs (map fst ps) + limbs (map snd ps) + of_bool (carry_flag m)"
proof (induction ps arbitrary: m)
  case Nil
  show ?case by (intro exI [of _ "[]"] exI [of _ "carry_flag m"]) simp
next
  case (Cons p ps)
  from AddWithCarry_spec [of "fst p" "snd p" m] obtain r c
    where r: "GetALUResult AddWithCarry (fst p) (snd p) m = Inr (r, m\<lparr>carry_flag := c\<rparr>)"
      "unat r + 2 ^ 32 * of_bool c = unat (fst p) + unat (snd p) + of_bool (carry_flag m)" by blast
  from Cons [of "m\<lparr>carry_flag := c\<rparr>"] obtain rs c'
    where rs: "alu_chain AddWithCarry ps (m\<lparr>carry_flag := c\<rparr>) = Inr (rs, m\<lparr>carry_flag := c'\<rparr>)" "length rs = length ps"
      "limbs rs + 2 ^ (32 * length ps) * of_bool c' = limbs (map fst ps) + limbs (map snd ps) + of_bool c" by auto
  have "limbs (r # rs) + 2 ^ (32 * length (p # ps)) * of_bool c' =
      unat r + 2 ^ 32 * (limbs rs + 2 ^ (32 * length ps) * of_bool c')"
    by (simp add: power_add algebra_simps)
  also have "\<dots> = unat r + 2 ^ 32 * of_bool c + 2 ^ 32 * (limbs (map fst ps) + limbs (map snd ps))"
    unfolding rs(3) by (simp add: algebra_simps)
  also have "\<dots> = limbs (map fst (p # ps)) + limbs (map snd (p # ps)) + of_bool (carry_flag m)"
    unfolding r(2) by simp
  finally show ?case
    using r(1) rs(1,2) by (intro exI [of _ "r # rs"] exI [of _ c']) simp
qed

lemma subtract_chain:
  "\<exists>rs c. alu_chain SubtractWithBorrow ps m = Inr (rs, m\<lparr>carry_flag := c\<rparr>) \<and> length rs = length ps \<and>
     limbs rs + limbs (map snd ps) + of_bool (\<not> carry_flag m) = limbs (map fst ps) + 2 ^ (32 * length ps) * of_bool (\<not> c)"
proof (induction ps arbitrary: m)
  case Nil
  show ?case by (intro exI [of _ "[]"] exI [of _ "carry_flag m"]) simp
next
  case (Cons p ps)
  from SubtractWithBorrow_spec [of "fst p" "snd p" m] obtain r c
    where r: "GetALUResult SubtractWithBorrow (fst p) (snd p) m = Inr (r, m\<lparr>carry_flag := c\<rparr>)"
      "unat r + unat (snd p) + of_bool (\<not> carry_flag m) = unat (fst p) + 2 ^ 32 * of_bool (\<not> c)" by blast
  from Cons [of "m\<lparr>carry_flag := c\<rparr>"] obtain rs c'
    where rs: "alu_chain SubtractWithBorrow ps (m\<lparr>carry_flag := c\<rparr>) = Inr (rs, m\<lparr>carry_flag := c'\<rparr>)" "length rs = length ps"
      "limbs rs + limbs (map snd ps) + of_bool (\<not> c) = limbs (map fst ps) + 2 ^ (32 * length ps) * of_bool (\<not> c')" by auto
  have "limbs (r # rs) + limbs (map snd (p # ps)) + of_bool (\<not> carry_flag m) =
      unat (fst p) + 2 ^ 32 * (limbs rs + limbs (map snd ps) + of_bool (\<not> c))"
    using r(2) by (simp add: algebra_simps)
  also have "\<dots> = limbs (map fst (p # ps)) + 2 ^ (32 * length (p # ps)) * of_bool (\<not> c')"
    unfolding rs(3) by (simp add: power_add algebra_simps)
  finally show ?case
    using r(1) rs(1,2) by (intro exI [of _ "r # rs"] exI [of _ c']) simp
qed

section \<open>Bit fields\<close>

lemma extract_insert_spec:
  assumes "op_bf_size w \<noteq> 31"
  defines "d \<equiv> unat (op_bf_dst_bit w)" and "k \<equiv> unat (op_bf_size w)" and "s \<equiv> unat (op_bf_src_bit w)"
  shows "\<exists>r. extract_insert w dst src = Inr r \<and>
    (\<forall>n<32. bit r n = (if d \<le> n \<and> n < d + k then bit src (s + (n - d)) else bit dst n))"
proof -
  show ?thesis
    using assms(1) op_bit_less [of w] unfolding extract_insert_def shr32_def shl32_def GetBitfieldMask_def
    by (auto simp: d_def k_def s_def bit_simps simp flip: mask_eq_exp_minus_1)
qed

section \<open>Properties\<close>

text \<open>An engine that only records the calls it gets, for concrete runs.\<close>

definition recorder :: "(u32 \<times> u32) list Maxwell3D" where
  "recorder = \<lparr>CallMethod = (\<lambda>a v l g. Inr (g @ [(a, v)])), GetRegisterValue = (\<lambda>a g. Inr 0),
     RefreshParameters = (\<lambda>ps g. Inr (ps, g))\<rparr>"

text \<open>C25: The interpreter, which calls itself for the instruction after a taken branch or an exit, computes what the
  instruction set's machine with a program counter and a next program counter computes: for every outcome that is not a
  lack of fuel, one of them reaches it exactly when the other does.\<close>

theorem macro_delay_slots:
  assumes "delayed_pc m = None" "r \<noteq> Inl OutOfFuel"
  shows "(\<exists>fuel. macro_loop fuel x code (m, g) = r) \<longleftrightarrow> (\<exists>n. isa_run n x code (Running, pc m + 4, (m, g)) = r)"
  using macro_loop_isa [OF _ assms(2,1)] isa_macro_loop [OF _ assms(2,1)] by blast

theorem macro_delay_slots_witness:
  "\<exists>n s. isa_run n recorder [0x8007, 0x14211, 0x91, 0x1C311] (Running, 4, (new_interpreter, [])) = Inr s \<and>
     macro_registers (fst s) = [0, 0, 5, 7, 0, 0, 0, 0]"
proof -
  define s where "s = (new_interpreter\<lparr>pc := 16, macro_registers := [0, 0, 5, 7, 0, 0, 0, 0]\<rparr>, [] :: (u32 \<times> u32) list)"
  have "macro_loop 2 recorder [0x8007, 0x14211, 0x91, 0x1C311] (new_interpreter, []) = Inr s"
    unfolding s_def by code_simp
  then have "\<exists>n. isa_run n recorder [0x8007, 0x14211, 0x91, 0x1C311] (Running, pc new_interpreter + 4, (new_interpreter, [])) = Inr s"
    by (intro macro_delay_slots [THEN iffD1] exI [of _ 2]) (simp_all add: new_interpreter_def)
  then obtain n where "isa_run n recorder [0x8007, 0x14211, 0x91, 0x1C311] (Running, 4, (new_interpreter, [])) = Inr s"
    by (auto simp: new_interpreter_def)
  then show ?thesis by (intro exI [of _ n] exI [of _ s]) (simp add: s_def)
qed

text \<open>C29: Chains of additions and subtractions compute with numbers of any width: an addition followed by additions with
  carry gives the sum of the two numbers, with the final carry as its top bit, and a subtraction followed by subtractions
  with borrow gives the difference modulo the width, with the carry set exactly when nothing was borrowed.\<close>

theorem macro_wide_arithmetic:
  assumes "ps \<noteq> []"
  shows "(\<exists>r m1 rs c. GetALUResult Add (fst (hd ps)) (snd (hd ps)) m = Inr (r, m1) \<and>
      alu_chain AddWithCarry (tl ps) m1 = Inr (rs, m\<lparr>carry_flag := c\<rparr>) \<and>
      limbs (r # rs) + 2 ^ (32 * length ps) * of_bool c = limbs (map fst ps) + limbs (map snd ps)) \<and>
    (\<exists>r m1 rs c. GetALUResult Subtract (fst (hd ps)) (snd (hd ps)) m = Inr (r, m1) \<and>
      alu_chain SubtractWithBorrow (tl ps) m1 = Inr (rs, m\<lparr>carry_flag := c\<rparr>) \<and>
      limbs (r # rs) + limbs (map snd ps) = limbs (map fst ps) + 2 ^ (32 * length ps) * of_bool (\<not> c))"
proof -
  obtain p qs where ps: "ps = p # qs" using assms by (cases ps) auto
  obtain rs0 c0 where "alu_chain AddWithCarry (p # qs) (m\<lparr>carry_flag := False\<rparr>) = Inr (rs0, m\<lparr>carry_flag := c0\<rparr>)"
    "limbs rs0 + 2 ^ (32 * length ps) * of_bool c0 = limbs (map fst ps) + limbs (map snd ps)"
    using add_chain [of ps "m\<lparr>carry_flag := False\<rparr>"] ps by (auto simp del: alu_chain.simps)
  then have "\<exists>r m1 rs c. GetALUResult Add (fst p) (snd p) m = Inr (r, m1) \<and>
      alu_chain AddWithCarry qs m1 = Inr (rs, m\<lparr>carry_flag := c\<rparr>) \<and>
      limbs (r # rs) + 2 ^ (32 * length ps) * of_bool c = limbs (map fst ps) + limbs (map snd ps)"
    unfolding chain_Cons Add_carry by blast
  moreover obtain rs1 c1
    where "alu_chain SubtractWithBorrow (p # qs) (m\<lparr>carry_flag := True\<rparr>) = Inr (rs1, m\<lparr>carry_flag := c1\<rparr>)"
    "limbs rs1 + limbs (map snd ps) = limbs (map fst ps) + 2 ^ (32 * length ps) * of_bool (\<not> c1)"
    using subtract_chain [of ps "m\<lparr>carry_flag := True\<rparr>"] ps by (auto simp del: alu_chain.simps)
  then have "\<exists>r m1 rs c. GetALUResult Subtract (fst p) (snd p) m = Inr (r, m1) \<and>
      alu_chain SubtractWithBorrow qs m1 = Inr (rs, m\<lparr>carry_flag := c\<rparr>) \<and>
      limbs (r # rs) + limbs (map snd ps) = limbs (map fst ps) + 2 ^ (32 * length ps) * of_bool (\<not> c)"
    unfolding chain_Cons Subtract_carry by blast
  ultimately show ?thesis unfolding ps by simp
qed

theorem macro_wide_arithmetic_witness:
  "\<exists>r m1 rs c. GetALUResult Add 0xFFFFFFFF 2 new_interpreter = Inr (r, m1) \<and>
     alu_chain AddWithCarry [(0xFFFFFFFF, 0)] m1 = Inr (rs, new_interpreter\<lparr>carry_flag := c\<rparr>) \<and>
     limbs (r # rs) + 2 ^ (32 * 2) * of_bool c = limbs [0xFFFFFFFF, 0xFFFFFFFF] + limbs [2, 0]"
  using macro_wide_arithmetic [of "[(0xFFFFFFFF, 2), (0xFFFFFFFF, 0)]" new_interpreter, THEN conjunct1]
  by (simp del: alu_chain.simps limbs.simps add: numeral_2_eq_2)

end
