(* ===== verification/MacroEngine.thy ===== *)
theory MacroEngine
  imports MacroInterpreter
begin

text \<open>
  The engine around the macro interpreter (\<^verbatim>\<open>video_core/macro/macro.cpp\<close>): uploaded code, the cache of programs by method, and
  the choice between an interpreted program and a native replacement.  The hash of a program, the native replacements, the
  settings and the order in which an \<^verbatim>\<open>unordered_map\<close> is traversed are the record \<open>macro_env\<close>.  \<^verbatim>\<open>Compile\<close> is that of the
  interpreter, whose program keeps a reference to the uploaded words.
\<close>

section \<open>State\<close>

record ('h, 'g) macro_env =
  HashValue :: "u32 list \<Rightarrow> u64"
  GetHLEProgram :: "u64 \<Rightarrow> 'h option"
  HLE_Execute :: "'h \<Rightarrow> u32 list \<Rightarrow> u32 \<Rightarrow> 'g \<Rightarrow> 'g run"
  disable_macro_hle :: bool
  dump_macros :: bool
  map_order :: "(u32 \<rightharpoonup> u32 list) \<Rightarrow> u32 list"

record 'h CacheInfo =
  lle_program :: MacroInterpreterImpl
  hle_program :: "'h option"
  hash :: u64
  has_hle_program :: bool

record 'h MacroEngine =
  macro_cache :: "u32 \<rightharpoonup> 'h CacheInfo"
  uploaded_macro_code :: "u32 \<rightharpoonup> u32 list"
  dumped :: "(u64 \<times> u32 list \<times> bool) list"

section \<open>Operations\<close>

definition AddCode :: "u32 \<Rightarrow> u32 \<Rightarrow> 'h MacroEngine \<Rightarrow> 'h MacroEngine" where
  "AddCode method data e =
     e\<lparr>uploaded_macro_code := (uploaded_macro_code e)(method \<mapsto>
       (case uploaded_macro_code e method of None \<Rightarrow> [data] | Some code \<Rightarrow> code @ [data]))\<rparr>"

definition ClearCode :: "u32 \<Rightarrow> 'h MacroEngine \<Rightarrow> 'h MacroEngine" where
  "ClearCode method e =
     e\<lparr>macro_cache := (macro_cache e)(method := None),
       uploaded_macro_code := (uploaded_macro_code e)(method := None)\<rparr>"

text \<open>The program of a method runs on the words its reference leads to; the parameters are refreshed first.\<close>

definition run_lle ::
  "nat \<Rightarrow> 'g Maxwell3D \<Rightarrow> u32 \<Rightarrow> u32 list \<Rightarrow> 'h MacroEngine \<times> 'g \<Rightarrow> ('h MacroEngine \<times> 'g) run" where
  "run_lle fuel maxwell3d method params s =
     (case s of (e, g) \<Rightarrow>
        (case (macro_cache e method, uploaded_macro_code e method) of
           (Some cache_info, Some code) \<Rightarrow>
             bind_run (RefreshParameters maxwell3d params g) (\<lambda>(params1, g1).
             bind_run (MacroInterpreterImpl_Execute fuel maxwell3d code params1 (lle_program cache_info, g1)) (\<lambda>(m, g2).
             Inr (e\<lparr>macro_cache := (macro_cache e)(method \<mapsto> cache_info\<lparr>lle_program := m\<rparr>)\<rparr>, g2)))
         | _ \<Rightarrow> Inl NullDeref))"

definition run_hle ::
  "('h, 'g) macro_env \<Rightarrow> 'h CacheInfo \<Rightarrow> u32 \<Rightarrow> u32 list \<Rightarrow> 'h MacroEngine \<times> 'g \<Rightarrow> ('h MacroEngine \<times> 'g) run" where
  "run_hle env cache_info method params s =
     (case hle_program cache_info of
        None \<Rightarrow> Inl NullDeref
      | Some h \<Rightarrow> bind_run (HLE_Execute env h params method (snd s)) (\<lambda>g. Inr (fst s, g)))"

text \<open>The search for uploaded code that contains the method, in the order of the map.\<close>

definition find_mid_method :: "('h, 'g) macro_env \<Rightarrow> u32 \<Rightarrow> 'h MacroEngine \<Rightarrow> u32 option" where
  "find_mid_method env method e =
     List.find (\<lambda>method_base. case uploaded_macro_code e method_base of
         None \<Rightarrow> False
       | Some code \<Rightarrow> method \<ge> method_base \<and> unat (method - method_base) < length code)
       (map_order env (uploaded_macro_code e))"

definition new_cache_info :: "u64 \<Rightarrow> 'h CacheInfo" where
  "new_cache_info h =
     \<lparr>lle_program = new_interpreter, hle_program = None, hash = h, has_hle_program = False\<rparr>"

text \<open>Compiling and the first run; a dump takes its words from the iterator of the first lookup, which for a method in the
  middle of uploaded code is the end of the map.\<close>

definition compile_and_run ::
  "nat \<Rightarrow> ('h, 'g) macro_env \<Rightarrow> 'g Maxwell3D \<Rightarrow> u32 \<Rightarrow> u32 list \<Rightarrow> u32 list \<Rightarrow> bool \<Rightarrow> 'h MacroEngine \<times> 'g \<Rightarrow>
   ('h MacroEngine \<times> 'g) run" where
  "compile_and_run fuel env maxwell3d method params code is_mid s =
     (case s of (e, g) \<Rightarrow>
        let cache_info = new_cache_info (HashValue env code);
            hle = GetHLEProgram env (hash cache_info);
            use_hle = (hle \<noteq> None \<and> \<not> disable_macro_hle env);
            cache_info1 = (if use_hle then cache_info\<lparr>has_hle_program := True, hle_program := hle\<rparr> else cache_info);
            e1 = e\<lparr>macro_cache := (macro_cache e)(method \<mapsto> cache_info1)\<rparr>
        in bind_run (if use_hle then run_hle env cache_info1 method params (e1, g)
                     else run_lle fuel maxwell3d method params (e1, g)) (\<lambda>(e2, g2).
           if \<not> dump_macros env then Inr (e2, g2)
           else if is_mid then Inl NullDeref
           else Inr (e2\<lparr>dumped := dumped e2 @ [(hash cache_info1, code, use_hle)]\<rparr>, g2)))"

definition MacroEngine_Execute ::
  "nat \<Rightarrow> ('h, 'g) macro_env \<Rightarrow> 'g Maxwell3D \<Rightarrow> u32 \<Rightarrow> u32 list \<Rightarrow> 'h MacroEngine \<times> 'g \<Rightarrow>
   ('h MacroEngine \<times> 'g) run" where
  "MacroEngine_Execute fuel env maxwell3d method params s =
     (case s of (e, g) \<Rightarrow>
        (case macro_cache e method of
           Some cache_info \<Rightarrow>
             if has_hle_program cache_info then run_hle env cache_info method params s
             else run_lle fuel maxwell3d method params s
         | None \<Rightarrow>
             (case uploaded_macro_code e method of
                Some code \<Rightarrow> compile_and_run fuel env maxwell3d method params code False s
              | None \<Rightarrow>
                  (case find_mid_method env method e of
                     None \<Rightarrow> Inl AssertFailed
                   | Some mid_method \<Rightarrow>
                       (case uploaded_macro_code e mid_method of
                          None \<Rightarrow> Inl NullDeref
                        | Some macro_cached \<Rightarrow>
                            let code = drop (unat (method - mid_method)) macro_cached
                            in compile_and_run fuel env maxwell3d method params code True
                              (e\<lparr>uploaded_macro_code := (uploaded_macro_code e)(method \<mapsto> code)\<rparr>, g))))))"

section \<open>A macro starts afresh\<close>

text \<open>The part of an interpreter that a macro can observe: the parameters of the current call, and nothing of the buffer
  behind them.\<close>

definition erase :: "MacroInterpreterImpl \<Rightarrow> MacroInterpreterImpl" where
  "erase m = m\<lparr>parameters := take (num_parameters m) (parameters m), parameters_capacity := 0\<rparr>"

definition erase_fst :: "('g mst) run \<Rightarrow> ('g mst) run" where
  "erase_fst r = bind_run r (\<lambda>(m, g). Inr (erase m, g))"

definition erase_snd :: "('a \<times> MacroInterpreterImpl) run \<Rightarrow> ('a \<times> MacroInterpreterImpl) run" where
  "erase_snd r = bind_run r (\<lambda>(v, m). Inr (v, erase m))"

lemma erase_fields [simp]:
  "pc (erase m) = pc m" "delayed_pc (erase m) = delayed_pc m" "macro_registers (erase m) = macro_registers m"
  "method_address (erase m) = method_address m" "num_parameters (erase m) = num_parameters m"
  "next_parameter_index (erase m) = next_parameter_index m" "carry_flag (erase m) = carry_flag m"
  by (simp_all add: erase_def)

lemma erase_update [simp]:
  "(erase m)\<lparr>pc := a\<rparr> = erase (m\<lparr>pc := a\<rparr>)" "(erase m)\<lparr>delayed_pc := d\<rparr> = erase (m\<lparr>delayed_pc := d\<rparr>)"
  "(erase m)\<lparr>macro_registers := rs\<rparr> = erase (m\<lparr>macro_registers := rs\<rparr>)"
  "(erase m)\<lparr>method_address := w\<rparr> = erase (m\<lparr>method_address := w\<rparr>)"
  "(erase m)\<lparr>next_parameter_index := i\<rparr> = erase (m\<lparr>next_parameter_index := i\<rparr>)"
  "(erase m)\<lparr>carry_flag := c\<rparr> = erase (m\<lparr>carry_flag := c\<rparr>)"
  by (simp_all add: erase_def)

lemma erase_reads [simp]:
  "GetOpcode code (erase m) = GetOpcode code m" "GetRegister r (erase m) = GetRegister r m"
  by (simp_all add: GetOpcode_def GetRegister_def)

lemma SetMethodAddress_erase [simp]: "SetMethodAddress w (erase m) = erase (SetMethodAddress w m)"
  by (simp add: SetMethodAddress_def)

lemma SetRegister_erase: "SetRegister r v (erase m) = bind_run (SetRegister r v m) (\<lambda>m'. Inr (erase m'))"
  by (simp add: SetRegister_def bind_run_assoc)

lemma advance_erase: "advance d (erase m) = bind_run (advance d m) (\<lambda>m'. Inr (erase m'))"
  by (auto simp: advance_def ensure_def split: option.split)

lemma aget_take: "i < n \<Longrightarrow> aget (take n xs) (int i) = aget xs (int i)"
  by (simp add: aget_def)

lemma FetchParameter_erase: "FetchParameter (erase m) = erase_snd (FetchParameter m)"
proof (cases "unat (next_parameter_index m) < num_parameters m")
  case True
  from aget_take [OF this, of "parameters m"] have "aget (parameters (erase m)) (uint (next_parameter_index m)) = aget (parameters m) (uint (next_parameter_index m))"
    by (simp add: erase_def)
  with True show ?thesis by (simp add: FetchParameter_def erase_snd_def bind_run_assoc)
qed (simp add: FetchParameter_def erase_snd_def)

lemma fetch_to_erase: "fetch_to r (erase m) = bind_run (fetch_to r m) (\<lambda>m'. Inr (erase m'))"
  by (simp add: fetch_to_def FetchParameter_erase erase_snd_def SetRegister_erase bind_run_assoc split_def)

lemma GetALUResult_erase: "GetALUResult op a b (erase m) = erase_snd (GetALUResult op a b m)"
  by (cases op) (simp_all add: GetALUResult_def erase_snd_def Let_def)

lemma compute_result_erase: "compute_result x w (erase m, g) = erase_snd (compute_result x w (m, g))"
  by (cases "op_operation w")
    (simp_all add: compute_result_def GetALUResult_erase, simp_all add: erase_snd_def bind_run_assoc)

lemma macro_Send_erase: "macro_Send x v (erase m, g) = erase_fst (macro_Send x v (m, g))"
  by (simp add: macro_Send_def erase_fst_def bind_run_assoc)

lemma ProcessResult_erase: "ProcessResult x op r v (erase m, g) = erase_fst (ProcessResult x op r v (m, g))"
  by (cases op)
    (simp_all add: ProcessResult_def fetch_to_erase SetRegister_erase FetchParameter_erase macro_Send_erase bind_run_assoc,
     simp_all add: erase_fst_def erase_snd_def bind_run_assoc split_def FetchParameter_erase macro_Send_erase)

lemma bind_run_cong: "(\<And>v. m = Inr v \<Longrightarrow> f v = g v) \<Longrightarrow> bind_run m f = bind_run m g"
  by (cases m) simp_all

definition erase_step :: "(bool \<times> 'g mst) run \<Rightarrow> (bool \<times> 'g mst) run" where
  "erase_step r = bind_run r (\<lambda>(k, (m, g)). Inr (k, (erase m, g)))"

lemma Step_erase_from:
  assumes slot: "\<And>m g. \<not> d \<Longrightarrow> macro_Step x code True (erase m, g) = erase_step (macro_Step x code True (m, g))"
  shows "macro_Step x code d (erase m, g) = erase_step (macro_Step x code d (m, g))"
proof (cases "GetOpcode code m")
  case op: (Inr opcode)
  show ?thesis
  proof (cases "advance d m")
    case (Inr m1)
    note step = op Inr advance_erase [of d m]
    show ?thesis
    proof (cases "op_operation opcode = Branch")
      case True
      note simps = macro_Step.simps [of x code _ m] macro_Step.simps [of x code _ "erase m"]
      show ?thesis
      proof (cases d)
        case False
        with True step slot show ?thesis
          by (cases "GetRegister (op_src_a opcode) m1")
            (auto simp: simps erase_step_def bind_run_assoc split_def Let_def)
      qed (use True step in \<open>simp add: simps erase_step_def Let_def\<close>)
    next
      case False
      then show ?thesis
        using step slot compute_result_erase [of x opcode m1 g]
        by (cases "compute_result x opcode (m1, g)")
          (auto simp: macro_Step.simps [of x code d] ProcessResult_erase erase_step_def erase_fst_def erase_snd_def
            bind_run_assoc split_def Let_def intro!: bind_run_cong)
    qed
  qed (use op advance_erase [of d m] in \<open>simp add: macro_Step.simps [of x code d] erase_step_def\<close>)
qed (simp add: macro_Step.simps [of x code d] erase_step_def)

lemma macro_Step_erase: "macro_Step x code d (erase m, g) = erase_step (macro_Step x code d (m, g))"
  by (rule Step_erase_from) (rule Step_erase_from, simp)

lemma macro_loop_erase: "macro_loop fuel x code (erase m, g) = erase_fst (macro_loop fuel x code (m, g))"
proof (induction fuel arbitrary: m g)
  case (Suc fuel)
  then show ?case
    by (cases "macro_Step x code False (m, g)") (auto simp: macro_Step_erase erase_step_def, simp_all add: erase_fst_def)
qed (simp add: erase_fst_def)

definition engine_effect :: "('g mst) run \<Rightarrow> 'g run" where
  "engine_effect r = bind_run r (\<lambda>s. Inr (snd s))"

text \<open>What one call leaves behind in an interpreter does not reach the next.\<close>

lemma load_parameters_eq:
  assumes "parameters_capacity m \<le> length (parameters m)" "params \<noteq> []"
  shows "\<exists>m1. load_parameters params (macro_Reset m) = Inr m1 \<and>
    erase m1 = \<lparr>pc = 0, delayed_pc = None, macro_registers = (replicate 8 0)[1 := hd params], method_address = 0,
      parameters = params, num_parameters = length params, parameters_capacity = 0, next_parameter_index = 1,
      carry_flag = False\<rparr>"
  using assms
  by (cases m) (auto simp: load_parameters_def macro_Reset_def NUM_MACRO_REGISTERS_def erase_def aget_def aset_def
      hd_conv_nth Let_def)

lemma Execute_independent:
  assumes "parameters_capacity m \<le> length (parameters m)" "parameters_capacity m' \<le> length (parameters m')"
  shows "engine_effect (MacroInterpreterImpl_Execute fuel x code params (m, g)) =
    engine_effect (MacroInterpreterImpl_Execute fuel x code params (m', g))"
proof (cases "params = []")
  case True
  then show ?thesis by (simp add: MacroInterpreterImpl_Execute_def load_parameters_def aget_def)
next
  case False
  from load_parameters_eq [OF assms(1) False] load_parameters_eq [OF assms(2) False] obtain a b
    where ab: "load_parameters params (macro_Reset m) = Inr a" "load_parameters params (macro_Reset m') = Inr b"
      "erase a = erase b" by metis
  have tail: "engine_effect (bind_run (macro_loop fuel x code (c, g)) (\<lambda>s1.
        ensure (unat (next_parameter_index (fst s1)) = num_parameters (fst s1)) (Inr s1))) =
      engine_effect (bind_run (macro_loop fuel x code (erase c, g)) (\<lambda>s1.
        ensure (unat (next_parameter_index (fst s1)) = num_parameters (fst s1)) (Inr s1)))" for c
    unfolding macro_loop_erase
    by (cases "macro_loop fuel x code (c, g)") (auto simp: engine_effect_def erase_fst_def ensure_def split_def)
  show ?thesis using tail [of a] tail [of b] ab by (simp add: MacroInterpreterImpl_Execute_def)
qed

section \<open>What the engine runs\<close>

text \<open>The words a method stands for: those uploaded at it, or the tail of an upload that contains it.\<close>

definition code_of :: "('h, 'g) macro_env \<Rightarrow> 'h MacroEngine \<Rightarrow> u32 \<Rightarrow> u32 list option" where
  "code_of env e method =
     (case uploaded_macro_code e method of
        Some code \<Rightarrow> Some code
      | None \<Rightarrow>
          (case find_mid_method env method e of
             None \<Rightarrow> None
           | Some b \<Rightarrow> map_option (drop (unat (method - b))) (uploaded_macro_code e b)))"

text \<open>Cached programs have their words and a parameter buffer of the recorded capacity; without native replacements
  none is marked as having one.\<close>

definition engine_ok :: "'h MacroEngine \<Rightarrow> bool" where
  "engine_ok e \<longleftrightarrow> (\<forall>method cache_info. macro_cache e method = Some cache_info \<longrightarrow>
     uploaded_macro_code e method \<noteq> None \<and> \<not> has_hle_program cache_info \<and>
     parameters_capacity (lle_program cache_info) \<le> length (parameters (lle_program cache_info)))"

lemma engine_ok_AddCode: "engine_ok e \<Longrightarrow> engine_ok (AddCode method data e)"
  by (auto simp: engine_ok_def AddCode_def)

lemma engine_ok_ClearCode: "engine_ok e \<Longrightarrow> engine_ok (ClearCode method e)"
  by (auto simp: engine_ok_def ClearCode_def)

definition fresh_run :: "nat \<Rightarrow> 'g Maxwell3D \<Rightarrow> u32 list \<Rightarrow> u32 list \<Rightarrow> 'g \<Rightarrow> 'g run" where
  "fresh_run fuel x code params g =
     bind_run (RefreshParameters x params g) (\<lambda>(params1, g1).
     engine_effect (MacroInterpreterImpl_Execute fuel x code params1 (new_interpreter, g1)))"

lemma run_lle_fresh:
  assumes "macro_cache e method = Some ci" "uploaded_macro_code e method = Some code"
    "parameters_capacity (lle_program ci) \<le> length (parameters (lle_program ci))"
  shows "bind_run (run_lle fuel x method params (e, g)) (\<lambda>(e', g'). Inr g') = fresh_run fuel x code params g"
proof -
  have "engine_effect (MacroInterpreterImpl_Execute fuel x code p (lle_program ci, h)) =
      engine_effect (MacroInterpreterImpl_Execute fuel x code p (new_interpreter, h))" for p h
    by (rule Execute_independent [OF assms(3)]) (simp add: new_interpreter_def)
  then show ?thesis
    using assms(1,2)
    by (auto simp: run_lle_def fresh_run_def bind_run_assoc engine_effect_def split_def intro!: bind_run_cong)
qed

text \<open>Running a macro leaves the parameter buffer as it was filled.\<close>

definition same_buffer :: "MacroInterpreterImpl \<Rightarrow> MacroInterpreterImpl \<Rightarrow> bool" where
  "same_buffer m m' \<longleftrightarrow> parameters m' = parameters m \<and> parameters_capacity m' = parameters_capacity m"

lemma same_buffer_refl [simp]: "same_buffer m m"
  by (simp add: same_buffer_def)

lemma same_buffer_trans: "same_buffer a b \<Longrightarrow> same_buffer b c \<Longrightarrow> same_buffer a c"
  by (simp add: same_buffer_def)

lemma same_buffer_update [simp]:
  "same_buffer m (m'\<lparr>pc := a\<rparr>) = same_buffer m m'" "same_buffer m (m'\<lparr>delayed_pc := d\<rparr>) = same_buffer m m'"
  "same_buffer (m\<lparr>pc := a\<rparr>) m' = same_buffer m m'" "same_buffer (m\<lparr>delayed_pc := d\<rparr>) m' = same_buffer m m'"
  "same_buffer m (SetMethodAddress w m') = same_buffer m m'" "same_buffer (SetMethodAddress w m) m' = same_buffer m m'"
  by (simp_all add: same_buffer_def SetMethodAddress_def)

lemma buffer_steps:
  "SetRegister r v m = Inr m' \<Longrightarrow> same_buffer m m'"
  "FetchParameter m = Inr (v, m') \<Longrightarrow> same_buffer m m'"
  "macro_Send x v (m, g) = Inr (m', g') \<Longrightarrow> same_buffer m m'"
  "advance d m = Inr m' \<Longrightarrow> same_buffer m m'"
  by (auto simp: SetRegister_def FetchParameter_def macro_Send_def advance_def same_buffer_def bind_run_eq_Inr ensure_eq_Inr
      split: if_splits option.splits)

lemma fetch_to_buffer: "fetch_to r m = Inr m' \<Longrightarrow> same_buffer m m'"
  by (auto simp: fetch_to_def bind_run_eq_Inr intro: same_buffer_trans dest!: buffer_steps)

lemma ProcessResult_buffer: "ProcessResult x op r v (m, g) = Inr (m', g') \<Longrightarrow> same_buffer m m'"
  by (cases op; fastforce simp: ProcessResult_def bind_run_eq_Inr dest!: buffer_steps fetch_to_buffer
      intro: same_buffer_trans [OF same_buffer_trans])

lemma compute_result_buffer: "compute_result x op (m, g) = Inr (r, m') \<Longrightarrow> same_buffer m m'"
proof -
  have "GetALUResult a b c m = Inr (r, m') \<Longrightarrow> same_buffer m m'" for a b c
    by (cases a) (auto simp: GetALUResult_def same_buffer_def Let_def)
  then show "compute_result x op (m, g) = Inr (r, m') \<Longrightarrow> same_buffer m m'"
    by (cases "op_operation op") (auto simp: compute_result_def bind_run_eq_Inr)
qed

lemma isa_step_buffer: "isa_step x code (ph, npc, (m, g)) = Inr (ph', npc', (m', g')) \<Longrightarrow> same_buffer m m'"
  by (auto simp: isa_step_def bind_run_eq_Inr ensure_eq_Inr Let_def split: if_splits
      dest!: compute_result_buffer ProcessResult_buffer intro: same_buffer_trans)

lemma isa_run_buffer:
  "isa_run n x code (ph, npc, (m, g)) = Inr (m', g') \<Longrightarrow> same_buffer m m'"
proof (induction n arbitrary: ph npc m g)
  case (Suc n)
  then obtain ph1 npc1 m1 g1 where s: "isa_step x code (ph, npc, (m, g)) = Inr (ph1, npc1, (m1, g1))"
    by (auto simp: isa_run.simps bind_run_eq_Inr)
  have "same_buffer m1 m'"
    using Suc.prems s Suc.IH [of ph1 npc1 m1 g1] by (auto simp: isa_run.simps split: if_splits)
  with isa_step_buffer [OF s] show ?case by (rule same_buffer_trans)
qed simp

lemma macro_loop_buffer:
  assumes "macro_loop fuel x code (m, g) = Inr (m', g')" "delayed_pc m = None"
  shows "same_buffer m m'"
  using macro_loop_isa [OF assms(1) _ assms(2)] by (auto dest: isa_run_buffer)

lemma Execute_buffer:
  assumes "MacroInterpreterImpl_Execute fuel x code params (m, g) = Inr (m', g')"
    "parameters_capacity m \<le> length (parameters m)"
  shows "parameters_capacity m' \<le> length (parameters m')"
proof -
  from assms(1) obtain m1 where l: "load_parameters params (macro_Reset m) = Inr m1"
    "macro_loop fuel x code (m1, g) = Inr (m', g')"
    by (auto simp: MacroInterpreterImpl_Execute_def bind_run_eq_Inr ensure_eq_Inr)
  have "delayed_pc m1 = None" "parameters_capacity m1 \<le> length (parameters m1)"
    using l(1) assms(2) by (auto simp: load_parameters_def macro_Reset_def bind_run_eq_Inr Let_def)
  with macro_loop_buffer [OF l(2)] show ?thesis by (simp add: same_buffer_def)
qed

lemma run_lle_ok:
  assumes "run_lle fuel x method params (e, g) = Inr (e', g')" "engine_ok e"
  shows "engine_ok e' \<and> uploaded_macro_code e' = uploaded_macro_code e"
proof (cases "macro_cache e method")
  case (Some ci)
  with assms(1) obtain code p g1 m
    where "uploaded_macro_code e method = Some code" "MacroInterpreterImpl_Execute fuel x code p (lle_program ci, g1) = Inr (m, g')"
      "e' = e\<lparr>macro_cache := (macro_cache e)(method \<mapsto> ci\<lparr>lle_program := m\<rparr>)\<rparr>"
    by (auto simp: run_lle_def bind_run_eq_Inr split: option.splits)
  with Execute_buffer [of fuel x code p "lle_program ci" g1 m g'] assms(2) Some show ?thesis
    by (auto simp: engine_ok_def)
qed (use assms(1) in \<open>simp add: run_lle_def\<close>)

text \<open>Without native replacements and dumps the engine runs the words of the method, whatever is cached.\<close>

definition plain_env :: "('h, 'g) macro_env \<Rightarrow> bool" where
  "plain_env env \<longleftrightarrow> \<not> dump_macros env \<and> (disable_macro_hle env \<or> (\<forall>h. GetHLEProgram env h = None))"

lemma compile_and_run_plain:
  assumes "plain_env env"
  shows "compile_and_run fuel env x method params code mid (e, g) =
    run_lle fuel x method params
      (e\<lparr>macro_cache := (macro_cache e)(method \<mapsto> new_cache_info (HashValue env code))\<rparr>, g)"
  using assms by (auto simp: compile_and_run_def plain_env_def Let_def bind_run_def split: sum.split)

lemma engine_ok_compile:
  "engine_ok e \<Longrightarrow> uploaded_macro_code e method \<noteq> None \<Longrightarrow>
   engine_ok (e\<lparr>macro_cache := (macro_cache e)(method \<mapsto> new_cache_info h)\<rparr>)"
  by (auto simp: engine_ok_def new_cache_info_def new_interpreter_def)

lemma compile_and_run_fresh:
  assumes "plain_env env" "engine_ok e" "uploaded_macro_code e method = Some code"
  shows "bind_run (compile_and_run fuel env x method params code mid (e, g)) (\<lambda>(e', g'). Inr g') =
      fresh_run fuel x code params g"
    "compile_and_run fuel env x method params code mid (e, g) = Inr (e', g') \<Longrightarrow>
      engine_ok e' \<and> uploaded_macro_code e' = uploaded_macro_code e"
  using run_lle_fresh [of "e\<lparr>macro_cache := (macro_cache e)(method \<mapsto> new_cache_info (HashValue env code))\<rparr>" "method"
      "new_cache_info (HashValue env code)" code fuel x params g]
    run_lle_ok [of fuel x "method" params "e\<lparr>macro_cache := (macro_cache e)(method \<mapsto> new_cache_info (HashValue env code))\<rparr>" g]
    engine_ok_compile [OF assms(2), of "method"] assms
  by (simp_all add: compile_and_run_plain new_cache_info_def new_interpreter_def)

lemma MacroEngine_Execute_fresh:
  assumes "plain_env env" "engine_ok e" "code_of env e method = Some code"
  shows "bind_run (MacroEngine_Execute fuel env x method params (e, g)) (\<lambda>(e', g'). Inr g') =
      fresh_run fuel x code params g"
    "MacroEngine_Execute fuel env x method params (e, g) = Inr (e', g') \<Longrightarrow>
      engine_ok e' \<and> uploaded_macro_code e' = (uploaded_macro_code e)(method \<mapsto> code)"
proof -
  have both: "bind_run (MacroEngine_Execute fuel env x method params (e, g)) (\<lambda>(e', g'). Inr g') =
      fresh_run fuel x code params g \<and>
    (\<forall>e' g'. MacroEngine_Execute fuel env x method params (e, g) = Inr (e', g') \<longrightarrow>
      engine_ok e' \<and> uploaded_macro_code e' = (uploaded_macro_code e)(method \<mapsto> code))"
  proof (cases "uploaded_macro_code e method")
    case (Some c)
    with assms(3) have c: "c = code" by (simp add: code_of_def)
    have same: "(uploaded_macro_code e)(method \<mapsto> code) = uploaded_macro_code e" using Some c by auto
    show ?thesis
    proof (cases "macro_cache e method")
      case cached: (Some ci)
      with assms(2) have "\<not> has_hle_program ci" "parameters_capacity (lle_program ci) \<le> length (parameters (lle_program ci))"
        by (auto simp: engine_ok_def)
      with run_lle_fresh [OF cached, of code fuel x params g] Some c cached same show ?thesis
        by (auto simp: MacroEngine_Execute_def dest: run_lle_ok [OF _ assms(2)])
    next
      case None
      with compile_and_run_fresh [OF assms(1,2), of "method" code] Some c same show ?thesis
        by (auto simp: MacroEngine_Execute_def)
    qed
  next
    case None
    with assms(3) obtain b base where b: "find_mid_method env method e = Some b" "uploaded_macro_code e b = Some base"
      "code = drop (unat (method - b)) base" by (auto simp: code_of_def split: option.splits)
    have nocache: "macro_cache e method = None" using assms(2) None unfolding engine_ok_def by (metis not_Some_eq)
    let ?e = "e\<lparr>uploaded_macro_code := (uploaded_macro_code e)(method \<mapsto> code)\<rparr>"
    have ok: "engine_ok ?e" using assms(2) by (auto simp: engine_ok_def)
    have "uploaded_macro_code ?e method = Some code" by simp
    from compile_and_run_fresh [OF assms(1) ok this] None b nocache show ?thesis
      by (auto simp: MacroEngine_Execute_def Let_def)
  qed
  then show "bind_run (MacroEngine_Execute fuel env x method params (e, g)) (\<lambda>(e', g'). Inr g') =
      fresh_run fuel x code params g"
    "MacroEngine_Execute fuel env x method params (e, g) = Inr (e', g') \<Longrightarrow>
      engine_ok e' \<and> uploaded_macro_code e' = (uploaded_macro_code e)(method \<mapsto> code)" by auto
qed

lemma dump_of_mid_method_faults:
  assumes "dump_macros env" "macro_cache e method = None" "uploaded_macro_code e method = None"
  shows "\<exists>f. MacroEngine_Execute fuel env x method params (e, g) = Inl f"
proof -
  have "compile_and_run fuel env x method params code True s \<noteq> Inr r" for code s r
    using assms(1) by (cases s) (auto simp: compile_and_run_def Let_def bind_run_eq_Inr)
  then have "MacroEngine_Execute fuel env x method params (e, g) \<noteq> Inr r" for r
    using assms(2,3) by (auto simp: MacroEngine_Execute_def Let_def split: option.split)
  then show ?thesis by (cases "MacroEngine_Execute fuel env x method params (e, g)") auto
qed

definition upload :: "u32 \<Rightarrow> u32 list \<Rightarrow> 'h MacroEngine \<Rightarrow> 'h MacroEngine" where
  "upload base code e = fold (AddCode base) code e"

lemma upload_code:
  "uploaded_macro_code (upload base code e) method =
     (if method = base \<and> code \<noteq> []
      then Some ((case uploaded_macro_code e base of None \<Rightarrow> [] | Some c \<Rightarrow> c) @ code) else uploaded_macro_code e method)"
  unfolding upload_def
  by (induction code arbitrary: e) (auto simp: AddCode_def split: option.split)

lemma upload_ok: "engine_ok e \<Longrightarrow> engine_ok (upload base code e)"
  unfolding upload_def by (induction code arbitrary: e) (auto intro: engine_ok_AddCode)

section \<open>Properties\<close>

text \<open>C26: A call of a method runs the words uploaded for it, or the tail of the upload that contains it: compiled now or
  cached earlier, the effect on the engine is that of a fresh interpreter on these words, so nothing of an earlier call
  leaks into a later one, and the cache stays consistent with the uploaded code.\<close>

theorem macro_engine_runs_uploaded_code:
  assumes "plain_env env" "engine_ok e" "code_of env e method = Some code"
  shows "bind_run (MacroEngine_Execute fuel env x method params (e, g)) (\<lambda>(e', g'). Inr g') =
      fresh_run fuel x code params g \<and>
    (\<forall>e' g'. MacroEngine_Execute fuel env x method params (e, g) = Inr (e', g') \<longrightarrow>
      engine_ok e' \<and> uploaded_macro_code e' = (uploaded_macro_code e)(method \<mapsto> code))"
  using MacroEngine_Execute_fresh [OF assms] by blast

text \<open>An engine with one upload of four words at method 16, and an environment without native replacements.\<close>

definition plain :: "(unit, 'g) macro_env" where
  "plain = \<lparr>HashValue = (\<lambda>code. 0), GetHLEProgram = (\<lambda>h. None), HLE_Execute = (\<lambda>h ps method g. Inr g),
     disable_macro_hle = False, dump_macros = False, map_order = (\<lambda>m. [16])\<rparr>"

definition one_upload :: "unit MacroEngine" where
  "one_upload = upload 16 [0x11, 0x25, 0x1C0C1, 0x11] \<lparr>macro_cache = Map.empty, uploaded_macro_code = Map.empty, dumped = []\<rparr>"

lemma one_upload_ok: "engine_ok one_upload" "plain_env plain"
  unfolding one_upload_def by (rule upload_ok, simp add: engine_ok_def) (simp add: plain_env_def plain_def)

lemma one_upload_code:
  "code_of plain one_upload 18 = Some [0x1C0C1, 0x11]" "uploaded_macro_code one_upload 18 = None"
  "find_mid_method plain 18 one_upload = Some 16" "uploaded_macro_code one_upload 16 = Some [0x11, 0x25, 0x1C0C1, 0x11]"
  by (simp_all add: code_of_def find_mid_method_def one_upload_def upload_code plain_def)

theorem macro_engine_runs_uploaded_code_witness:
  "bind_run (MacroEngine_Execute 5 plain recorder 18 [3] (one_upload, [])) (\<lambda>(e', g'). Inr g') = Inr [(0, 7)]"
proof -
  have "fresh_run 5 recorder [0x1C0C1, 0x11] [3] [] = Inr [(0, 7)]" by code_simp
  with macro_engine_runs_uploaded_code [OF one_upload_ok(2,1) one_upload_code(1), of 5 recorder "[3]" "[]"]
  show ?thesis by simp
qed

text \<open>A method in the middle of an upload keeps the words it was first called with: after the upload is cleared and
  replaced, a call of the method still runs the old words.\<close>

theorem macro_stale_copy:
  assumes "plain_env env" "engine_ok e" "uploaded_macro_code e method = None" "find_mid_method env method e = Some base"
    "uploaded_macro_code e base = Some old" "MacroEngine_Execute fuel env x method params (e, g) = Inr (e1, g1)"
  shows "bind_run (MacroEngine_Execute fuel env x method params (upload base code (ClearCode base e1), g1))
      (\<lambda>(e', g'). Inr g') = fresh_run fuel x (drop (unat (method - base)) old) params g1"
proof -
  have code: "code_of env e method = Some (drop (unat (method - base)) old)"
    using assms(3-5) by (simp add: code_of_def)
  from MacroEngine_Execute_fresh(2) [OF assms(1,2) code assms(6)]
  have e1: "engine_ok e1" "uploaded_macro_code e1 method = Some (drop (unat (method - base)) old)" by simp_all
  have "method \<noteq> base" using assms(3,5) by auto
  then have "code_of env (upload base code (ClearCode base e1)) method = Some (drop (unat (method - base)) old)"
    using e1(2) by (simp add: code_of_def upload_code ClearCode_def)
  from MacroEngine_Execute_fresh(1) [OF assms(1) upload_ok [OF engine_ok_ClearCode [OF e1(1)]] this]
  show ?thesis .
qed

theorem macro_stale_copy_witness:
  "\<exists>e1 g1. bind_run (MacroEngine_Execute 5 plain recorder 18 [3] (upload 16 [0x11, 0x11, 0x91, 0x11] (ClearCode 16 e1), g1))
      (\<lambda>(e', g'). Inr g') = Inr [(0, 7), (0, 7)]"
proof -
  have first: "fresh_run 5 recorder [0x1C0C1, 0x11] [3] [] = Inr [(0, 7)]" by code_simp
  have again: "fresh_run 5 recorder [0x1C0C1, 0x11] [3] [(0, 7)] = Inr [(0, 7), (0, 7)]" by code_simp
  from MacroEngine_Execute_fresh(1) [OF one_upload_ok(2,1) one_upload_code(1), of 5 recorder "[3]" "[]"] first
  obtain e1 where "MacroEngine_Execute 5 plain recorder 18 [3] (one_upload, []) = Inr (e1, [(0, 7)])"
    by (auto simp: bind_run_eq_Inr)
  from macro_stale_copy [OF one_upload_ok(2,1) one_upload_code(2-4) this, of "[0x11, 0x11, 0x91, 0x11]"] again
  show ?thesis by auto
qed

end
