(* ===== verification/MaxwellMacros.thy ===== *)
theory MaxwellMacros
  imports MacroEngine
begin

text \<open>
  The 3D engine as far as macros go (\<^verbatim>\<open>video_core/engines/maxwell_3d.cpp\<close>): register writes with shadow RAM and dirty flags, the
  methods that upload and bind macros, and the collection of a macro call's parameters.  What the other methods do is a
  parameter, the record \<open>maxwell_env\<close> (\<open>None\<close> where an assertion of theirs fails), as are the draw manager and GPU memory.  A macro that itself calls or uploads macros
  is not modelled: the engine the interpreter sees stops there with \<open>UnreachableCode\<close>.
\<close>

section \<open>State\<close>

definition MacroRegistersStart :: u32 where "MacroRegistersStart = 0xE00"
definition NUM_REGS :: u32 where "NUM_REGS = 0xE00"

definition reg_instruction_ptr :: u32 where "reg_instruction_ptr = 0x45"
definition reg_instruction :: u32 where "reg_instruction = 0x46"
definition reg_start_address_ptr :: u32 where "reg_start_address_ptr = 0x47"
definition reg_start_address :: u32 where "reg_start_address = 0x48"
definition reg_shadow_ram_control :: u32 where "reg_shadow_ram_control = 0x49"
definition reg_inline_data :: u32 where "reg_inline_data = 0x6D"
definition reg_falcon_4 :: u32 where "reg_falcon_4 = 0x8C4"
definition reg_cb_buffer :: u32 where "reg_cb_buffer = 0x8E4"
definition reg_shadow_scratch :: u32 where "reg_shadow_scratch = 0xD00"

datatype ShadowRamControl = Track | TrackWithFilter | Passthrough | Replay | OtherControl u32

definition to_ShadowRamControl :: "u32 \<Rightarrow> ShadowRamControl" where
  "to_ShadowRamControl n =
     (if n = 0 then Track else if n = 1 then TrackWithFilter else if n = 2 then Passthrough
      else if n = 3 then Replay else OtherControl n)"

record 'd Maxwell3DState =
  reg_array :: "u32 \<Rightarrow> u32"
  shadow_reg_array :: "u32 \<Rightarrow> u32"
  dirty_flags :: "bool list"
  dirty_tables :: "(u32 \<Rightarrow> u8) list"
  macro_positions :: "u32 list"
  executing_macro :: u32
  macro_params :: "u32 list"
  macro_segments :: "(u64 \<times> nat) list"
  macro_addresses :: "u64 list"
  current_macro_dirty :: bool
  current_dirty :: bool
  current_dma_segment :: u64
  method_sink :: "(u32 \<times> u32) list"
  devices :: 'd

record 'd maxwell_env =
  ProcessOther :: "u32 \<Rightarrow> u32 \<Rightarrow> bool \<Rightarrow> 'd Maxwell3DState \<Rightarrow> 'd Maxwell3DState option"
  ProcessMultiData :: "u32 \<Rightarrow> u32 list \<Rightarrow> 'd Maxwell3DState \<Rightarrow> 'd Maxwell3DState option"
  DrawDeferred :: "'d Maxwell3DState \<Rightarrow> 'd Maxwell3DState"
  ReadWord :: "u64 \<Rightarrow> 'd Maxwell3DState \<Rightarrow> u32"
  gpu_level_high :: bool

section \<open>Registers\<close>

definition asserted :: "'a option \<Rightarrow> 'a run" where
  "asserted r = (case r of None \<Rightarrow> Inl AssertFailed | Some v \<Rightarrow> Inr v)"

definition reg_index :: "u32 \<Rightarrow> 'a run \<Rightarrow> 'a run" where
  "reg_index i k = (if i < NUM_REGS then k else Inl OutOfBounds)"

definition shadow_write ::
  "ShadowRamControl \<Rightarrow> u32 \<Rightarrow> u32 \<Rightarrow> 'd Maxwell3DState \<Rightarrow> (u32 \<times> 'd Maxwell3DState) run" where
  "shadow_write control method argument g =
     (if control = Track \<or> control = TrackWithFilter
      then reg_index method (Inr (argument, g\<lparr>shadow_reg_array := (shadow_reg_array g)(method := argument)\<rparr>))
      else if control = Replay then reg_index method (Inr (shadow_reg_array g method, g))
      else Inr (argument, g))"

definition shadow_control :: "'d Maxwell3DState \<Rightarrow> ShadowRamControl" where
  "shadow_control g = to_ShadowRamControl (shadow_reg_array g reg_shadow_ram_control)"

definition ProcessShadowRam :: "u32 \<Rightarrow> u32 \<Rightarrow> 'd Maxwell3DState \<Rightarrow> (u32 \<times> 'd Maxwell3DState) run" where
  "ProcessShadowRam method argument g = shadow_write (shadow_control g) method argument g"

primrec mark_dirty :: "u32 \<Rightarrow> (u32 \<Rightarrow> u8) list \<Rightarrow> bool list \<Rightarrow> bool list run" where
  "mark_dirty method [] flags = Inr flags"
| "mark_dirty method (table # tables) flags =
     bind_run (aset flags (uint (table method)) True) (mark_dirty method tables)"

definition ProcessDirtyRegisters :: "u32 \<Rightarrow> u32 \<Rightarrow> 'd Maxwell3DState \<Rightarrow> 'd Maxwell3DState run" where
  "ProcessDirtyRegisters method argument g =
     reg_index method
       (if reg_array g method = argument then Inr g
        else bind_run (mark_dirty method (dirty_tables g) (dirty_flags g)) (\<lambda>flags.
          Inr (g\<lparr>reg_array := (reg_array g)(method := argument), dirty_flags := flags\<rparr>)))"

text \<open>The writes collected in the sink, under the control word from before the first of them.\<close>

primrec consume_writes ::
  "ShadowRamControl \<Rightarrow> (u32 \<times> u32) list \<Rightarrow> 'd Maxwell3DState \<Rightarrow> 'd Maxwell3DState run" where
  "consume_writes control [] g = Inr g"
| "consume_writes control (w # ws) g =
     bind_run (shadow_write control (fst w) (snd w) g) (\<lambda>(argument, g1).
     bind_run (ProcessDirtyRegisters (fst w) argument g1) (consume_writes control ws))"

definition ConsumeSink :: "'d Maxwell3DState \<Rightarrow> 'd Maxwell3DState run" where
  "ConsumeSink g =
     (if method_sink g = [] then Inr g
      else bind_run (consume_writes (shadow_control g) (method_sink g) g) (\<lambda>g1. Inr (g1\<lparr>method_sink := []\<rparr>)))"

definition ProcessMacroBind :: "u32 \<Rightarrow> 'd Maxwell3DState \<Rightarrow> 'd Maxwell3DState run" where
  "ProcessMacroBind data g =
     (let i = reg_array g reg_start_address_ptr
      in bind_run (aset (macro_positions g) (uint i) data) (\<lambda>positions.
         Inr (g\<lparr>reg_array := (reg_array g)(reg_start_address_ptr := i + 1), macro_positions := positions\<rparr>)))"

definition ProcessFirmwareCall4 :: "'d Maxwell3DState \<Rightarrow> 'd Maxwell3DState" where
  "ProcessFirmwareCall4 g = g\<lparr>reg_array := (reg_array g)(reg_shadow_scratch := 1)\<rparr>"

text \<open>The methods that do not change the macro engine.\<close>

definition ProcessMethodCall ::
  "'d maxwell_env \<Rightarrow> u32 \<Rightarrow> u32 \<Rightarrow> u32 \<Rightarrow> bool \<Rightarrow> 'd Maxwell3DState \<Rightarrow> 'd Maxwell3DState run" where
  "ProcessMethodCall env method argument nonshadow_argument is_last_call g =
     (if method = reg_shadow_ram_control
      then Inr (g\<lparr>shadow_reg_array := (shadow_reg_array g)(reg_shadow_ram_control := nonshadow_argument)\<rparr>)
      else if method = reg_start_address then ProcessMacroBind argument g
      else if method = reg_falcon_4 then Inr (ProcessFirmwareCall4 g)
      else asserted (ProcessOther env method argument is_last_call g))"

text \<open>A register write up to its side effects: the assertion, shadow RAM and dirty flags.\<close>

definition write_register :: "u32 \<Rightarrow> u32 \<Rightarrow> 'd Maxwell3DState \<Rightarrow> (u32 \<times> 'd Maxwell3DState) run" where
  "write_register method method_argument g =
     ensure (method < NUM_REGS)
       (bind_run (ProcessShadowRam method method_argument g) (\<lambda>(argument, g1).
        bind_run (ProcessDirtyRegisters method argument g1) (\<lambda>g2. Inr (argument, g2))))"

section \<open>The engine as macros see it\<close>

definition macro_expected :: "u32 \<Rightarrow> 'd Maxwell3DState \<Rightarrow> bool" where
  "macro_expected method g \<longleftrightarrow> executing_macro g \<noteq> 0 \<longrightarrow> method = executing_macro g + 1"

definition macro_CallMethod ::
  "'d maxwell_env \<Rightarrow> u32 \<Rightarrow> u32 \<Rightarrow> bool \<Rightarrow> 'd Maxwell3DState \<Rightarrow> 'd Maxwell3DState run" where
  "macro_CallMethod env method method_argument is_last_call g =
     ensure (macro_expected method g)
       (if method \<ge> MacroRegistersStart \<or> method = reg_instruction_ptr \<or> method = reg_instruction
        then Inl UnreachableCode
        else bind_run (write_register method method_argument g) (\<lambda>(argument, g1).
          ProcessMethodCall env method argument method_argument is_last_call g1))"

definition Maxwell_GetRegisterValue :: "u32 \<Rightarrow> 'd Maxwell3DState \<Rightarrow> u32 run" where
  "Maxwell_GetRegisterValue method g = ensure (method < NUM_REGS) (Inr (reg_array g method))"

primrec refresh_segments ::
  "'d maxwell_env \<Rightarrow> (u64 \<times> nat) list \<Rightarrow> nat \<Rightarrow> 'd Maxwell3DState \<Rightarrow> u32 list \<Rightarrow> u32 list" where
  "refresh_segments env [] current_index g params = params"
| "refresh_segments env (segment # segments) current_index g params =
     (let n = snd segment;
          words = map (\<lambda>i. ReadWord env (fst segment + 4 * of_nat i) g) [0..<n];
          params1 = (if fst segment = 0 then params
                     else take current_index params @ words @ drop (current_index + n) params)
      in refresh_segments env segments (current_index + n) g params1)"

text \<open>The parameters of a call are a reference to \<^verbatim>\<open>macro_params\<close>, so a refresh changes both.\<close>

definition Maxwell_RefreshParameters ::
  "'d maxwell_env \<Rightarrow> u32 list \<Rightarrow> 'd Maxwell3DState \<Rightarrow> (u32 list \<times> 'd Maxwell3DState) run" where
  "Maxwell_RefreshParameters env params g =
     (if \<not> current_macro_dirty g \<or> \<not> gpu_level_high env then Inr (params, g)
      else let params1 = refresh_segments env (macro_segments g) 0 g params
        in Inr (params1, g\<lparr>macro_params := params1\<rparr>))"

definition maxwell3d :: "'d maxwell_env \<Rightarrow> 'd Maxwell3DState Maxwell3D" where
  "maxwell3d env = \<lparr>CallMethod = macro_CallMethod env, GetRegisterValue = Maxwell_GetRegisterValue,
     RefreshParameters = Maxwell_RefreshParameters env\<rparr>"

section \<open>Methods from the command buffer\<close>

type_synonym ('h, 'd) gpu = "'h MacroEngine \<times> 'd Maxwell3DState"

definition CallMacroMethod ::
  "nat \<Rightarrow> ('h, 'd Maxwell3DState) macro_env \<Rightarrow> 'd maxwell_env \<Rightarrow> u32 \<Rightarrow> u32 list \<Rightarrow> ('h, 'd) gpu \<Rightarrow> ('h, 'd) gpu run" where
  "CallMacroMethod fuel menv env method params s =
     (case s of (e, g) \<Rightarrow>
        let entry = drop_bit 1 (method - MacroRegistersStart) mod 0x80
        in bind_run (aget (macro_positions g) (uint entry)) (\<lambda>position.
           bind_run (MacroEngine_Execute fuel menv (maxwell3d env) position params
               (e, g\<lparr>executing_macro := 0\<rparr>)) (\<lambda>(e1, g1).
           Inr (e1, DrawDeferred env g1))))"

definition ProcessMacro ::
  "nat \<Rightarrow> ('h, 'd Maxwell3DState) macro_env \<Rightarrow> 'd maxwell_env \<Rightarrow> u32 \<Rightarrow> u32 list \<Rightarrow> bool \<Rightarrow> ('h, 'd) gpu \<Rightarrow>
   ('h, 'd) gpu run" where
  "ProcessMacro fuel menv env method arguments is_last_call s =
     (case s of (e, g) \<Rightarrow>
        ensure (executing_macro g = 0 \<longrightarrow> method mod 2 = 0)
          (let g1 = (if executing_macro g = 0 then g\<lparr>executing_macro := method\<rparr> else g);
               g2 = g1\<lparr>macro_params := macro_params g1 @ arguments,
                 macro_addresses := macro_addresses g1 @
                   map (\<lambda>i. current_dma_segment g1 + of_nat i * 4) [0..<length arguments],
                 macro_segments := macro_segments g1 @ [(current_dma_segment g1, length arguments)],
                 current_macro_dirty := current_macro_dirty g1 \<or> current_dirty g1, current_dirty := False\<rparr>
           in if is_last_call then
                bind_run (ConsumeSink g2) (\<lambda>g3.
                bind_run (CallMacroMethod fuel menv env (executing_macro g3) (macro_params g3) (e, g3)) (\<lambda>(e1, g4).
                Inr (e1, g4\<lparr>macro_params := [], macro_addresses := [], macro_segments := [],
                  current_macro_dirty := False\<rparr>)))
              else Inr (e, g2)))"

definition Maxwell_CallMethod ::
  "nat \<Rightarrow> ('h, 'd Maxwell3DState) macro_env \<Rightarrow> 'd maxwell_env \<Rightarrow> u32 \<Rightarrow> u32 \<Rightarrow> bool \<Rightarrow> ('h, 'd) gpu \<Rightarrow>
   ('h, 'd) gpu run" where
  "Maxwell_CallMethod fuel menv env method method_argument is_last_call s =
     (case s of (e, g) \<Rightarrow>
        ensure (macro_expected method g)
          (if method \<ge> MacroRegistersStart
           then ProcessMacro fuel menv env method [method_argument] is_last_call s
           else bind_run (write_register method method_argument g) (\<lambda>(argument, g1).
             if method = reg_instruction_ptr then Inr (ClearCode (reg_array g1 reg_instruction_ptr) e, g1)
             else if method = reg_instruction then Inr (AddCode (reg_array g1 reg_instruction_ptr) argument e, g1)
             else bind_run (ProcessMethodCall env method argument method_argument is_last_call g1) (\<lambda>g2. Inr (e, g2)))))"

primrec call_each ::
  "nat \<Rightarrow> ('h, 'd Maxwell3DState) macro_env \<Rightarrow> 'd maxwell_env \<Rightarrow> u32 \<Rightarrow> u32 list \<Rightarrow> u32 \<Rightarrow> ('h, 'd) gpu \<Rightarrow> ('h, 'd) gpu run"
where
  "call_each fuel menv env method [] methods_pending s = Inr s"
| "call_each fuel menv env method (a # arguments) methods_pending s =
     bind_run (Maxwell_CallMethod fuel menv env method a (methods_pending \<le> 1) s)
       (call_each fuel menv env method arguments (methods_pending - 1))"

definition CallMultiMethod ::
  "nat \<Rightarrow> ('h, 'd Maxwell3DState) macro_env \<Rightarrow> 'd maxwell_env \<Rightarrow> u32 \<Rightarrow> u32 list \<Rightarrow> u32 \<Rightarrow> ('h, 'd) gpu \<Rightarrow> ('h, 'd) gpu run"
where
  "CallMultiMethod fuel menv env method arguments methods_pending s =
     (if method \<ge> MacroRegistersStart
      then ProcessMacro fuel menv env method arguments (of_nat (length arguments) = methods_pending) s
      else if reg_cb_buffer \<le> method \<and> method < reg_cb_buffer + 16
      then bind_run (asserted (ProcessMultiData env method arguments (snd s))) (\<lambda>g. Inr (fst s, g))
      else if method = reg_inline_data
      then ensure (methods_pending = of_nat (length arguments))
        (bind_run (asserted (ProcessMultiData env method arguments (snd s))) (\<lambda>g. Inr (fst s, g)))
      else call_each fuel menv env method arguments methods_pending s)"

section \<open>The engine is a target for macros\<close>

definition maxwell_ok :: "'d Maxwell3DState \<Rightarrow> bool" where
  "maxwell_ok g \<longleftrightarrow> length (dirty_flags g) = 255 \<and> length (macro_positions g) = 0x80 \<and>
     (\<forall>table\<in>set (dirty_tables g). \<forall>method. unat (table method) < 255)"


lemma mark_dirty_ok:
  "\<forall>table\<in>set ts. unat (table m) < length fs \<Longrightarrow> \<exists>fs'. mark_dirty m ts fs = Inr fs' \<and> length fs' = length fs"
proof (induction ts arbitrary: fs)
  case (Cons t ts)
  then show ?case using Cons.IH [of "fs[unat (t m) := True]"] by simp
qed simp







section \<open>Uploading and calling\<close>

lemma write_register_eq:
  assumes "maxwell_ok g" "shadow_control g \<noteq> Replay" "method < NUM_REGS" "method \<noteq> reg_shadow_ram_control"
  shows "\<exists>fs sh. write_register method a g =
      Inr (a, g\<lparr>shadow_reg_array := sh, reg_array := (reg_array g)(method := a), dirty_flags := fs\<rparr>) \<and>
    length fs = 255 \<and> sh reg_shadow_ram_control = shadow_reg_array g reg_shadow_ram_control"
proof -
  obtain sh where sh: "ProcessShadowRam method a g = Inr (a, g\<lparr>shadow_reg_array := sh\<rparr>)"
    "sh reg_shadow_ram_control = shadow_reg_array g reg_shadow_ram_control"
  proof (cases "shadow_control g = Track \<or> shadow_control g = TrackWithFilter")
    case True
    then show ?thesis
      using assms(2-4) that [of "(shadow_reg_array g)(method := a)"]
      by (auto simp: ProcessShadowRam_def shadow_write_def reg_index_def)
  next
    case False
    then show ?thesis
      using assms(2) that [of "shadow_reg_array g"] by (auto simp: ProcessShadowRam_def shadow_write_def)
  qed
  from mark_dirty_ok [of "dirty_tables g" "method" "dirty_flags g"] assms(1) obtain fs
    where fs: "mark_dirty method (dirty_tables g) (dirty_flags g) = Inr fs" "length fs = 255"
    by (auto simp: maxwell_ok_def)
  show ?thesis
  proof (cases "reg_array g method = a")
    case True
    then have "(reg_array g)(method := a) = reg_array g" by auto
    with True sh assms(1,3) show ?thesis
      by (intro exI [of _ "dirty_flags g"] exI [of _ sh])
        (simp add: write_register_def ProcessDirtyRegisters_def reg_index_def maxwell_ok_def)
  next
    case False
    with sh fs assms(3) show ?thesis
      by (intro exI [of _ fs] exI [of _ sh]) (simp add: write_register_def ProcessDirtyRegisters_def reg_index_def)
  qed
qed

lemmas reg_defs = reg_instruction_ptr_def reg_instruction_def reg_start_address_ptr_def reg_start_address_def
  reg_shadow_ram_control_def reg_falcon_4_def NUM_REGS_def MacroRegistersStart_def

text \<open>An idle engine: no macro is being collected and writes go through.\<close>

definition idle :: "'d Maxwell3DState \<Rightarrow> bool" where
  "idle g \<longleftrightarrow> maxwell_ok g \<and> shadow_control g \<noteq> Replay \<and> executing_macro g = 0 \<and> macro_params g = [] \<and>
     macro_segments g = [] \<and> method_sink g = [] \<and> \<not> current_dirty g \<and> \<not> current_macro_dirty g"

primrec call_methods ::
  "nat \<Rightarrow> ('h, 'd Maxwell3DState) macro_env \<Rightarrow> 'd maxwell_env \<Rightarrow> (u32 \<times> u32) list \<Rightarrow> ('h, 'd) gpu \<Rightarrow> ('h, 'd) gpu run" where
  "call_methods fuel menv env [] s = Inr s"
| "call_methods fuel menv env (c # cs) s =
     bind_run (Maxwell_CallMethod fuel menv env (fst c) (snd c) True s) (call_methods fuel menv env cs)"

lemma call_methods_append:
  "call_methods fuel menv env (xs @ ys) s = bind_run (call_methods fuel menv env xs s) (call_methods fuel menv env ys)"
  by (induction xs arbitrary: s) (auto simp: bind_run_assoc intro!: bind_run_cong)

definition upload_methods :: "u32 \<Rightarrow> u32 \<Rightarrow> u32 list \<Rightarrow> (u32 \<times> u32) list" where
  "upload_methods slot position code =
     (reg_instruction_ptr, position) # map (Pair reg_instruction) code @
     [(reg_start_address_ptr, slot), (reg_start_address, position)]"

lemma call_instruction_ptr:
  assumes "idle g"
  shows "\<exists>g1. Maxwell_CallMethod fuel menv env reg_instruction_ptr a l (e, g) = Inr (ClearCode a e, g1) \<and> idle g1 \<and>
    reg_array g1 reg_instruction_ptr = a"
proof -
  have g: "maxwell_ok g" "shadow_control g \<noteq> Replay" using assms by (simp_all add: idle_def)
  from write_register_eq [OF g, of reg_instruction_ptr a] obtain fs sh where
    "write_register reg_instruction_ptr a g = Inr (a, g\<lparr>shadow_reg_array := sh,
        reg_array := (reg_array g)(reg_instruction_ptr := a), dirty_flags := fs\<rparr>)"
    "length fs = 255" "sh reg_shadow_ram_control = shadow_reg_array g reg_shadow_ram_control"
    by (auto simp: reg_defs)
  then show ?thesis
    using assms
    by (simp add: Maxwell_CallMethod_def macro_expected_def idle_def maxwell_ok_def shadow_control_def)
      (simp add: reg_defs)
qed

lemma call_instructions:
  assumes "idle g" "reg_array g reg_instruction_ptr = position"
  shows "\<exists>g1. call_methods fuel menv env (map (Pair reg_instruction) code) (e, g) = Inr (upload position code e, g1) \<and>
    idle g1"
  using assms
proof (induction code arbitrary: e g)
  case Nil
  then show ?case by (simp add: upload_def)
next
  case (Cons w code)
  have g: "maxwell_ok g" "shadow_control g \<noteq> Replay" using Cons.prems by (simp_all add: idle_def)
  from write_register_eq [OF g, of reg_instruction w] obtain fs sh where
    wr: "write_register reg_instruction w g = Inr (w, g\<lparr>shadow_reg_array := sh,
        reg_array := (reg_array g)(reg_instruction := w), dirty_flags := fs\<rparr>)"
    "length fs = 255" "sh reg_shadow_ram_control = shadow_reg_array g reg_shadow_ram_control"
    by (auto simp: reg_defs)
  let ?g = "g\<lparr>shadow_reg_array := sh, reg_array := (reg_array g)(reg_instruction := w), dirty_flags := fs\<rparr>"
  have "idle ?g" using wr Cons.prems(1) by (simp add: idle_def maxwell_ok_def shadow_control_def)
  moreover have ptr: "reg_array ?g reg_instruction_ptr = position" using Cons.prems(2) by (simp add: reg_defs)
  moreover have "Maxwell_CallMethod fuel menv env reg_instruction w True (e, g) = Inr (AddCode position w e, ?g)"
    using wr Cons.prems ptr
    by (simp add: Maxwell_CallMethod_def macro_expected_def idle_def) (simp add: reg_defs)
  ultimately show ?case using Cons.IH [of ?g "AddCode position w e"] by (simp add: upload_def)
qed

lemma call_bind:
  assumes "idle g" "unat slot < 0x80" "\<forall>a l h. ProcessOther env reg_start_address_ptr a l h = Some h"
  shows "\<exists>g1. call_methods fuel menv env [(reg_start_address_ptr, slot), (reg_start_address, position)] (e, g) = Inr (e, g1) \<and>
    idle g1 \<and> macro_positions g1 ! unat slot = position"
proof -
  have g: "maxwell_ok g" "shadow_control g \<noteq> Replay" using assms by (simp_all add: idle_def)
  from write_register_eq [OF g, of reg_start_address_ptr slot] obtain fs sh where
    wr: "write_register reg_start_address_ptr slot g = Inr (slot, g\<lparr>shadow_reg_array := sh,
        reg_array := (reg_array g)(reg_start_address_ptr := slot), dirty_flags := fs\<rparr>)"
    "length fs = 255" "sh reg_shadow_ram_control = shadow_reg_array g reg_shadow_ram_control"
    by (auto simp: reg_defs)
  define g1 where "g1 = g\<lparr>shadow_reg_array := sh, reg_array := (reg_array g)(reg_start_address_ptr := slot), dirty_flags := fs\<rparr>"
  have one: "Maxwell_CallMethod fuel menv env reg_start_address_ptr slot True (e, g) = Inr (e, g1)"
    using wr assms
    by (simp add: Maxwell_CallMethod_def macro_expected_def idle_def ProcessMethodCall_def asserted_def g1_def)
      (simp add: reg_defs)
  have i1: "idle g1" and p1: "reg_array g1 reg_start_address_ptr = slot"
    using wr assms(1) by (simp_all add: g1_def idle_def maxwell_ok_def shadow_control_def)
  have g1: "maxwell_ok g1" "shadow_control g1 \<noteq> Replay" using i1 by (simp_all add: idle_def)
  from write_register_eq [OF g1, of reg_start_address position] obtain fs2 sh2 where
    wr2: "write_register reg_start_address position g1 = Inr (position, g1\<lparr>shadow_reg_array := sh2,
        reg_array := (reg_array g1)(reg_start_address := position), dirty_flags := fs2\<rparr>)"
    "length fs2 = 255" "sh2 reg_shadow_ram_control = shadow_reg_array g1 reg_shadow_ram_control"
    by (auto simp: reg_defs)
  define g2 where "g2 = g1\<lparr>shadow_reg_array := sh2, reg_array := (reg_array g1)(reg_start_address := position,
      reg_start_address_ptr := slot + 1), dirty_flags := fs2, macro_positions := (macro_positions g1)[unat slot := position]\<rparr>"
  have "reg_start_address \<noteq> reg_start_address_ptr" by (simp add: reg_defs)
  then have bind: "ProcessMethodCall env reg_start_address position position True (g1\<lparr>shadow_reg_array := sh2,
        reg_array := (reg_array g1)(reg_start_address := position), dirty_flags := fs2\<rparr>) = Inr g2"
    using p1 g1(1) assms(2)
    by (simp add: ProcessMethodCall_def ProcessMacroBind_def maxwell_ok_def g2_def Let_def) (simp add: reg_defs)
  have two: "Maxwell_CallMethod fuel menv env reg_start_address position True (e, g1) = Inr (e, g2)"
    using wr2 i1 bind by (simp add: Maxwell_CallMethod_def macro_expected_def idle_def) (simp add: reg_defs)
  have "idle g2 \<and> macro_positions g2 ! unat slot = position"
    using wr2 i1 assms(2) by (simp add: g2_def idle_def maxwell_ok_def shadow_control_def)
  with one two show ?thesis by simp
qed

lemma upload_methods_spec:
  assumes "idle g" "unat slot < 0x80" "\<forall>a l h. ProcessOther env reg_start_address_ptr a l h = Some h"
  shows "\<exists>g1. call_methods fuel menv env (upload_methods slot position code) (e, g) =
      Inr (upload position code (ClearCode position e), g1) \<and> idle g1 \<and> macro_positions g1 ! unat slot = position"
proof -
  from call_instruction_ptr [OF assms(1)] obtain g1
    where one: "Maxwell_CallMethod fuel menv env reg_instruction_ptr position True (e, g) = Inr (ClearCode position e, g1)"
      "idle g1" "reg_array g1 reg_instruction_ptr = position" by blast
  from call_instructions [OF one(2,3)] obtain g2
    where two: "call_methods fuel menv env (map (Pair reg_instruction) code) (ClearCode position e, g1) =
      Inr (upload position code (ClearCode position e), g2)" "idle g2" by blast
  from call_bind [OF two(2) assms(2,3)] obtain g3
    where "call_methods fuel menv env [(reg_start_address_ptr, slot), (reg_start_address, position)]
        (upload position code (ClearCode position e), g2) = Inr (upload position code (ClearCode position e), g3)"
      "idle g3" "macro_positions g3 ! unat slot = position" by blast
  with one two show ?thesis by (simp add: upload_methods_def call_methods_append del: call_methods.simps(2))
      (simp add: call_methods.simps(2) [of fuel menv env "(reg_instruction_ptr, position)"] call_methods_append)
qed

text \<open>The state in which a macro runs: its parameters are recorded, and no macro is being collected any more.\<close>

definition calling :: "u32 list \<Rightarrow> 'd Maxwell3DState \<Rightarrow> 'd Maxwell3DState" where
  "calling params g = g\<lparr>macro_params := params,
     macro_addresses := macro_addresses g @ map (\<lambda>i. current_dma_segment g + of_nat i * 4) [0..<length params],
     macro_segments := [(current_dma_segment g, length params)], current_macro_dirty := False, current_dirty := False,
     executing_macro := 0\<rparr>"

definition finished :: "'d Maxwell3DState \<Rightarrow> 'd Maxwell3DState" where
  "finished g = g\<lparr>macro_params := [], macro_addresses := [], macro_segments := [], current_macro_dirty := False\<rparr>"

definition macro_method :: "u32 \<Rightarrow> u32" where
  "macro_method slot = MacroRegistersStart + 2 * slot"

lemma macro_method_facts:
  assumes "unat slot < 0x80"
  shows "macro_method slot \<ge> MacroRegistersStart" "macro_method slot mod 2 = 0" "macro_method slot \<noteq> 0"
    "drop_bit 1 (macro_method slot - MacroRegistersStart) mod 0x80 = slot"
proof -
  have s: "unat (2 * slot) = 2 * unat slot" using assms by (subst unat_mult_lem [THEN iffD1]) simp_all
  have m: "unat (macro_method slot) = 0xE00 + 2 * unat slot"
    unfolding macro_method_def MacroRegistersStart_def using s assms by (subst unat_add_small) simp_all
  show "macro_method slot \<ge> MacroRegistersStart" using m by (simp add: MacroRegistersStart_def word_le_nat_alt)
  show "macro_method slot mod 2 = 0" using m by (simp add: unat_eq_0 [symmetric] unat_mod)
  show "macro_method slot \<noteq> 0" using m by auto
  have "unat (drop_bit 1 (2 * slot) mod 0x80) = unat slot"
    using s assms by (simp add: unat_mod unat_div drop_bit_eq_div)
  then have "drop_bit 1 (2 * slot) mod 0x80 = slot" by (simp only: word_unat_eq_iff)
  then show "drop_bit 1 (macro_method slot - MacroRegistersStart) mod 0x80 = slot"
    by (simp add: macro_method_def)
qed

lemma call_macro_spec:
  assumes "idle g" "unat slot < 0x80"
  shows "CallMultiMethod fuel menv env (macro_method slot) params (of_nat (length params)) (e, g) =
    bind_run (MacroEngine_Execute fuel menv (maxwell3d env) (macro_positions g ! unat slot) params (e, calling params g))
      (\<lambda>(e1, g1). Inr (e1, finished (DrawDeferred env g1)))"
proof -
  note f = macro_method_facts [OF assms(2)]
  have "length (macro_positions g) = 0x80" using assms(1) by (simp add: idle_def maxwell_ok_def)
  with f assms show ?thesis
    by (simp add: CallMultiMethod_def ProcessMacro_def CallMacroMethod_def ConsumeSink_def idle_def Let_def bind_run_assoc
        calling_def finished_def split_def)
qed


section \<open>Properties\<close>


definition no_devices :: "unit maxwell_env" where
  "no_devices = \<lparr>ProcessOther = (\<lambda>m a l g. Some g), ProcessMultiData = (\<lambda>m a g. Some g), DrawDeferred = (\<lambda>g. g),
     ReadWord = (\<lambda>a g. 0), gpu_level_high = False\<rparr>"

definition reset_gpu :: "unit Maxwell3DState" where
  "reset_gpu = \<lparr>reg_array = (\<lambda>i. 0), shadow_reg_array = (\<lambda>i. 0), dirty_flags = replicate 255 False,
     dirty_tables = [\<lambda>m. 0, \<lambda>m. 0], macro_positions = replicate 0x80 0, executing_macro = 0, macro_params = [],
     macro_segments = [], macro_addresses = [], current_macro_dirty = False, current_dirty = False,
     current_dma_segment = 0, method_sink = [], devices = ()\<rparr>"


text \<open>C27: Uploading words through the engine's methods, binding them to a macro and calling it runs exactly these words on
  exactly the parameters of the call, and leaves no parameters behind for the next one.\<close>

theorem macro_upload_and_call:
  assumes "plain_env menv" "engine_ok e" "idle g" "unat slot < 0x80" "code \<noteq> []"
    "\<forall>a l h. ProcessOther env reg_start_address_ptr a l h = Some h"
  shows "\<exists>e1 g1. call_methods fuel menv env (upload_methods slot position code) (e, g) = Inr (e1, g1) \<and>
    bind_run (CallMultiMethod fuel menv env (macro_method slot) params (of_nat (length params)) (e1, g1)) (\<lambda>(e2, g2). Inr g2) =
      bind_run (fresh_run fuel (maxwell3d env) code params (calling params g1)) (\<lambda>g2. Inr (finished (DrawDeferred env g2)))"
proof -
  from upload_methods_spec [OF assms(3,4,6)] obtain g1
    where up: "call_methods fuel menv env (upload_methods slot position code) (e, g) =
        Inr (upload position code (ClearCode position e), g1)" "idle g1" "macro_positions g1 ! unat slot = position" by blast
  let ?e = "upload position code (ClearCode position e)"
  have "code_of menv ?e position = Some code"
    using assms(5) by (simp add: code_of_def upload_code ClearCode_def)
  note run = MacroEngine_Execute_fresh(1) [OF assms(1) upload_ok [OF engine_ok_ClearCode [OF assms(2)]] this,
    of fuel "maxwell3d env" params "calling params g1"]
  have "bind_run (CallMultiMethod fuel menv env (macro_method slot) params (of_nat (length params)) (?e, g1)) (\<lambda>(e2, g2). Inr g2) =
      bind_run (bind_run (MacroEngine_Execute fuel menv (maxwell3d env) position params (?e, calling params g1))
        (\<lambda>(e', g'). Inr g')) (\<lambda>g2. Inr (finished (DrawDeferred env g2)))"
    using call_macro_spec [OF up(2) assms(4), of fuel menv env params ?e] up(3) by (simp add: bind_run_assoc split_def)
  with run up(1) show ?thesis by auto
qed

theorem macro_upload_and_call_witness:
  "\<exists>e1 g1. call_methods 5 plain no_devices (upload_methods 3 16 [0x1C0C1, 0x11])
      (\<lparr>macro_cache = Map.empty, uploaded_macro_code = Map.empty, dumped = []\<rparr>, reset_gpu) = Inr (e1, g1) \<and>
    bind_run (CallMultiMethod 5 plain no_devices (macro_method 3) [8] 1 (e1, g1)) (\<lambda>(e2, g2). Inr g2) =
      bind_run (fresh_run 5 (maxwell3d no_devices) [0x1C0C1, 0x11] [8] (calling [8] g1))
        (\<lambda>g2. Inr (finished (DrawDeferred no_devices g2)))"
proof -
  have "idle reset_gpu"
    by (simp add: idle_def reset_gpu_def maxwell_ok_def shadow_control_def to_ShadowRamControl_def)
  moreover have "engine_ok \<lparr>macro_cache = Map.empty, uploaded_macro_code = Map.empty, dumped = []\<rparr>" by (simp add: engine_ok_def)
  ultimately show ?thesis
    using macro_upload_and_call [OF one_upload_ok(2), of _ reset_gpu 3 "[0x1C0C1, 0x11]" no_devices 5 16 "[8]"]
    by (simp add: no_devices_def)
qed

end
