(* ===== verification/BufferQueueCore.thy ===== *)
theory BufferQueueCore
  imports Prelude
begin

text \<open>
  The state a producer and a consumer of display buffers share (\<^verbatim>\<open>core/hle/service/nvnflinger/buffer_queue_core.{h,cpp}\<close>,
  \<^verbatim>\<open>buffer_slot.h\<close>, \<^verbatim>\<open>buffer_item.h\<close>): 64 slots, each owned by the producer, the queue, the consumer or nobody, and the queue of
  frames between them.  A \<^verbatim>\<open>shared_ptr\<close> to a graphic buffer or a listener is an optional number; the buffers themselves
  are the list \<open>graphic_buffers\<close>, in the order of their construction, as a slot or an item keeps its buffer alive.  The calls on
  listeners are recorded in \<open>callbacks\<close>.
\<close>

section \<open>Data\<close>

type_synonym Status = "32 word"

definition NoError :: Status where "NoError = 0"
definition StaleBufferSlot :: Status where "StaleBufferSlot = 1"
definition NoBufferAvailable :: Status where "NoBufferAvailable = 2"
definition PresentLater :: Status where "PresentLater = 3"
definition WouldBlock :: Status where "WouldBlock = -11"
definition NoMemory :: Status where "NoMemory = -12"
definition Busy :: Status where "Busy = -16"
definition NoInit :: Status where "NoInit = -19"
definition BadValue :: Status where "BadValue = -22"
definition InvalidOperation :: Status where "InvalidOperation = -38"
definition BufferNeedsReallocation :: Status where "BufferNeedsReallocation = 1"
definition ReleaseAllBuffers :: Status where "ReleaseAllBuffers = 2"

lemmas Status_defs = NoError_def StaleBufferSlot_def NoBufferAvailable_def PresentLater_def WouldBlock_def
  NoMemory_def Busy_def NoInit_def BadValue_def InvalidOperation_def BufferNeedsReallocation_def
  ReleaseAllBuffers_def

type_synonym PixelFormat = u32

definition NoFormat :: PixelFormat where "NoFormat = 0"
definition Rgba8888 :: PixelFormat where "Rgba8888 = 1"

datatype NativeWindowApi = NoConnectedApi | Egl | Cpu | Media | Camera | UnknownApi s32

record Fence =
  num_fences :: u32
  fences :: "(s32 \<times> u32) list"

definition empty_Fence :: Fence where
  "empty_Fence = \<lparr>num_fences = 0, fences = replicate 4 (0, 0)\<rparr>"

definition NoFence :: Fence where
  "NoFence = \<lparr>num_fences = 0, fences = replicate 4 (- 1, 0)\<rparr>"

record Rectangle =
  rect_left :: s32
  rect_top :: s32
  rect_right :: s32
  rect_bottom :: s32

text \<open>An extent is the absolute value of a signed difference, which must not overflow.\<close>

definition rect_extent :: "s32 \<Rightarrow> s32 \<Rightarrow> s32 run" where
  "rect_extent high low = (if \<bar>high - low\<bar> < 2 ^ 31 then Inr \<bar>high - low\<bar> else Inl SignedOverflow)"

definition Rectangle_IsEmpty :: "Rectangle \<Rightarrow> bool run" where
  "Rectangle_IsEmpty r =
     bind_run (rect_extent (rect_right r) (rect_left r)) (\<lambda>width.
       if width \<le> 0 then Inr True
       else bind_run (rect_extent (rect_bottom r) (rect_top r)) (\<lambda>height. Inr (height \<le> 0)))"

definition Rectangle_Intersect :: "Rectangle \<Rightarrow> Rectangle \<Rightarrow> (bool \<times> Rectangle) run" where
  "Rectangle_Intersect r with_r =
     (let result = \<lparr>rect_left = max (rect_left r) (rect_left with_r), rect_top = max (rect_top r) (rect_top with_r),
            rect_right = min (rect_right r) (rect_right with_r), rect_bottom = min (rect_bottom r) (rect_bottom with_r)\<rparr>
      in bind_run (Rectangle_IsEmpty result) (\<lambda>empty. Inr (\<not> empty, result)))"

text \<open>The fields of \<^verbatim>\<open>NvGraphicBuffer\<close> the queue reads, as its accessors return them.\<close>

record GraphicBuffer =
  gb_Width :: u32
  gb_Height :: u32
  gb_Format :: PixelFormat
  gb_Usage :: u32
  gb_Handle :: u32

definition null_NvGraphicBuffer :: GraphicBuffer where
  "null_NvGraphicBuffer = \<lparr>gb_Width = 0, gb_Height = 0, gb_Format = NoFormat, gb_Usage = 0, gb_Handle = 0\<rparr>"

definition new_GraphicBuffer :: "u32 \<Rightarrow> u32 \<Rightarrow> PixelFormat \<Rightarrow> u32 \<Rightarrow> GraphicBuffer" where
  "new_GraphicBuffer width height format usage =
     \<lparr>gb_Width = width, gb_Height = height, gb_Format = format, gb_Usage = usage, gb_Handle = 0\<rparr>"

type_synonym buffer_ptr = "nat option"

datatype BufferState = Free | Dequeued | Queued | Acquired

record BufferSlot =
  slot_graphic_buffer :: buffer_ptr
  buffer_state :: BufferState
  request_buffer_called :: bool
  slot_frame_number :: u64
  slot_fence :: Fence
  slot_acquire_called :: bool
  needs_cleanup_on_release :: bool
  attached_by_consumer :: bool
  is_preallocated :: bool

definition new_BufferSlot :: BufferSlot where
  "new_BufferSlot =
     \<lparr>slot_graphic_buffer = None, buffer_state = Free, request_buffer_called = False, slot_frame_number = 0,
      slot_fence = empty_Fence, slot_acquire_called = False, needs_cleanup_on_release = False,
      attached_by_consumer = False, is_preallocated = False\<rparr>"

record BufferItem =
  item_graphic_buffer :: buffer_ptr
  item_fence :: Fence
  item_crop :: Rectangle
  item_transform :: u32
  item_scaling_mode :: u32
  item_timestamp :: s64
  item_is_auto_timestamp :: bool
  item_frame_number :: u64
  item_slot :: s32
  is_droppable :: bool
  item_acquire_called :: bool
  transform_to_display_inverse :: bool
  item_swap_interval :: s32

definition INVALID_BUFFER_SLOT :: s32 where "INVALID_BUFFER_SLOT = - 1"
definition NUM_BUFFER_SLOTS :: s32 where "NUM_BUFFER_SLOTS = 64"

text \<open>The calls the queue makes on the listeners of the other side, without the lock.\<close>

datatype Callback =
    OnBuffersReleased nat
  | OnFrameAvailable nat BufferItem
  | OnFrameReplaced nat BufferItem
  | OnBufferReleased nat

record BufferQueueCore =
  is_abandoned :: bool
  consumer_controlled_by_app :: bool
  consumer_listener :: "nat option"
  consumer_usage_bit :: u32
  connected_api :: NativeWindowApi
  connected_producer_listener :: "nat option"
  slots :: "BufferSlot list"
  queue :: "BufferItem list"
  override_max_buffer_count :: s32
  dequeue_possible :: bool
  dequeue_buffer_cannot_block :: bool
  default_buffer_format :: PixelFormat
  default_width :: u32
  default_height :: u32
  default_max_buffer_count :: s32
  buffer_has_been_queued :: bool
  frame_counter :: u64
  transform_hint :: u32
  is_allocating :: bool
  graphic_buffers :: "GraphicBuffer list"
  callbacks :: "Callback list"

text \<open>Two constant members, both always the default.\<close>

definition use_async_buffer :: bool where "use_async_buffer = False"
definition max_acquired_buffer_count :: s32 where "max_acquired_buffer_count = 0"

section \<open>Operations under the lock\<close>

definition upd_slot :: "s32 \<Rightarrow> (BufferSlot \<Rightarrow> BufferSlot) \<Rightarrow> 'a BufferQueueCore_scheme \<Rightarrow> 'a BufferQueueCore_scheme run" where
  "upd_slot i f c =
     bind_run (aget (slots c) i) (\<lambda>sl.
     bind_run (aset (slots c) i (f sl)) (\<lambda>sls. Inr (c\<lparr>slots := sls\<rparr>)))"

definition SignalDequeueCondition :: "'a BufferQueueCore_scheme \<Rightarrow> 'a BufferQueueCore_scheme" where
  "SignalDequeueCondition c = c\<lparr>dequeue_possible := True\<rparr>"

text \<open>
  The wait ends when the flag is set, and clears it; \<open>None\<close> is a waiter that goes on sleeping.
\<close>

definition WaitForDequeueCondition :: "'a BufferQueueCore_scheme \<Rightarrow> 'a BufferQueueCore_scheme option" where
  "WaitForDequeueCondition c = (if dequeue_possible c then Some (c\<lparr>dequeue_possible := False\<rparr>) else None)"

definition GetMinUndequeuedBufferCountLocked :: "bool \<Rightarrow> 'a BufferQueueCore_scheme \<Rightarrow> s32" where
  "GetMinUndequeuedBufferCountLocked async c =
     (if \<not> use_async_buffer then 0
      else if dequeue_buffer_cannot_block c \<or> async then max_acquired_buffer_count + 1
      else max_acquired_buffer_count)"

definition GetMinMaxBufferCountLocked :: "bool \<Rightarrow> 'a BufferQueueCore_scheme \<Rightarrow> s32" where
  "GetMinMaxBufferCountLocked async c = GetMinUndequeuedBufferCountLocked async c"

definition GetMaxBufferCountLocked :: "bool \<Rightarrow> 'a BufferQueueCore_scheme \<Rightarrow> s32 run" where
  "GetMaxBufferCountLocked async c =
     (let min_buffer_count = GetMinMaxBufferCountLocked async c;
          max_buffer_count = max (default_max_buffer_count c) min_buffer_count
      in if override_max_buffer_count c \<noteq> 0
         then ensure (override_max_buffer_count c \<ge> min_buffer_count) (Inr (override_max_buffer_count c))
         else run_ops (\<lambda>slot m. bind_run (aget (slots c) slot) (\<lambda>sl.
                Inr (if buffer_state sl = Queued \<or> buffer_state sl = Dequeued then slot + 1 else m)))
              [max_buffer_count..NUM_BUFFER_SLOTS - 1] max_buffer_count)"

definition GetPreallocatedBufferCountLocked :: "'a BufferQueueCore_scheme \<Rightarrow> s32" where
  "GetPreallocatedBufferCountLocked c = int (length (filter is_preallocated (slots c)))"

definition free_slot :: "BufferSlot \<Rightarrow> BufferSlot" where
  "free_slot sl =
     (let sl = sl\<lparr>slot_graphic_buffer := None\<rparr>;
          sl = (if buffer_state sl = Acquired then sl\<lparr>needs_cleanup_on_release := True\<rparr> else sl)
      in sl\<lparr>buffer_state := Free, slot_frame_number := 0xFFFFFFFF, slot_acquire_called := False,
            slot_fence := NoFence\<rparr>)"

definition core_FreeBufferLocked :: "s32 \<Rightarrow> 'a BufferQueueCore_scheme \<Rightarrow> 'a BufferQueueCore_scheme run" where
  "core_FreeBufferLocked slot c = upd_slot slot free_slot c"

definition FreeAllBuffersLocked :: "'a BufferQueueCore_scheme \<Rightarrow> 'a BufferQueueCore_scheme run" where
  "FreeAllBuffersLocked c =
     run_ops core_FreeBufferLocked [0..NUM_BUFFER_SLOTS - 1] (c\<lparr>buffer_has_been_queued := False\<rparr>)"

definition core_StillTracking :: "BufferItem \<Rightarrow> BufferSlot list \<Rightarrow> bool run" where
  "core_StillTracking item sls =
     bind_run (aget sls (item_slot item)) (\<lambda>slot.
       Inr (slot_graphic_buffer slot \<noteq> None \<and> item_graphic_buffer item = slot_graphic_buffer slot))"

text \<open>Nothing in the sources sets \<^verbatim>\<open>is_allocating\<close>; were it set, the wait would not end.\<close>

definition WaitWhileAllocatingLocked :: "'a BufferQueueCore_scheme \<Rightarrow> unit run" where
  "WaitWhileAllocatingLocked c = (if is_allocating c then Inl OutOfFuel else Inr ())"

section \<open>The invariant\<close>

text \<open>
  A queued frame is tracked while its slot still holds its buffer.  Every queued slot is tracked by exactly one frame of
  the queue and no other slot by any; at most one slot is with the consumer; a slot the producer owns has a buffer.
  The slots in \<open>w\<close> are those for which the producer is allocating a buffer without the lock.
\<close>

definition tracks :: "BufferSlot \<Rightarrow> BufferItem \<Rightarrow> bool" where
  "tracks sl item \<longleftrightarrow> slot_graphic_buffer sl \<noteq> None \<and> item_graphic_buffer item = slot_graphic_buffer sl"

definition trackers :: "BufferSlot \<Rightarrow> nat \<Rightarrow> BufferItem list \<Rightarrow> nat" where
  "trackers sl i q = length (filter (\<lambda>item. item_slot item = int i \<and> tracks sl item) q)"

definition slot_ok :: "bool \<Rightarrow> nat \<Rightarrow> s32 set \<Rightarrow> BufferItem list \<Rightarrow> nat \<Rightarrow> BufferSlot \<Rightarrow> bool" where
  "slot_ok abandoned n w q i sl \<longleftrightarrow>
     trackers sl i q = (if buffer_state sl = Queued then 1 else 0) \<and>
     (\<forall>b. slot_graphic_buffer sl = Some b \<longrightarrow> b < n) \<and>
     (int i \<in> w \<longrightarrow> buffer_state sl \<noteq> Queued) \<and>
     (\<not> abandoned \<and> int i \<notin> w \<and> buffer_state sl = Dequeued \<longrightarrow> slot_graphic_buffer sl \<noteq> None)"

definition item_ok :: "nat \<Rightarrow> BufferItem \<Rightarrow> bool" where
  "item_ok n item \<longleftrightarrow>
     0 \<le> item_slot item \<and> item_slot item < NUM_BUFFER_SLOTS \<and> (\<forall>b. item_graphic_buffer item = Some b \<longrightarrow> b < n)"

definition acquired :: "BufferSlot \<Rightarrow> bool" where
  "acquired sl \<longleftrightarrow> buffer_state sl = Acquired"

definition bq_ok :: "s32 set \<Rightarrow> 'a BufferQueueCore_scheme \<Rightarrow> bool" where
  "bq_ok w c \<longleftrightarrow>
     length (slots c) = 64 \<and>
     (\<forall>item \<in> set (queue c). item_ok (length (graphic_buffers c)) item) \<and>
     (\<forall>i < 64. slot_ok (is_abandoned c) (length (graphic_buffers c)) w (queue c) i (slots c ! i)) \<and>
     length (filter acquired (slots c)) \<le> 1 \<and>
     \<not> is_allocating c \<and> 0 \<le> override_max_buffer_count c \<and> override_max_buffer_count c \<le> NUM_BUFFER_SLOTS \<and>
     default_max_buffer_count c = 2"

lemma Rectangle_Intersect_ok: "run_ok (\<lambda>_. True) (Rectangle_Intersect a b)"
  by (simp add: Rectangle_Intersect_def Rectangle_IsEmpty_def rect_extent_def Let_def)

lemma upd_slot_eq:
  "length (slots c) = 64 \<Longrightarrow> 0 \<le> i \<Longrightarrow> i < 64 \<Longrightarrow>
   upd_slot i f c = Inr (c\<lparr>slots := (slots c)[nat i := f (slots c ! nat i)]\<rparr>)"
  by (simp add: upd_slot_def aget_def aset_def)

lemma core_StillTracking_eq:
  "length sls = 64 \<Longrightarrow> 0 \<le> item_slot item \<Longrightarrow> item_slot item < 64 \<Longrightarrow>
   core_StillTracking item sls = Inr (tracks (sls ! nat (item_slot item)) item)"
  by (simp add: core_StillTracking_def aget_def tracks_def)

lemma acquired_update:
  "i < length xs \<Longrightarrow> length (filter acquired xs) \<le> 1 \<Longrightarrow> (acquired v \<Longrightarrow> acquired (xs ! i)) \<Longrightarrow>
   length (filter acquired (xs[i := v])) \<le> 1"
  using length_filter_update [of i xs acquired v] by (auto split: if_splits)

text \<open>Changing one slot.\<close>

lemma bq_ok_slot:
  assumes ok: "bq_ok w c" and i: "0 \<le> i" "i < 64"
    and sl: "slot_ok (is_abandoned c) (length (graphic_buffers c)) w (queue c) (nat i) v"
    and acq: "acquired v \<Longrightarrow> acquired (slots c ! nat i)"
  shows "bq_ok w (c\<lparr>slots := (slots c)[nat i := v]\<rparr>)"
proof -
  have "length (filter acquired ((slots c)[nat i := v])) \<le> 1"
    using ok i acq by (intro acquired_update) (auto simp: bq_ok_def)
  then show ?thesis
    using ok i sl by (auto simp: bq_ok_def nth_list_update)
qed

lemma bq_okD:
  assumes "bq_ok w c"
  shows "length (slots c) = 64" "\<not> is_allocating c" "default_max_buffer_count c = 2"
    "0 \<le> override_max_buffer_count c" "override_max_buffer_count c \<le> 64"
    "i < 64 \<Longrightarrow> slot_ok (is_abandoned c) (length (graphic_buffers c)) w (queue c) i (slots c ! i)"
    "item \<in> set (queue c) \<Longrightarrow> item_ok (length (graphic_buffers c)) item"
  using assms by (simp_all add: bq_ok_def NUM_BUFFER_SLOTS_def)

lemma bq_ok_frame:
  "bq_ok w c \<Longrightarrow> slots c' = slots c \<Longrightarrow> queue c' = queue c \<Longrightarrow> graphic_buffers c' = graphic_buffers c \<Longrightarrow>
   is_abandoned c' = is_abandoned c \<Longrightarrow> is_allocating c' = is_allocating c \<Longrightarrow>
   override_max_buffer_count c' = override_max_buffer_count c \<Longrightarrow>
   default_max_buffer_count c' = default_max_buffer_count c \<Longrightarrow> bq_ok w c'"
  by (simp add: bq_ok_def)

lemma bq_ok_SignalDequeueCondition [simp]: "bq_ok w (SignalDequeueCondition c) \<longleftrightarrow> bq_ok w c"
  by (simp add: bq_ok_def SignalDequeueCondition_def)

text \<open>A slot whose buffer is gone, or is one no frame of the queue has, is tracked by none.\<close>

lemma trackers_None: "slot_graphic_buffer sl = None \<Longrightarrow> trackers sl i q = 0"
  by (simp add: trackers_def tracks_def)

lemma trackers_fresh:
  "slot_graphic_buffer sl = Some n \<Longrightarrow> \<forall>item \<in> set q. item_ok n item \<Longrightarrow> trackers sl i q = 0"
  by (fastforce simp: trackers_def tracks_def item_ok_def filter_empty_conv)

lemma trackers_cong: "slot_graphic_buffer sl' = slot_graphic_buffer sl \<Longrightarrow> trackers sl' i q = trackers sl i q"
  by (simp add: trackers_def tracks_def)

lemma slot_ok_same:
  "slot_ok ab n w q i sl \<Longrightarrow> slot_graphic_buffer sl' = slot_graphic_buffer sl \<Longrightarrow> buffer_state sl' = buffer_state sl \<Longrightarrow>
   slot_ok ab n w q i sl'"
  using trackers_cong [of sl' sl i q] by (simp add: slot_ok_def)

lemma slot_ok_move:
  "slot_ok ab n w q i sl \<Longrightarrow> slot_graphic_buffer sl' = slot_graphic_buffer sl \<Longrightarrow> buffer_state sl \<noteq> Queued \<Longrightarrow>
   buffer_state sl' \<noteq> Queued \<Longrightarrow> (buffer_state sl' = Dequeued \<Longrightarrow> buffer_state sl = Dequeued) \<Longrightarrow>
   slot_ok ab n w q i sl'"
  using trackers_cong [of sl' sl i q] by (auto simp: slot_ok_def)

lemma trackers_Cons:
  "trackers sl i (item # q) = trackers sl i q + (if item_slot item = int i \<and> tracks sl item then 1 else 0)"
  by (simp add: trackers_def)

lemma trackers_snoc:
  "trackers sl i (q @ [item]) = trackers sl i q + (if item_slot item = int i \<and> tracks sl item then 1 else 0)"
  by (simp add: trackers_def)

lemma free_slot_simps [simp]:
  "slot_graphic_buffer (free_slot sl) = None" "buffer_state (free_slot sl) = Free"
  "is_preallocated (free_slot sl) = is_preallocated sl" "slot_frame_number (free_slot sl) = 0xFFFFFFFF"
  by (simp_all add: free_slot_def Let_def)

lemma slot_ok_free_slot [simp]: "slot_ok ab n w q i (free_slot sl)"
  by (simp add: slot_ok_def trackers_None)

lemma FreeAll_loop:
  "a \<le> 64 \<Longrightarrow> length (slots c) = 64 \<Longrightarrow>
   run_ops core_FreeBufferLocked [int a..63] c = Inr (c\<lparr>slots := take a (slots c) @ map free_slot (drop a (slots c))\<rparr>)"
proof (induction "64 - a" arbitrary: a c)
  case 0
  then show ?case by simp
next
  case (Suc k)
  then have a: "a < 64" by simp
  let ?c = "c\<lparr>slots := (slots c)[a := free_slot (slots c ! a)]\<rparr>"
  have st: "core_FreeBufferLocked (int a) c = Inr ?c"
    using Suc.prems a by (simp add: core_FreeBufferLocked_def upd_slot_eq)
  have "run_ops core_FreeBufferLocked [int (Suc a)..63] ?c =
        Inr (?c\<lparr>slots := take (Suc a) (slots ?c) @ map free_slot (drop (Suc a) (slots ?c))\<rparr>)"
    using Suc.hyps(2) Suc.prems a by (intro Suc.hyps(1)) auto
  moreover have "take (Suc a) ((slots c)[a := free_slot (slots c ! a)]) @
      map free_slot (drop (Suc a) ((slots c)[a := free_slot (slots c ! a)])) =
      take a (slots c) @ map free_slot (drop a (slots c))"
    using Suc.prems a by (simp add: take_Suc_conv_app_nth Cons_nth_drop_Suc [symmetric])
  moreover have "[int a..63] = int a # [int (Suc a)..63]"
    using a by (subst upto.simps) (simp add: add.commute)
  ultimately show ?case by (simp add: st)
qed

lemma FreeAllBuffersLocked_eq:
  assumes "length (slots c) = 64"
  shows "FreeAllBuffersLocked c = Inr (c\<lparr>buffer_has_been_queued := False, slots := map free_slot (slots c)\<rparr>)"
  using FreeAll_loop [of 0 "c\<lparr>buffer_has_been_queued := False\<rparr>"] assms
  by (simp add: FreeAllBuffersLocked_def NUM_BUFFER_SLOTS_def)

lemma bq_ok_FreeAll:
  "bq_ok w c \<Longrightarrow> bq_ok w (c\<lparr>slots := map free_slot (slots c)\<rparr>)"
  by (auto simp: bq_ok_def filter_map o_def acquired_def)

text \<open>The number of buffers in use is at most the number of slots.\<close>

lemma GetMaxBufferCountLocked_ok:
  assumes ok: "bq_ok w c"
  shows "\<exists>m. GetMaxBufferCountLocked async c = Inr m \<and> 0 < m \<and> m \<le> 64"
proof (cases "override_max_buffer_count c = 0")
  case False
  with bq_okD(4,5) [OF ok] show ?thesis
    by (simp add: GetMaxBufferCountLocked_def Let_def GetMinMaxBufferCountLocked_def
        GetMinUndequeuedBufferCountLocked_def use_async_buffer_def)
next
  case True
  let ?step = "\<lambda>slot m. bind_run (aget (slots c) slot) (\<lambda>sl.
    Inr (if buffer_state sl = Queued \<or> buffer_state sl = Dequeued then slot + 1 else m))"
  have "0 < m \<and> m \<le> 64 \<Longrightarrow> set ss \<subseteq> {2..63} \<Longrightarrow> \<exists>m'. run_ops ?step ss m = Inr m' \<and> 0 < m' \<and> m' \<le> 64" for m ss
  proof (induction ss arbitrary: m)
    case (Cons s ss)
    then have s: "2 \<le> s" "s \<le> 63" by auto
    then have g: "aget (slots c) s = Inr (slots c ! nat s)" using bq_okD(1) [OF ok] by (simp add: aget_def)
    show ?case using Cons s by (auto simp: g)
  qed simp
  from this [of 2 "[2..63]"] True show ?thesis
    by (simp add: GetMaxBufferCountLocked_def Let_def GetMinMaxBufferCountLocked_def NUM_BUFFER_SLOTS_def
        GetMinUndequeuedBufferCountLocked_def use_async_buffer_def bq_okD(3) [OF ok])
qed

text \<open>Removing the front frame: an untracked one leaves the slots as they are, a tracked one takes its slot along.\<close>

lemma bq_ok_pop_untracked:
  assumes ok: "bq_ok w c" and q: "queue c = front # rest" and nt: "\<not> tracks (slots c ! nat (item_slot front)) front"
  shows "bq_ok w (c\<lparr>queue := rest\<rparr>)"
proof -
  have "trackers (slots c ! i) i rest = trackers (slots c ! i) i (queue c)" for i
    using nt by (auto simp: q trackers_Cons)
  then show ?thesis using ok by (auto simp: bq_ok_def slot_ok_def q)
qed

lemma bq_ok_pop_tracked:
  assumes ok: "bq_ok w c" and q: "queue c = front # rest" and t: "tracks (slots c ! nat (item_slot front)) front"
    and v: "slot_graphic_buffer v = slot_graphic_buffer (slots c ! nat (item_slot front))"
      "buffer_state v \<noteq> Queued" "buffer_state v \<noteq> Dequeued"
    and acq: "acquired v \<Longrightarrow> filter acquired (slots c) = []"
  shows "bq_ok w (c\<lparr>slots := (slots c)[nat (item_slot front) := v], queue := rest\<rparr>)"
proof -
  let ?i = "nat (item_slot front)"
  have len: "length (slots c) = 64" and fr: "0 \<le> item_slot front" "item_slot front < 64"
    using bq_okD(1) [OF ok] bq_okD(7) [OF ok, of front] by (simp_all add: q item_ok_def NUM_BUFFER_SLOTS_def)
  then have i: "?i < 64" "int ?i = item_slot front" by simp_all
  have so: "slot_ok (is_abandoned c) (length (graphic_buffers c)) w (queue c) ?i (slots c ! ?i)"
    by (rule bq_okD(6) [OF ok i(1)])
  have "trackers (slots c ! ?i) ?i rest = 0"
    using so t fr by (auto simp: slot_ok_def q trackers_Cons split: if_splits)
  then have "trackers v ?i rest = 0" by (simp add: trackers_cong [OF v(1)])
  then have at_i: "slot_ok (is_abandoned c) (length (graphic_buffers c)) w rest ?i v"
    using so v by (simp add: slot_ok_def)
  have other: "slot_ok (is_abandoned c) (length (graphic_buffers c)) w rest j (slots c ! j)" if "j < 64" "j \<noteq> ?i" for j
  proof -
    have "item_slot front \<noteq> int j" using that fr by auto
    then show ?thesis using bq_okD(6) [OF ok that(1)] by (simp add: slot_ok_def q trackers_Cons)
  qed
  have "length (filter acquired ((slots c)[?i := v])) \<le> 1"
    using length_filter_update [of ?i "slots c" acquired v] ok acq i(1) len
    by (cases "acquired v") (auto simp: bq_ok_def)
  moreover have "slot_ok (is_abandoned c) (length (graphic_buffers c)) w rest j ((slots c)[?i := v] ! j)" if "j < 64" for j
    using at_i other [OF that] len that by (cases "j = ?i") simp_all
  ultimately show ?thesis using ok by (simp add: bq_ok_def q)
qed

end
