(* ===== verification/BufferQueueConsumer.thy ===== *)
theory BufferQueueConsumer
  imports BufferQueueCore
begin

text \<open>
  The consumer's side of the buffer queue (\<^verbatim>\<open>core/hle/service/nvnflinger/buffer_queue_consumer.cpp\<close>).  Each operation returns its
  status, what it stores through its out-parameter and the new state; a null out-parameter is an argument that is false.
\<close>

section \<open>Operations\<close>

definition MAX_REASONABLE_NSEC :: s64 where "MAX_REASONABLE_NSEC = 1000000000"

text \<open>The loop of \<^verbatim>\<open>AcquireBuffer\<close> that drops the front frame while the next one is timely.\<close>

fun drop_timely :: "s64 \<Rightarrow> BufferSlot list \<Rightarrow> BufferItem list \<Rightarrow> (BufferSlot list \<times> BufferItem list) run" where
  "drop_timely expected sls (front # next # rest) =
     (if item_is_auto_timestamp front then Inr (sls, front # next # rest)
      else bind_run (s64_add expected (- MAX_REASONABLE_NSEC)) (\<lambda>earliest.
        let desired_present = item_timestamp next
        in if desired_present < earliest \<or> desired_present > expected then Inr (sls, front # next # rest)
           else bind_run (core_StillTracking front sls) (\<lambda>tracking.
             bind_run (if tracking
                       then bind_run (aget sls (item_slot front)) (\<lambda>sl. aset sls (item_slot front) (sl\<lparr>buffer_state := Free\<rparr>))
                       else Inr sls)
               (\<lambda>sls. drop_timely expected sls (next # rest)))))"
| "drop_timely expected sls q = Inr (sls, q)"

text \<open>From the line \<^verbatim>\<open>const auto slot = front->slot\<close> on.\<close>

definition acquire_front :: "'a BufferQueueCore_scheme \<Rightarrow> (Status \<times> BufferItem option \<times> 'a BufferQueueCore_scheme) run" where
  "acquire_front c = (case queue c of
     [] \<Rightarrow> Inl OutOfBounds
   | front # rest \<Rightarrow>
       bind_run (core_StillTracking front (slots c)) (\<lambda>tracking.
       bind_run (if tracking
                 then upd_slot (item_slot front) (\<lambda>sl. sl\<lparr>slot_acquire_called := True, needs_cleanup_on_release := False,
                        buffer_state := Acquired\<rparr>) c
                 else Inr c) (\<lambda>c.
         Inr (NoError,
              Some (if item_acquire_called front then front\<lparr>item_graphic_buffer := None\<rparr> else front),
              SignalDequeueCondition (c\<lparr>queue := rest\<rparr>)))))"

definition num_acquired_buffers :: "BufferSlot list \<Rightarrow> s32" where
  "num_acquired_buffers sls = int (length (filter (\<lambda>sl. buffer_state sl = Acquired) sls))"

definition AcquireBuffer ::
  "s64 \<Rightarrow> 'a BufferQueueCore_scheme \<Rightarrow> (Status \<times> BufferItem option \<times> 'a BufferQueueCore_scheme) run" where
  "AcquireBuffer expected_present c =
     (if num_acquired_buffers (slots c) \<ge> max_acquired_buffer_count + 1 then Inr (InvalidOperation, None, c)
      else if queue c = [] then Inr (NoBufferAvailable, None, c)
      else if expected_present \<noteq> 0 then
        bind_run (drop_timely expected_present (slots c) (queue c)) (\<lambda>(sls, q).
          let c = c\<lparr>slots := sls, queue := q\<rparr>;
              desired_present = item_timestamp (hd q)
          in if desired_present > expected_present
             then bind_run (s64_add expected_present MAX_REASONABLE_NSEC) (\<lambda>latest.
                    if desired_present < latest then Inr (PresentLater, None, c) else acquire_front c)
             else acquire_front c)
      else acquire_front c)"

definition ReleaseBuffer :: "s32 \<Rightarrow> u64 \<Rightarrow> 'a BufferQueueCore_scheme \<Rightarrow> (Status \<times> 'a BufferQueueCore_scheme) run" where
  "ReleaseBuffer slot frame_number c =
     (if slot < 0 \<or> slot \<ge> NUM_BUFFER_SLOTS then Inr (BadValue, c)
      else bind_run (aget (slots c) slot) (\<lambda>sl.
        if frame_number \<noteq> slot_frame_number sl then Inr (StaleBufferSlot, c)
        else if list_ex (\<lambda>item. item_slot item = slot) (queue c) then Inr (BadValue, c)
        else if buffer_state sl = Acquired then
          bind_run (upd_slot slot (\<lambda>sl. sl\<lparr>buffer_state := Free\<rparr>) c) (\<lambda>c.
            let c = SignalDequeueCondition c
            in Inr (NoError, case connected_producer_listener c of
                 None \<Rightarrow> c | Some listener \<Rightarrow> c\<lparr>callbacks := callbacks c @ [OnBufferReleased listener]\<rparr>))
        else if needs_cleanup_on_release sl then
          bind_run (upd_slot slot (\<lambda>sl. sl\<lparr>needs_cleanup_on_release := False\<rparr>) c) (\<lambda>c. Inr (StaleBufferSlot, c))
        else Inr (BadValue, c)))"

definition consumer_Connect ::
  "nat option \<Rightarrow> bool \<Rightarrow> 'a BufferQueueCore_scheme \<Rightarrow> Status \<times> 'a BufferQueueCore_scheme" where
  "consumer_Connect listener controlled_by_app c =
     (if listener = None then (BadValue, c)
      else if is_abandoned c then (NoInit, c)
      else (NoError, c\<lparr>consumer_listener := listener, consumer_controlled_by_app := controlled_by_app\<rparr>))"

definition consumer_Disconnect :: "'a BufferQueueCore_scheme \<Rightarrow> (Status \<times> 'a BufferQueueCore_scheme) run" where
  "consumer_Disconnect c =
     (if consumer_listener c = None then Inr (BadValue, c)
      else bind_run (FreeAllBuffersLocked (c\<lparr>is_abandoned := True, consumer_listener := None, queue := []\<rparr>))
        (\<lambda>c. Inr (NoError, SignalDequeueCondition c)))"

definition GetReleasedBuffers :: "bool \<Rightarrow> 'a BufferQueueCore_scheme \<Rightarrow> (Status \<times> u64 option) run" where
  "GetReleasedBuffers out_slot_mask c =
     (if \<not> out_slot_mask then Inr (BadValue, None)
      else if is_abandoned c then Inr (NoInit, None)
      else bind_run (run_ops (\<lambda>s m. bind_run (aget (slots c) s) (\<lambda>sl.
                       Inr (if \<not> slot_acquire_called sl then m OR push_bit (nat s) 1 else m)))
                     [0..NUM_BUFFER_SLOTS - 1] 0) (\<lambda>m.
           bind_run (run_ops (\<lambda>item m.
                       if item_acquire_called item
                       then if 0 \<le> item_slot item \<and> item_slot item < 64
                            then Inr (m AND NOT (push_bit (nat (item_slot item)) 1)) else Inl ShiftOutOfRange
                       else Inr m) (queue c) m) (\<lambda>m.
             Inr (NoError, Some m))))"

section \<open>What a consumer may do\<close>

datatype ConsumerOp =
    DoAcquireBuffer s64
  | DoReleaseBuffer s32 u64
  | DoConsumerConnect "nat option" bool
  | DoConsumerDisconnect
  | DoGetReleasedBuffers bool

definition consumer_step :: "ConsumerOp \<Rightarrow> 'a BufferQueueCore_scheme \<Rightarrow> 'a BufferQueueCore_scheme run" where
  "consumer_step op c = (case op of
     DoAcquireBuffer expected_present \<Rightarrow> bind_run (AcquireBuffer expected_present c) (\<lambda>(_, _, c). Inr c)
   | DoReleaseBuffer slot frame_number \<Rightarrow> bind_run (ReleaseBuffer slot frame_number c) (\<lambda>(_, c). Inr c)
   | DoConsumerConnect listener controlled_by_app \<Rightarrow> Inr (snd (consumer_Connect listener controlled_by_app c))
   | DoConsumerDisconnect \<Rightarrow> bind_run (consumer_Disconnect c) (\<lambda>(_, c). Inr c)
   | DoGetReleasedBuffers out_slot_mask \<Rightarrow> bind_run (GetReleasedBuffers out_slot_mask c) (\<lambda>_. Inr c))"

section \<open>The invariant under consumer operations\<close>

lemma drop_timely_ok:
  "bq_ok w (c\<lparr>slots := sls, queue := q\<rparr>) \<Longrightarrow> q \<noteq> [] \<Longrightarrow>
   run_ok (\<lambda>(sls', q'). bq_ok w (c\<lparr>slots := sls', queue := q'\<rparr>) \<and> q' \<noteq> [] \<and> set q' \<subseteq> set q \<and>
     (filter acquired sls = [] \<longrightarrow> filter acquired sls' = [])) (drop_timely e sls q)"
proof (induction e sls q rule: drop_timely.induct)
  case (1 e sls front nxt rest)
  let ?c = "c\<lparr>slots := sls, queue := front # nxt # rest\<rparr>"
  let ?sl = "(sls ! nat (item_slot front))\<lparr>buffer_state := Free\<rparr>"
  have len: "length sls = 64" and fr: "0 \<le> item_slot front" "item_slot front < 64"
    using bq_okD(1) [OF 1(2)] bq_okD(7) [OF 1(2), of front] by (simp_all add: item_ok_def NUM_BUFFER_SLOTS_def)
  have tr: "core_StillTracking front sls = Inr (tracks (sls ! nat (item_slot front)) front)"
    by (rule core_StillTracking_eq [OF len fr])
  have g: "aget sls (item_slot front) = Inr (sls ! nat (item_slot front))"
    "aset sls (item_slot front) ?sl = Inr (sls[nat (item_slot front) := ?sl])"
    using len fr by (simp_all add: aget_def aset_def)
  have acq: "filter acquired (sls[nat (item_slot front) := ?sl]) = []" if "filter acquired sls = []"
    using that length_filter_update [of "nat (item_slot front)" sls acquired ?sl] len fr
    by (simp add: acquired_def split: if_splits)
  show ?case
  proof (cases "item_is_auto_timestamp front")
    case True
    then show ?thesis using 1(2) by simp
  next
    case auto_ts: False
    show ?thesis
    proof (cases "s64_range (e + - MAX_REASONABLE_NSEC) \<and> \<not> item_timestamp nxt < e + - MAX_REASONABLE_NSEC \<and> \<not> item_timestamp nxt > e")
      case False
      then show ?thesis using auto_ts 1(2) by (auto simp: s64_add_def Let_def)
    next
      case timely: True
      have step: "drop_timely e sls (front # nxt # rest) =
          drop_timely e (if tracks (sls ! nat (item_slot front)) front then sls[nat (item_slot front) := ?sl] else sls) (nxt # rest)"
        using auto_ts timely by (simp add: s64_add_def Let_def tr g)
      have ok: "bq_ok w (c\<lparr>slots := if tracks (sls ! nat (item_slot front)) front then sls[nat (item_slot front) := ?sl] else sls,
          queue := nxt # rest\<rparr>)"
        using bq_ok_pop_tracked [OF 1(2), of front "nxt # rest" ?sl] bq_ok_pop_untracked [OF 1(2), of front "nxt # rest"]
        by (simp add: acquired_def)
      have "run_ok (\<lambda>(sls', q'). bq_ok w (c\<lparr>slots := sls', queue := q'\<rparr>) \<and> q' \<noteq> [] \<and> set q' \<subseteq> set (nxt # rest) \<and>
         (filter acquired (if tracks (sls ! nat (item_slot front)) front then sls[nat (item_slot front) := ?sl] else sls) = []
           \<longrightarrow> filter acquired sls' = []))
         (drop_timely e (if tracks (sls ! nat (item_slot front)) front then sls[nat (item_slot front) := ?sl] else sls) (nxt # rest))"
        using ok auto_ts timely by (intro 1(1) [where x = "e + - MAX_REASONABLE_NSEC"]) (auto simp: s64_add_def tr g)
      then show ?thesis unfolding step by (rule run_ok_mono) (use acq in \<open>auto split: if_splits\<close>)
    qed
  qed
qed simp_all

text \<open>What no consumer operation touches, and that it only takes frames from the queue.\<close>

definition consumer_frame :: "'a BufferQueueCore_scheme \<Rightarrow> 'a BufferQueueCore_scheme \<Rightarrow> bool" where
  "consumer_frame c c' \<longleftrightarrow>
     BufferQueueCore.more c' = BufferQueueCore.more c \<and> frame_counter c' = frame_counter c \<and>
     graphic_buffers c' = graphic_buffers c \<and> override_max_buffer_count c' = override_max_buffer_count c \<and>
     dequeue_buffer_cannot_block c' = dequeue_buffer_cannot_block c \<and>
     (is_abandoned c \<longrightarrow> is_abandoned c') \<and> (\<exists>gone. queue c = gone @ queue c')"

lemma consumer_frame_refl [simp]: "consumer_frame c c"
  by (simp add: consumer_frame_def)

lemma consumer_frame_trans: "consumer_frame a b \<Longrightarrow> consumer_frame b c \<Longrightarrow> consumer_frame a c"
  by (auto simp: consumer_frame_def)

lemma acquire_front_ok:
  assumes ok: "bq_ok w c" and na: "filter acquired (slots c) = []" and ne: "queue c \<noteq> []"
  shows "\<exists>item c'. acquire_front c = Inr (NoError, Some item, c') \<and> bq_ok w c' \<and> consumer_frame c c' \<and>
    queue c' = tl (queue c) \<and> item_frame_number item = item_frame_number (hd (queue c))"
proof -
  obtain front rest where q: "queue c = front # rest" using ne by (cases "queue c") auto
  have fr: "0 \<le> item_slot front" "item_slot front < 64"
    using bq_okD(7) [OF ok, of front] by (simp_all add: q item_ok_def NUM_BUFFER_SLOTS_def)
  have tr: "core_StillTracking front (slots c) = Inr (tracks (slots c ! nat (item_slot front)) front)"
    by (rule core_StillTracking_eq [OF bq_okD(1) [OF ok] fr])
  let ?v = "(slots c ! nat (item_slot front))\<lparr>slot_acquire_called := True, needs_cleanup_on_release := False, buffer_state := Acquired\<rparr>"
  show ?thesis
  proof (cases "tracks (slots c ! nat (item_slot front)) front")
    case True
    have "bq_ok w (c\<lparr>slots := (slots c)[nat (item_slot front) := ?v], queue := rest\<rparr>)"
      by (rule bq_ok_pop_tracked [OF ok q True]) (simp_all add: na)
    then show ?thesis
      by (simp add: acquire_front_def q tr True upd_slot_eq [OF bq_okD(1) [OF ok] fr])
        (simp add: consumer_frame_def SignalDequeueCondition_def q)
  next
    case False
    show ?thesis
      using bq_ok_pop_untracked [OF ok q False]
      by (simp add: acquire_front_def q tr False) (simp add: consumer_frame_def SignalDequeueCondition_def q)
  qed
qed

text \<open>The frames the loop drops: each is followed by a frame that is due.\<close>

definition timely :: "s64 \<Rightarrow> BufferItem \<Rightarrow> bool" where
  "timely expected item \<longleftrightarrow> expected - MAX_REASONABLE_NSEC \<le> item_timestamp item \<and> item_timestamp item \<le> expected"

definition overdue :: "s64 \<Rightarrow> BufferItem list \<Rightarrow> BufferItem list \<Rightarrow> bool" where
  "overdue expected gone q \<longleftrightarrow>
     list_all (\<lambda>item. \<not> item_is_auto_timestamp item) gone \<and> list_all (timely expected) (tl (gone @ take 1 q))"

lemma drop_timely_overdue: "drop_timely e sls q = Inr (sls', q') \<Longrightarrow> \<exists>gone. q = gone @ q' \<and> overdue e gone q'"
proof (induction q arbitrary: sls)
  case Nil
  then show ?case by (simp add: overdue_def)
next
  case (Cons front q)
  have none: "\<exists>gone. q0 = gone @ q0 \<and> overdue e gone q0" for q0
    by (intro exI [of _ "[]"]) (cases q0; simp add: overdue_def)
  show ?case
  proof (cases q)
    case nxt: (Cons nxt rest)
    with Cons.prems have "q' = front # q \<or> (\<exists>sls1. \<not> item_is_auto_timestamp front \<and> timely e nxt \<and> drop_timely e sls1 q = Inr (sls', q'))"
      by (auto simp: bind_run_eq_Inr Let_def timely_def s64_add_def split: if_splits)
    then show ?thesis
    proof
      assume "\<exists>sls1. \<not> item_is_auto_timestamp front \<and> timely e nxt \<and> drop_timely e sls1 q = Inr (sls', q')"
      with Cons.IH obtain gone where g: "\<not> item_is_auto_timestamp front" "timely e nxt" "q = gone @ q'" "overdue e gone q'" by blast
      have "list_all (timely e) (gone @ take 1 q')" using g nxt by (cases gone; cases q') (auto simp: overdue_def)
      then have "overdue e (front # gone) q'" using g by (simp add: overdue_def)
      with g(3) show ?thesis by (intro exI [of _ "front # gone"]) simp
    qed (use none in blast)
  qed (use Cons.prems none [of "[front]"] in simp)
qed

lemma drop_timely_suffix: "drop_timely e sls q = Inr (sls', q') \<Longrightarrow> \<exists>gone. q = gone @ q'"
  using drop_timely_overdue by blast

lemma AcquireBuffer_ok:
  assumes ok: "bq_ok w c"
  shows "run_ok (\<lambda>(_, _, c'). bq_ok w c' \<and> consumer_frame c c') (AcquireBuffer e c)"
proof (cases "num_acquired_buffers (slots c) \<ge> max_acquired_buffer_count + 1 \<or> queue c = []")
  case True
  then show ?thesis using ok by (auto simp: AcquireBuffer_def)
next
  case False
  then have na: "filter acquired (slots c) = []" and ne: "queue c \<noteq> []"
    by (auto simp: num_acquired_buffers_def max_acquired_buffer_count_def acquired_def [abs_def] Suc_le_eq)
  show ?thesis
  proof (cases "e = 0")
    case True
    then show ?thesis
      using False acquire_front_ok [OF ok na ne] by (auto simp: AcquireBuffer_def)
  next
    case e: False
    let ?P = "\<lambda>(sls', q'). bq_ok w (c\<lparr>slots := sls', queue := q'\<rparr>) \<and> q' \<noteq> [] \<and> set q' \<subseteq> set (queue c) \<and>
      (filter acquired (slots c) = [] \<longrightarrow> filter acquired sls' = [])"
    have "run_ok ?P (drop_timely e (slots c) (queue c))"
      using drop_timely_ok [where w = w and c = c and sls = "slots c" and q = "queue c" and e = e] ok ne by simp
    then show ?thesis using e False
      unfolding AcquireBuffer_def
    proof (simp, elim run_ok_bind)
      fix r assume r: "drop_timely e (slots c) (queue c) = Inr r" "?P r"
      obtain sls' q' where rr: "r = (sls', q')" by (cases r)
      let ?c = "c\<lparr>slots := sls', queue := q'\<rparr>"
      have suf: "\<exists>gone. queue c = gone @ q'" using drop_timely_suffix r(1) rr by blast
      have fr: "consumer_frame c ?c" using suf by (simp add: consumer_frame_def)
      have "\<exists>item c'. acquire_front ?c = Inr (NoError, Some item, c') \<and> bq_ok w c' \<and> consumer_frame ?c c'"
        using acquire_front_ok [of w ?c] r(2) na rr by auto
      then have af: "run_ok (\<lambda>(_, _, c'). bq_ok w c' \<and> consumer_frame c c') (acquire_front ?c)"
        using consumer_frame_trans [OF fr] by auto
      show "run_ok (\<lambda>(_, _, c'). bq_ok w c' \<and> consumer_frame c c')
          (case r of (sls, q) \<Rightarrow> let c = c\<lparr>slots := sls, queue := q\<rparr>; desired_present = item_timestamp (hd q)
             in if e < desired_present
                then bind_run (s64_add e MAX_REASONABLE_NSEC)
                  (\<lambda>latest. if desired_present < latest then Inr (PresentLater, None, c) else acquire_front c)
                else acquire_front c)"
        using af fr r(2) by (auto simp: rr Let_def s64_add_def)
    qed
  qed
qed

lemma ReleaseBuffer_ok:
  assumes ok: "bq_ok w c"
  shows "\<exists>st c'. ReleaseBuffer slot fn c = Inr (st, c') \<and> bq_ok w c' \<and> consumer_frame c c' \<and> queue c' = queue c"
proof (cases "slot < 0 \<or> slot \<ge> NUM_BUFFER_SLOTS")
  case True
  then show ?thesis using ok by (auto simp: ReleaseBuffer_def)
next
  case False
  then have sl: "0 \<le> slot" "slot < 64" by (simp_all add: NUM_BUFFER_SLOTS_def)
  have g: "aget (slots c) slot = Inr (slots c ! nat slot)" using bq_okD(1) [OF ok] sl by (simp add: aget_def)
  have so: "slot_ok (is_abandoned c) (length (graphic_buffers c)) w (queue c) (nat slot) (slots c ! nat slot)"
    using bq_okD(6) [OF ok, of "nat slot"] sl by simp
  have 1: "bq_ok w (c\<lparr>slots := (slots c)[nat slot := (slots c ! nat slot)\<lparr>buffer_state := Free\<rparr>]\<rparr>)"
    if "buffer_state (slots c ! nat slot) = Acquired"
    by (rule bq_ok_slot [OF ok sl slot_ok_move [OF so]]) (simp_all add: that acquired_def)
  have 2: "bq_ok w (c\<lparr>slots := (slots c)[nat slot := (slots c ! nat slot)\<lparr>needs_cleanup_on_release := False\<rparr>]\<rparr>)"
    by (rule bq_ok_slot [OF ok sl slot_ok_same [OF so]]) (simp_all add: acquired_def)
  show ?thesis
    using False 1 2 ok
    by (auto simp: ReleaseBuffer_def g upd_slot_eq [OF bq_okD(1) [OF ok] sl] Let_def consumer_frame_def
        SignalDequeueCondition_def bq_ok_def split: option.splits)
qed

lemma GetReleasedBuffers_ok:
  assumes ok: "bq_ok w c"
  shows "\<exists>r. GetReleasedBuffers b c = Inr r"
proof -
  have 1: "set ss \<subseteq> {0..63} \<Longrightarrow> \<exists>m'. run_ops (\<lambda>s m. bind_run (aget (slots c) s) (\<lambda>sl.
      Inr (if \<not> slot_acquire_called sl then m OR push_bit (nat s) 1 else m))) ss m = Inr (m' :: u64)" for ss m
    using bq_okD(1) [OF ok] by (induction ss arbitrary: m) (auto simp: aget_def)
  have 2: "\<forall>item \<in> set q. item_ok (length (graphic_buffers c)) item \<Longrightarrow> \<exists>m'. run_ops (\<lambda>item m.
      if item_acquire_called item then if 0 \<le> item_slot item \<and> item_slot item < 64
        then Inr (m AND NOT (push_bit (nat (item_slot item)) 1)) else Inl ShiftOutOfRange else Inr m) q m = Inr (m' :: u64)" for q m
    by (induction q arbitrary: m) (auto simp: item_ok_def NUM_BUFFER_SLOTS_def)
  obtain m where m: "run_ops (\<lambda>s m. bind_run (aget (slots c) s) (\<lambda>sl.
      Inr (if \<not> slot_acquire_called sl then m OR push_bit (nat s) 1 else m))) [0..63] (0 :: u64) = Inr m"
    using 1 [of "[0..63]" 0] by auto
  obtain m' where m': "run_ops (\<lambda>item m. if item_acquire_called item then if 0 \<le> item_slot item \<and> item_slot item < 64
        then Inr (m AND NOT (push_bit (nat (item_slot item)) 1)) else Inl ShiftOutOfRange else Inr m) (queue c) m = Inr (m' :: u64)"
    using 2 [of "queue c" m] bq_okD(7) [OF ok] by blast
  show ?thesis by (simp add: GetReleasedBuffers_def NUM_BUFFER_SLOTS_def m m')
qed

lemma consumer_step_ok:
  assumes ok: "bq_ok w c"
  shows "run_ok (\<lambda>c'. bq_ok w c' \<and> consumer_frame c c') (consumer_step op c)"
proof (cases op)
  case (DoAcquireBuffer e)
  then show ?thesis
    by (auto simp: consumer_step_def intro: run_ok_bind [OF AcquireBuffer_ok [OF ok, of e]])
next
  case (DoReleaseBuffer slot fn)
  then show ?thesis using ReleaseBuffer_ok [OF ok, of slot fn] by (auto simp: consumer_step_def)
next
  case (DoConsumerConnect l b)
  then show ?thesis
    using ok by (auto simp: consumer_step_def consumer_Connect_def consumer_frame_def bq_ok_def)
next
  case DoConsumerDisconnect
  let ?c = "c\<lparr>is_abandoned := True, consumer_listener := None, queue := [], buffer_has_been_queued := False,
    slots := map free_slot (slots c)\<rparr>"
  have "bq_ok w ?c" using ok by (auto simp: bq_ok_def filter_map o_def acquired_def)
  then show ?thesis
    using ok DoConsumerDisconnect bq_okD(1) [OF ok]
    by (simp add: consumer_step_def consumer_Disconnect_def FreeAllBuffersLocked_eq)
       (simp add: consumer_frame_def SignalDequeueCondition_def)
next
  case (DoGetReleasedBuffers b)
  then show ?thesis using GetReleasedBuffers_ok [OF ok, of b] ok by (auto simp: consumer_step_def)
qed

lemma consumer_steps_ok:
  assumes ok: "bq_ok w c"
  shows "run_ok (\<lambda>c'. bq_ok w c' \<and> consumer_frame c c') (run_ops consumer_step ops c)"
proof (rule run_ok_ops)
  fix s op assume s: "bq_ok w s \<and> consumer_frame c s"
  show "run_ok (\<lambda>c'. bq_ok w c' \<and> consumer_frame c c') (consumer_step op s)"
    by (rule run_ok_mono [OF consumer_step_ok]) (use s consumer_frame_trans in blast)+
qed (use ok in simp)

end
