(* ===== verification/BufferQueueProducer.thy ===== *)
theory BufferQueueProducer
  imports BufferQueueConsumer
begin

text \<open>
  The producer's side of the buffer queue (\<^verbatim>\<open>core/hle/service/nvnflinger/buffer_queue_producer.cpp\<close>).  A producer that finds no
  free slot gives up the lock and sleeps: what the consumer does meanwhile is an argument, a list of rounds, and a wait
  that outlasts them is \<open>Blocked\<close>.  \<^verbatim>\<open>DequeueBuffer\<close> also gives up the lock while it allocates a buffer; what the consumer
  does then is its argument \<open>meanwhile\<close>.
\<close>

section \<open>State\<close>

record BufferQueueProducer = BufferQueueCore +
  buffer_wait_event :: bool
  sticky_transform :: u32
  next_callback_ticket :: s32
  current_callback_ticket :: s32

definition new_BufferQueue :: BufferQueueProducer where
  "new_BufferQueue =
     \<lparr>is_abandoned = False, consumer_controlled_by_app = False, consumer_listener = None, consumer_usage_bit = 0,
      connected_api = NoConnectedApi, connected_producer_listener = None, slots = replicate 64 new_BufferSlot,
      queue = [], override_max_buffer_count = 0, dequeue_possible = False, dequeue_buffer_cannot_block = False,
      default_buffer_format = Rgba8888, default_width = 1, default_height = 1, default_max_buffer_count = 2,
      buffer_has_been_queued = False, frame_counter = 0, transform_hint = 0, is_allocating = False,
      graphic_buffers = [], callbacks = [], buffer_wait_event = False, sticky_transform = 0,
      next_callback_ticket = 0, current_callback_ticket = 0\<rparr>"

type_synonym bq = BufferQueueProducer

text \<open>The outcome of an operation that may sleep: still asleep in a state, or its result.\<close>

datatype 'a blocking = Blocked bq | Returned 'a

definition call_back :: "nat option \<Rightarrow> (nat \<Rightarrow> Callback) \<Rightarrow> bq \<Rightarrow> bq" where
  "call_back listener f p = (case listener of None \<Rightarrow> p | Some l \<Rightarrow> p\<lparr>callbacks := callbacks p @ [f l]\<rparr>)"

section \<open>Owning a buffer\<close>

definition RequestBuffer :: "s32 \<Rightarrow> bq \<Rightarrow> (Status \<times> buffer_ptr \<times> bq) run" where
  "RequestBuffer slot p =
     (if is_abandoned p then Inr (NoInit, None, p)
      else if slot < 0 \<or> slot \<ge> NUM_BUFFER_SLOTS then Inr (BadValue, None, p)
      else bind_run (aget (slots p) slot) (\<lambda>sl.
        if buffer_state sl \<noteq> Dequeued then Inr (BadValue, None, p)
        else bind_run (upd_slot slot (\<lambda>sl. sl\<lparr>request_buffer_called := True\<rparr>) p) (\<lambda>p.
          Inr (NoError, slot_graphic_buffer sl, p))))"

definition SetBufferCount :: "s32 \<Rightarrow> bq \<Rightarrow> (Status \<times> bq) run" where
  "SetBufferCount buffer_count p =
     bind_run (WaitWhileAllocatingLocked p) (\<lambda>_.
     if is_abandoned p then Inr (NoInit, p)
     else if buffer_count > NUM_BUFFER_SLOTS then Inr (BadValue, p)
     else if list_ex (\<lambda>sl. buffer_state sl = Dequeued) (slots p) then Inr (BadValue, p)
     else if buffer_count = 0
     then Inr (NoError, SignalDequeueCondition (p\<lparr>override_max_buffer_count := 0\<rparr>))
     else if buffer_count < GetMinMaxBufferCountLocked False p then Inr (BadValue, p)
     else bind_run (if GetPreallocatedBufferCountLocked p \<le> 0 then FreeAllBuffersLocked p else Inr p) (\<lambda>p.
       let p = (SignalDequeueCondition (p\<lparr>override_max_buffer_count := buffer_count\<rparr>))\<lparr>buffer_wait_event := True\<rparr>
       in Inr (NoError, call_back (consumer_listener p) OnBuffersReleased p)))"

section \<open>Waiting for a slot\<close>

text \<open>The scan for a free slot: the slot found so far and the numbers of dequeued and acquired ones.\<close>

record slot_scan =
  found :: s32
  dequeued_count :: s32
  acquired_count :: s32

definition scan_slot :: "bq \<Rightarrow> s32 \<Rightarrow> slot_scan \<Rightarrow> slot_scan run" where
  "scan_slot p s scan =
     bind_run (aget (slots p) s) (\<lambda>sl. case buffer_state sl of
       Dequeued \<Rightarrow> Inr (scan\<lparr>dequeued_count := dequeued_count scan + 1\<rparr>)
     | Acquired \<Rightarrow> Inr (scan\<lparr>acquired_count := acquired_count scan + 1\<rparr>)
     | Free \<Rightarrow>
         if found scan = INVALID_BUFFER_SLOT then Inr (scan\<lparr>found := s\<rparr>)
         else bind_run (aget (slots p) (found scan)) (\<lambda>best.
           Inr (if slot_frame_number sl < slot_frame_number best then scan\<lparr>found := s\<rparr> else scan))
     | Queued \<Rightarrow> Inr scan)"

definition free_excess_slot :: "s32 \<Rightarrow> Status \<times> bq \<Rightarrow> (Status \<times> bq) run" where
  "free_excess_slot s = (\<lambda>(return_flags, p).
     bind_run (aget (slots p) s) (\<lambda>sl.
     ensure (buffer_state sl = Free)
       (if slot_graphic_buffer sl \<noteq> None \<and> buffer_state sl = Free \<and> \<not> is_preallocated sl
        then bind_run (core_FreeBufferLocked s p) (\<lambda>p. Inr (return_flags OR ReleaseAllBuffers, p))
        else Inr (return_flags, p))))"

text \<open>One iteration of the wait: a status to return, or \<open>None\<close> to sleep.\<close>

definition try_free_slot :: "bool \<Rightarrow> Status \<Rightarrow> bq \<Rightarrow> (Status option \<times> s32 \<times> Status \<times> bq) run" where
  "try_free_slot async return_flags p =
     (if is_abandoned p then Inr (Some NoInit, 0, return_flags, p)
      else bind_run (GetMaxBufferCountLocked async p) (\<lambda>max_buffer_count.
        if async \<and> override_max_buffer_count p \<noteq> 0 \<and> override_max_buffer_count p < max_buffer_count
        then Inr (Some BadValue, INVALID_BUFFER_SLOT, return_flags, p)
        else
        bind_run (run_ops free_excess_slot [max_buffer_count..NUM_BUFFER_SLOTS - 1] (return_flags, p))
          (\<lambda>(return_flags, p).
        bind_run (run_ops (scan_slot p) [0..max_buffer_count - 1]
                    \<lparr>found = INVALID_BUFFER_SLOT, dequeued_count = 0, acquired_count = 0\<rparr>) (\<lambda>scan.
        if override_max_buffer_count p = 0 \<and> dequeued_count scan \<noteq> 0
        then Inr (Some InvalidOperation, found scan, return_flags, p)
        else if buffer_has_been_queued p \<and>
          max_buffer_count - (dequeued_count scan + 1) < GetMinUndequeuedBufferCountLocked async p
        then Inr (Some InvalidOperation, found scan, return_flags, p)
        else
          let too_many_buffers = of_nat (length (queue p)) > (of_int max_buffer_count :: u64)
          in if found scan = INVALID_BUFFER_SLOT \<or> too_many_buffers
             then if dequeue_buffer_cannot_block p \<and> acquired_count scan \<le> max_acquired_buffer_count
                  then Inr (Some WouldBlock, found scan, return_flags, p)
                  else Inr (None, found scan, return_flags, p)
             else Inr (Some NoError, found scan, return_flags, p)))))"

text \<open>A sleeping producer: the consumer's rounds up to the one that signals it.\<close>

fun sleep_rounds :: "ConsumerOp list list \<Rightarrow> bq \<Rightarrow> (bq \<times> ConsumerOp list list) blocking run" where
  "sleep_rounds rounds p = (case WaitForDequeueCondition p of
     Some p' \<Rightarrow> Inr (Returned (p', rounds))
   | None \<Rightarrow> (case rounds of
       [] \<Rightarrow> Inr (Blocked p)
     | r # rs \<Rightarrow> bind_run (run_ops consumer_step r p) (sleep_rounds rs)))"

lemma slots_update_self: "\<exists>sls. c = c\<lparr>slots := sls\<rparr>"
  by (rule exI [of _ "slots c"]) simp

lemma upd_slot_only: "upd_slot i f p = Inr p' \<Longrightarrow> \<exists>sls. p' = p\<lparr>slots := sls\<rparr>"
  by (auto simp: upd_slot_def bind_run_eq_Inr)

lemma free_excess_slots_only:
  "run_ops free_excess_slot ss (flags, p) = Inr (flags', p') \<Longrightarrow> \<exists>sls. p' = p\<lparr>slots := sls\<rparr>"
proof (induction ss arbitrary: flags p)
  case (Cons s ss)
  then obtain flags1 p1 where 1: "free_excess_slot s (flags, p) = Inr (flags1, p1)"
    and 2: "run_ops free_excess_slot ss (flags1, p1) = Inr (flags', p')"
    by (auto simp: bind_run_eq_Inr)
  from 1 slots_update_self [of p] obtain sls where "p1 = p\<lparr>slots := sls\<rparr>"
    by (auto simp: free_excess_slot_def bind_run_eq_Inr ensure_eq_Inr core_FreeBufferLocked_def
        dest!: upd_slot_only split: if_splits)
  with Cons.IH [OF 2] show ?case by auto
qed (use slots_update_self in auto)

lemma try_free_slot_only: "try_free_slot async flags p = Inr (st, f, flags', p') \<Longrightarrow> \<exists>sls. p' = p\<lparr>slots := sls\<rparr>"
  using slots_update_self [of p]
  by (auto simp: try_free_slot_def bind_run_eq_Inr Let_def dest!: free_excess_slots_only split: if_splits)

lemma try_free_slot_dequeue_possible:
  "try_free_slot async flags p = Inr (st, f, flags', p') \<Longrightarrow> dequeue_possible p' = dequeue_possible p"
  by (auto dest!: try_free_slot_only)

lemma sleep_rounds_measure:
  "sleep_rounds rounds p = Inr (Returned (p', rounds')) \<Longrightarrow>
   \<not> dequeue_possible p' \<and> length rounds' < length rounds + (if dequeue_possible p then 1 else 0)"
proof (induction rounds arbitrary: p)
  case Nil
  then show ?case by (auto simp: WaitForDequeueCondition_def split: if_splits)
next
  case (Cons r rs)
  show ?case
  proof (cases "dequeue_possible p")
    case True
    with Cons.prems show ?thesis by (auto simp: WaitForDequeueCondition_def)
  next
    case False
    with Cons.prems obtain p1 where "sleep_rounds rs p1 = Inr (Returned (p', rounds'))"
      by (auto simp: WaitForDequeueCondition_def bind_run_eq_Inr)
    from Cons.IH [OF this] False show ?thesis by (auto split: if_splits)
  qed
qed

function WaitForFreeSlotThenRelock ::
  "bool \<Rightarrow> ConsumerOp list list \<Rightarrow> Status \<Rightarrow> bq \<Rightarrow> (Status \<times> s32 \<times> Status \<times> bq) blocking run" where
  "WaitForFreeSlotThenRelock async rounds return_flags p =
     (case try_free_slot async return_flags p of
        Inl e \<Rightarrow> Inl e
      | Inr (Some status, fnd, return_flags, p) \<Rightarrow> Inr (Returned (status, fnd, return_flags, p))
      | Inr (None, fnd, return_flags, p) \<Rightarrow>
          (case sleep_rounds rounds p of
             Inl e \<Rightarrow> Inl e
           | Inr (Blocked p) \<Rightarrow> Inr (Blocked p)
           | Inr (Returned (p, rounds)) \<Rightarrow> WaitForFreeSlotThenRelock async rounds return_flags p))"
  by pat_completeness auto

termination
proof (relation "measure (\<lambda>(async, rounds, flags, p). length rounds + (if dequeue_possible p then 1 else 0))")
  fix async :: bool and rounds :: "ConsumerOp list list" and flags :: Status and p :: bq
    and b x1 y x2 y1 flags' p1 and x2a :: "(bq \<times> ConsumerOp list list) blocking" and x2b p2 rounds'
  assume "try_free_slot async flags p = Inr b" "(x1, y) = b" "(x2, y1) = y" "(flags', p1) = y1" "x1 = None"
    and "sleep_rounds rounds p1 = Inr x2a" "x2a = Returned x2b" "(p2, rounds') = x2b"
  then show "((async, rounds', flags', p2), async, rounds, flags, p) \<in>
      measure (\<lambda>(async, rounds, flags, p). length rounds + (if dequeue_possible p then 1 else 0))"
    using sleep_rounds_measure [of rounds p1 p2 rounds'] try_free_slot_dequeue_possible [of async flags p None x2 flags' p1]
    by auto
qed simp

declare WaitForFreeSlotThenRelock.simps [simp del]
declare sleep_rounds.simps [simp del]

section \<open>Taking and giving back slots\<close>

definition needs_reallocation :: "buffer_ptr \<Rightarrow> u32 \<Rightarrow> u32 \<Rightarrow> PixelFormat \<Rightarrow> u32 \<Rightarrow> bq \<Rightarrow> bool run" where
  "needs_reallocation buffer width height format usage p = (case buffer of
     None \<Rightarrow> Inr True
   | Some b \<Rightarrow> bind_run (aget (graphic_buffers p) (int b)) (\<lambda>gb.
       Inr (gb_Width gb \<noteq> width \<or> gb_Height gb \<noteq> height \<or> gb_Format gb \<noteq> format \<or> (gb_Usage gb AND usage) \<noteq> usage)))"

text \<open>The end of the first critical section of \<^verbatim>\<open>DequeueBuffer\<close>, with the slot that was found.\<close>

definition dequeue_slot ::
  "s32 \<Rightarrow> u32 \<Rightarrow> u32 \<Rightarrow> PixelFormat \<Rightarrow> u32 \<Rightarrow> bq \<Rightarrow> (bool \<times> Fence \<times> bq) run" where
  "dequeue_slot fnd width height format usage p =
     bind_run (upd_slot fnd (\<lambda>sl. sl\<lparr>buffer_state := Dequeued\<rparr>) p) (\<lambda>p.
     bind_run (aget (slots p) fnd) (\<lambda>sl.
     bind_run (needs_reallocation (slot_graphic_buffer sl) width height format usage p) (\<lambda>realloc.
     bind_run (if realloc
               then upd_slot fnd (\<lambda>sl. sl\<lparr>slot_acquire_called := False, slot_graphic_buffer := None,
                      request_buffer_called := False, slot_fence := NoFence\<rparr>) p
               else Inr p) (\<lambda>p.
     bind_run (aget (slots p) fnd) (\<lambda>sl.
     bind_run (upd_slot fnd (\<lambda>sl. sl\<lparr>slot_fence := NoFence\<rparr>) p) (\<lambda>p.
       Inr (realloc, slot_fence sl, p)))))))"

text \<open>The second critical section, with a new buffer.\<close>

definition install_buffer :: "s32 \<Rightarrow> GraphicBuffer \<Rightarrow> bq \<Rightarrow> (Status \<times> bq) run" where
  "install_buffer slot gb p =
     (let p = p\<lparr>graphic_buffers := graphic_buffers p @ [gb]\<rparr>
      in if is_abandoned p then Inr (NoInit, p)
         else bind_run (upd_slot slot (\<lambda>sl. sl\<lparr>slot_frame_number := 0xFFFFFFFF,
                slot_graphic_buffer := Some (length (graphic_buffers p) - 1)\<rparr>) p) (\<lambda>p. Inr (NoError, p)))"

text \<open>\<^verbatim>\<open>DequeueBuffer\<close> from the line \<^verbatim>\<open>*out_slot = found\<close> on.\<close>

definition dequeue_found ::
  "ConsumerOp list \<Rightarrow> s32 \<Rightarrow> Status \<Rightarrow> u32 \<Rightarrow> u32 \<Rightarrow> PixelFormat \<Rightarrow> u32 \<Rightarrow> bq \<Rightarrow> (Status \<times> (s32 \<times> Fence) option \<times> bq) run" where
  "dequeue_found meanwhile fnd return_flags width height format usage p =
     bind_run (aget (slots p) fnd) (\<lambda>sl.
       let use_default_size = (width = 0 \<and> height = 0);
           width = (if use_default_size then default_width p else width);
           height = (if use_default_size then default_height p else height)
       in bind_run (dequeue_slot fnd width height format usage p) (\<lambda>(realloc, fence, p).
         let return_flags = (if realloc then return_flags OR BufferNeedsReallocation else return_flags);
             attached_flags = (if attached_by_consumer sl then return_flags OR BufferNeedsReallocation else return_flags)
         in if return_flags AND BufferNeedsReallocation \<noteq> 0
            then bind_run (run_ops consumer_step meanwhile p) (\<lambda>p.
                 bind_run (install_buffer fnd (new_GraphicBuffer width height format usage) p) (\<lambda>(status, p).
                   Inr (if status \<noteq> NoError then status else attached_flags, Some (fnd, fence), p)))
            else Inr (attached_flags, Some (fnd, fence), p)))"

definition DequeueBuffer ::
  "ConsumerOp list list \<Rightarrow> ConsumerOp list \<Rightarrow> bool \<Rightarrow> u32 \<Rightarrow> u32 \<Rightarrow> PixelFormat \<Rightarrow> u32 \<Rightarrow> bq \<Rightarrow>
   (Status \<times> (s32 \<times> Fence) option \<times> bq) blocking run" where
  "DequeueBuffer rounds meanwhile async width height format usage p =
     (if (width \<noteq> 0 \<and> height = 0) \<or> (width = 0 \<and> height \<noteq> 0) then Inr (Returned (BadValue, None, p))
      else bind_run (WaitWhileAllocatingLocked p) (\<lambda>_.
        let format = (if format = NoFormat then default_buffer_format p else format);
            usage = usage OR consumer_usage_bit p
        in bind_run (WaitForFreeSlotThenRelock async rounds NoError p) (\<lambda>r. case r of
          Blocked p \<Rightarrow> Inr (Blocked p)
        | Returned (status, fnd, return_flags, p) \<Rightarrow>
            if status \<noteq> NoError then Inr (Returned (status, None, p))
            else if fnd = INVALID_BUFFER_SLOT then Inr (Returned (Busy, None, p))
            else bind_run (dequeue_found meanwhile fnd return_flags width height format usage p) (\<lambda>r. Inr (Returned r)))))"

definition DetachBuffer :: "s32 \<Rightarrow> bq \<Rightarrow> (Status \<times> bq) run" where
  "DetachBuffer slot p =
     (if is_abandoned p then Inr (NoInit, p)
      else if slot < 0 \<or> slot \<ge> NUM_BUFFER_SLOTS then Inr (BadValue, p)
      else bind_run (aget (slots p) slot) (\<lambda>sl.
        if buffer_state sl \<noteq> Dequeued then Inr (BadValue, p)
        else if \<not> request_buffer_called sl then Inr (BadValue, p)
        else bind_run (core_FreeBufferLocked slot p) (\<lambda>p. Inr (NoError, SignalDequeueCondition p))))"

definition oldest_valid :: "bq \<Rightarrow> s32 \<Rightarrow> s32 \<Rightarrow> s32 run" where
  "oldest_valid p s fnd =
     bind_run (aget (slots p) s) (\<lambda>sl.
       if buffer_state sl = Free \<and> slot_graphic_buffer sl \<noteq> None
       then if fnd = INVALID_BUFFER_SLOT then Inr s
            else bind_run (aget (slots p) fnd) (\<lambda>best.
              Inr (if slot_frame_number sl < slot_frame_number best then s else fnd))
       else Inr fnd)"

definition DetachNextBuffer :: "bool \<Rightarrow> bool \<Rightarrow> bq \<Rightarrow> (Status \<times> (buffer_ptr \<times> Fence) option \<times> bq) run" where
  "DetachNextBuffer out_buffer out_fence p =
     (if \<not> out_buffer then Inr (BadValue, None, p)
      else if \<not> out_fence then Inr (BadValue, None, p)
      else bind_run (WaitWhileAllocatingLocked p) (\<lambda>_.
        if is_abandoned p then Inr (NoInit, None, p)
        else bind_run (run_ops (oldest_valid p) [0..NUM_BUFFER_SLOTS - 1] INVALID_BUFFER_SLOT) (\<lambda>fnd.
          if fnd = INVALID_BUFFER_SLOT then Inr (NoMemory, None, p)
          else bind_run (aget (slots p) fnd) (\<lambda>sl.
               bind_run (core_FreeBufferLocked fnd p) (\<lambda>p.
                 Inr (NoError, Some (slot_graphic_buffer sl, slot_fence sl), p))))))"

definition AttachBuffer ::
  "ConsumerOp list list \<Rightarrow> bool \<Rightarrow> buffer_ptr \<Rightarrow> bq \<Rightarrow> (Status \<times> s32 option \<times> bq) blocking run" where
  "AttachBuffer rounds out_slot buffer p =
     (if \<not> out_slot then Inr (Returned (BadValue, None, p))
      else if buffer = None then Inr (Returned (BadValue, None, p))
      else bind_run (WaitWhileAllocatingLocked p) (\<lambda>_.
        bind_run (WaitForFreeSlotThenRelock False rounds NoError p) (\<lambda>r. case r of
          Blocked p \<Rightarrow> Inr (Blocked p)
        | Returned (status, fnd, return_flags, p) \<Rightarrow>
            if status \<noteq> NoError then Inr (Returned (status, None, p))
            else if fnd = INVALID_BUFFER_SLOT then Inr (Returned (Busy, None, p))
            else bind_run (upd_slot fnd (\<lambda>sl. sl\<lparr>slot_graphic_buffer := buffer, buffer_state := Dequeued,
                             slot_fence := NoFence, request_buffer_called := True\<rparr>) p) (\<lambda>p.
              Inr (Returned (return_flags, Some fnd, p))))))"

section \<open>Queueing a frame\<close>

datatype NativeWindowScalingMode =
    Freeze | ScaleToWindow | ScaleCrop | NoScaleCrop | PreserveAspectRatio | UnknownScalingMode s32

definition scaling_mode_value :: "NativeWindowScalingMode \<Rightarrow> u32" where
  "scaling_mode_value m = (case m of
     Freeze \<Rightarrow> 0 | ScaleToWindow \<Rightarrow> 1 | ScaleCrop \<Rightarrow> 2 | NoScaleCrop \<Rightarrow> 3 | PreserveAspectRatio \<Rightarrow> 4
   | UnknownScalingMode v \<Rightarrow> word_of_int v)"

definition InverseDisplay :: u32 where "InverseDisplay = 8"

record QueueBufferInput =
  in_timestamp :: s64
  in_is_auto_timestamp :: s32
  in_crop :: Rectangle
  in_scaling_mode :: NativeWindowScalingMode
  in_transform :: u32
  in_sticky_transform :: u32
  in_async :: s32
  in_swap_interval :: s32
  in_fence :: Fence

record QueueBufferOutput =
  out_width :: u32
  out_height :: u32
  out_transform_hint :: u32
  out_num_pending_buffers :: u32

definition Inflate :: "bq \<Rightarrow> QueueBufferOutput" where
  "Inflate p = \<lparr>out_width = default_width p, out_height = default_height p, out_transform_hint = transform_hint p,
     out_num_pending_buffers = of_nat (length (queue p))\<rparr>"

definition frame_item :: "s32 \<Rightarrow> QueueBufferInput \<Rightarrow> bq \<Rightarrow> BufferSlot \<Rightarrow> BufferItem" where
  "frame_item slot input p sl =
     \<lparr>item_graphic_buffer = slot_graphic_buffer sl, item_fence = in_fence input, item_crop = in_crop input,
      item_transform = in_transform input AND NOT InverseDisplay, item_scaling_mode = scaling_mode_value (in_scaling_mode input),
      item_timestamp = in_timestamp input, item_is_auto_timestamp = (in_is_auto_timestamp input \<noteq> 0),
      item_frame_number = frame_counter p, item_slot = slot,
      is_droppable = (dequeue_buffer_cannot_block p \<or> in_async input \<noteq> 0), item_acquire_called = slot_acquire_called sl,
      transform_to_display_inverse = (in_transform input AND InverseDisplay \<noteq> 0),
      item_swap_interval = in_swap_interval input\<rparr>"

text \<open>The queue with a new item: whether it replaced the front, and the new state.\<close>

definition enqueue_item :: "BufferItem \<Rightarrow> bq \<Rightarrow> (bool \<times> bq) run" where
  "enqueue_item item p = (case queue p of
     [] \<Rightarrow> Inr (False, p\<lparr>queue := [item]\<rparr>)
   | front # rest \<Rightarrow>
       if is_droppable front
       then bind_run (core_StillTracking front (slots p)) (\<lambda>tracking.
            bind_run (if tracking
                      then upd_slot (item_slot front) (\<lambda>sl. sl\<lparr>buffer_state := Free, slot_frame_number := 0\<rparr>) p
                      else Inr p) (\<lambda>p.
              Inr (True, p\<lparr>queue := item # rest\<rparr>)))
       else Inr (False, p\<lparr>queue := queue p @ [item]\<rparr>))"

text \<open>The section of \<^verbatim>\<open>QueueBuffer\<close> under the callback lock: a thread sleeps until its ticket is called.\<close>

definition frame_callback :: "s32 \<Rightarrow> bool \<Rightarrow> nat option \<Rightarrow> BufferItem \<Rightarrow> bq \<Rightarrow> bq run" where
  "frame_callback callback_ticket replaced listener item p =
     (if callback_ticket \<noteq> current_callback_ticket p then Inl OutOfFuel
      else
        let item = item\<lparr>item_graphic_buffer := None, item_slot := INVALID_BUFFER_SLOT\<rparr>;
            p = call_back listener (\<lambda>l. if replaced then OnFrameReplaced l item else OnFrameAvailable l item) p
        in if current_callback_ticket p < 2 ^ 31 - 1
           then Inr (p\<lparr>current_callback_ticket := current_callback_ticket p + 1\<rparr>) else Inl SignedOverflow)"

text \<open>\<^verbatim>\<open>QueueBuffer\<close> from the assignment of the slot's fence on.\<close>

definition queue_frame :: "s32 \<Rightarrow> QueueBufferInput \<Rightarrow> bq \<Rightarrow> (QueueBufferOutput \<times> bq) run" where
  "queue_frame slot input p =
     (let p = p\<lparr>frame_counter := frame_counter p + 1\<rparr>
      in bind_run (upd_slot slot (\<lambda>sl. sl\<lparr>slot_fence := in_fence input, buffer_state := Queued,
                     slot_frame_number := frame_counter p\<rparr>) p) (\<lambda>p.
         bind_run (aget (slots p) slot) (\<lambda>sl.
           let item = frame_item slot input p sl;
               p = p\<lparr>sticky_transform := in_sticky_transform input\<rparr>
           in bind_run (enqueue_item item p) (\<lambda>(replaced, p).
             let p = SignalDequeueCondition (p\<lparr>buffer_has_been_queued := True\<rparr>);
                 output = Inflate p;
                 callback_ticket = next_callback_ticket p
             in if \<not> callback_ticket < 2 ^ 31 - 1 then Inl SignedOverflow
                else bind_run (frame_callback callback_ticket replaced (consumer_listener p) item
                       (p\<lparr>next_callback_ticket := callback_ticket + 1\<rparr>)) (\<lambda>p.
                  Inr (output, p))))))"

definition QueueBuffer :: "s32 \<Rightarrow> QueueBufferInput \<Rightarrow> bq \<Rightarrow> (Status \<times> QueueBufferOutput option \<times> bq) run" where
  "QueueBuffer slot input p =
     (let async = (in_async input \<noteq> 0)
      in if (case in_scaling_mode input of UnknownScalingMode _ \<Rightarrow> True | _ \<Rightarrow> False) then Inr (BadValue, None, p)
      else if is_abandoned p then Inr (NoInit, None, p)
      else bind_run (GetMaxBufferCountLocked async p) (\<lambda>max_buffer_count.
        if async \<and> override_max_buffer_count p \<noteq> 0 \<and> override_max_buffer_count p < max_buffer_count
        then Inr (BadValue, None, p)
        else if slot < 0 \<or> slot \<ge> max_buffer_count then Inr (BadValue, None, p)
        else bind_run (aget (slots p) slot) (\<lambda>sl.
          if buffer_state sl \<noteq> Dequeued then Inr (BadValue, None, p)
          else if \<not> request_buffer_called sl then Inr (BadValue, None, p)
          else case slot_graphic_buffer sl of
            None \<Rightarrow> Inl NullDeref
          | Some b \<Rightarrow> bind_run (aget (graphic_buffers p) (int b)) (\<lambda>gb.
              let buffer_rect = \<lparr>rect_left = 0, rect_top = 0, rect_right = sint (gb_Width gb), rect_bottom = sint (gb_Height gb)\<rparr>
              in bind_run (Rectangle_Intersect (in_crop input) buffer_rect) (\<lambda>(_, cropped_rect).
                 if cropped_rect \<noteq> in_crop input then Inr (BadValue, None, p)
                 else bind_run (queue_frame slot input p) (\<lambda>(output, p). Inr (NoError, Some output, p)))))))"

definition CancelBuffer :: "s32 \<Rightarrow> Fence \<Rightarrow> bq \<Rightarrow> bq run" where
  "CancelBuffer slot fence p =
     (if is_abandoned p then Inr p
      else if slot < 0 \<or> slot \<ge> NUM_BUFFER_SLOTS then Inr p
      else bind_run (aget (slots p) slot) (\<lambda>sl.
        if buffer_state sl \<noteq> Dequeued then Inr p
        else bind_run (upd_slot slot (\<lambda>sl. sl\<lparr>buffer_state := Free, slot_frame_number := 0, slot_fence := fence\<rparr>) p)
          (\<lambda>p. Inr ((SignalDequeueCondition p)\<lparr>buffer_wait_event := True\<rparr>))))"

section \<open>Connections and preallocation\<close>

datatype NativeWindow =
    WindowWidth | WindowHeight | WindowFormat | MinUndequeedBuffers | QueuesToWindowComposer | ConcreteType
  | DefaultWidth | DefaultHeight | TransformHint | ConsumerRunningBehind | ConsumerUsageBits | StickyTransform
  | DefaultDataSpace | BufferAge | UnknownWindow s32

definition bq_Query :: "NativeWindow \<Rightarrow> bool \<Rightarrow> bq \<Rightarrow> (Status \<times> s32 option) run" where
  "bq_Query what out_value p =
     (if \<not> out_value then Inr (BadValue, None)
      else if is_abandoned p then Inr (NoInit, None)
      else let ok = (\<lambda>v :: u32. Inr (NoError, Some (sint v))) in case what of
        WindowWidth \<Rightarrow> ok (default_width p)
      | WindowHeight \<Rightarrow> ok (default_height p)
      | WindowFormat \<Rightarrow> ok (default_buffer_format p)
      | MinUndequeedBuffers \<Rightarrow> ok (word_of_int (GetMinUndequeuedBufferCountLocked False p))
      | StickyTransform \<Rightarrow> ok (sticky_transform p)
      | ConsumerRunningBehind \<Rightarrow> ok (if length (queue p) > 1 then 1 else 0)
      | ConsumerUsageBits \<Rightarrow> ok (consumer_usage_bit p)
      | _ \<Rightarrow> Inl AssertFailed)"

definition known_api :: "NativeWindowApi \<Rightarrow> bool" where
  "known_api api \<longleftrightarrow> (case api of Egl \<Rightarrow> True | Cpu \<Rightarrow> True | Media \<Rightarrow> True | Camera \<Rightarrow> True | _ \<Rightarrow> False)"

definition producer_Connect ::
  "nat option \<Rightarrow> NativeWindowApi \<Rightarrow> bool \<Rightarrow> bool \<Rightarrow> bq \<Rightarrow> Status \<times> QueueBufferOutput option \<times> bq" where
  "producer_Connect listener api producer_controlled_by_app output p =
     (if is_abandoned p then (NoInit, None, p)
      else if consumer_listener p = None then (NoInit, None, p)
      else if \<not> output then (BadValue, None, p)
      else if connected_api p \<noteq> NoConnectedApi then (BadValue, None, p)
      else
        let (status, out, p) =
              (if known_api api
               then (NoError, Some (Inflate p), p\<lparr>connected_api := api, connected_producer_listener := listener\<rparr>)
               else (BadValue, None, p))
        in (status, out, p\<lparr>buffer_has_been_queued := False,
              dequeue_buffer_cannot_block := consumer_controlled_by_app p \<and> producer_controlled_by_app\<rparr>))"

definition producer_Disconnect :: "NativeWindowApi \<Rightarrow> bq \<Rightarrow> (Status \<times> bq) run" where
  "producer_Disconnect api p =
     bind_run (WaitWhileAllocatingLocked p) (\<lambda>_.
     if is_abandoned p then Inr (NoError, p)
     else if known_api api then
       if connected_api p = api then
         bind_run (FreeAllBuffersLocked (p\<lparr>queue := []\<rparr>)) (\<lambda>p.
           let p = (SignalDequeueCondition (p\<lparr>connected_producer_listener := None, connected_api := NoConnectedApi\<rparr>))
                     \<lparr>buffer_wait_event := True\<rparr>
           in Inr (NoError, call_back (consumer_listener p) OnBuffersReleased p))
       else Inr (BadValue, p)
     else Inr (BadValue, p))"

definition SetPreallocatedBuffer :: "s32 \<Rightarrow> GraphicBuffer option \<Rightarrow> bq \<Rightarrow> (Status \<times> bq) run" where
  "SetPreallocatedBuffer slot buffer p =
     (if slot < 0 \<or> slot \<ge> NUM_BUFFER_SLOTS then Inr (BadValue, p)
      else
        let gb = (case buffer of None \<Rightarrow> null_NvGraphicBuffer | Some b \<Rightarrow> b);
            p = p\<lparr>graphic_buffers := graphic_buffers p @ [gb]\<rparr>
        in bind_run (upd_slot slot (\<lambda>_. new_BufferSlot\<lparr>slot_fence := NoFence,
                       slot_graphic_buffer := Some (length (graphic_buffers p) - 1), slot_frame_number := 0\<rparr>) p) (\<lambda>p.
           bind_run (case buffer of
               None \<Rightarrow> Inr p
             | Some b \<Rightarrow> bind_run (upd_slot slot (\<lambda>sl. sl\<lparr>is_preallocated := True\<rparr>) p) (\<lambda>p.
                 Inr (p\<lparr>override_max_buffer_count := GetPreallocatedBufferCountLocked p, default_width := gb_Width b,
                        default_height := gb_Height b, default_buffer_format := gb_Format b\<rparr>))) (\<lambda>p.
             Inr (NoError, (SignalDequeueCondition p)\<lparr>buffer_wait_event := True\<rparr>))))"

end
