(* ===== verification/BufferQueueInvariant.thy ===== *)
theory BufferQueueInvariant
  imports BufferQueueProducer
begin

text \<open>
  Every operation of the producer keeps the correspondence between slots and queued frames: the search for a free
  slot and the wait for one, the slots the producer takes and gives back, and the frames it queues.
\<close>

section \<open>Finding a free slot\<close>

lemma free_excess_ok:
  assumes ok: "bq_ok w p" and m: "0 \<le> m" "m \<le> 64"
  shows "run_ok (\<lambda>(flags', p'). bq_ok w p' \<and> (\<exists>sls. p' = p\<lparr>slots := sls\<rparr>) \<and> (\<forall>i < nat m. slots p' ! i = slots p ! i))
    (run_ops free_excess_slot [m..NUM_BUFFER_SLOTS - 1] (flags, p))" (is "run_ok ?P _")
proof (rule run_ok_ops)
  fix fp s
  assume inv: "?P fp" and "s \<in> set [m..NUM_BUFFER_SLOTS - 1]"
  then have s: "m \<le> s" "0 \<le> s" "s < 64" using m by (auto simp: NUM_BUFFER_SLOTS_def)
  obtain fl p1 where fp: "fp = (fl, p1)" by (cases fp)
  obtain sls where ok1: "bq_ok w p1" and p1: "p1 = p\<lparr>slots := sls\<rparr>" and eq: "\<forall>i < nat m. slots p1 ! i = slots p ! i"
    using inv by (auto simp: fp)
  have g: "aget (slots p1) s = Inr (slots p1 ! nat s)" using bq_okD(1) [OF ok1] s by (simp add: aget_def)
  let ?p = "p1\<lparr>slots := (slots p1)[nat s := free_slot (slots p1 ! nat s)]\<rparr>"
  have "bq_ok w ?p" by (rule bq_ok_slot [OF ok1 s(2,3)]) (simp_all add: acquired_def)
  moreover have "\<exists>sls. ?p = p\<lparr>slots := sls\<rparr>" by (simp add: p1) blast
  moreover have "\<forall>i < nat m. slots ?p ! i = slots p ! i" using eq s by simp
  ultimately have "?P (fl', ?p)" for fl' by simp
  then show "run_ok ?P (free_excess_slot s fp)"
    using inv
    by (simp add: free_excess_slot_def fp g core_FreeBufferLocked_def upd_slot_eq [OF bq_okD(1) [OF ok1] s(2,3)] ensure_def)
qed (use ok slots_update_self in auto)

text \<open>Exactly what freeing the slots beyond the buffer count does: it drops the buffers of those slots, all of them free,
  except preallocated ones.\<close>

definition excess_slot :: "int \<Rightarrow> nat \<Rightarrow> BufferSlot \<Rightarrow> BufferSlot" where
  "excess_slot m i sl = (if m \<le> int i \<and> slot_graphic_buffer sl \<noteq> None \<and> \<not> is_preallocated sl then free_slot sl else sl)"

definition excess_freed :: "bool \<Rightarrow> bq \<Rightarrow> bq \<Rightarrow> bool" where
  "excess_freed async p p' \<longleftrightarrow> (\<exists>m. GetMaxBufferCountLocked async p = Inr m \<and> 0 < m \<and> m \<le> 64 \<and>
     (\<forall>i < 64. m \<le> int i \<longrightarrow> buffer_state (slots p ! i) = Free) \<and>
     p' = p\<lparr>slots := map (\<lambda>i. excess_slot m i (slots p ! i)) [0..<64]\<rparr>)"

lemma free_excess_slots_eq:
  assumes "length (slots p) = 64" "0 \<le> m" "m \<le> 64" "run_ops free_excess_slot [m..63] (flags, p) = Inr (flags', p')"
  shows "(\<forall>i < 64. m \<le> int i \<longrightarrow> buffer_state (slots p ! i) = Free) \<and>
    p' = p\<lparr>slots := map (\<lambda>i. excess_slot m i (slots p ! i)) [0..<64]\<rparr>"
  using assms
proof (induction "nat (64 - m)" arbitrary: m p flags)
  case 0
  then have "map (\<lambda>i. excess_slot m i (slots p ! i)) [0..<64] = slots p"
    by (intro nth_equalityI) (simp_all add: excess_slot_def)
  then show ?case using 0 by simp
next
  case (Suc n)
  then have m: "m < 64" "n = nat (64 - (m + 1))" "[m..63] = m # [m + 1..63]" by (simp_all add: upto_rec1)
  let ?sl = "slots p ! nat m" and ?p = "p\<lparr>slots := (slots p)[nat m := excess_slot m (nat m) (slots p ! nat m)]\<rparr>"
  have g: "aget (slots p) m = Inr ?sl" using Suc.prems m by (simp add: aget_def)
  have same: "p\<lparr>slots := slots p\<rparr> = p" by simp
  from Suc.prems(4) obtain fl where free: "buffer_state ?sl = Free" and run: "run_ops free_excess_slot [m + 1..63] (fl, ?p) = Inr (flags', p')"
    unfolding m(3) using Suc.prems(1,2) m(1)
    by (auto simp: free_excess_slot_def g bind_run_eq_Inr ensure_eq_Inr core_FreeBufferLocked_def upd_slot_eq excess_slot_def
        split: if_splits)
  have rest: "slots ?p ! i = (if i = nat m then excess_slot m i ?sl else slots p ! i)" if "i < 64" for i
    using that Suc.prems(1) by simp
  from Suc.hyps(1) [OF m(2) _ _ _ run] Suc.prems m(1)
  have ih: "\<forall>i < 64. m + 1 \<le> int i \<longrightarrow> buffer_state (slots ?p ! i) = Free"
    "p' = ?p\<lparr>slots := map (\<lambda>i. excess_slot (m + 1) i (slots ?p ! i)) [0..<64]\<rparr>" by simp_all
  have "map (\<lambda>i. excess_slot (m + 1) i (slots ?p ! i)) [0..<64] = map (\<lambda>i. excess_slot m i (slots p ! i)) [0..<64]"
    using rest Suc.prems(2) by (intro map_cong refl) (auto simp: excess_slot_def simp del: BufferQueueCore.simps)
  moreover have "buffer_state (slots p ! i) = Free" if "i < 64" "m \<le> int i" for i
    using ih(1) [rule_format, of i] rest [of i] that free by (cases "i = nat m") auto
  ultimately show ?case using ih(2) by auto
qed

text \<open>What happens between the start of a wait and the moment it ends: rounds of the consumer, and before each sleep the
  release of excess buffers.\<close>

inductive wait_rounds :: "bool \<Rightarrow> ConsumerOp list list \<Rightarrow> bq \<Rightarrow> bq \<Rightarrow> bool" for async where
  here: "wait_rounds async [] p p"
| tidy: "excess_freed async p q \<Longrightarrow> wait_rounds async rounds q r \<Longrightarrow> wait_rounds async rounds p r"
| woken: "dequeue_possible p \<Longrightarrow> wait_rounds async rounds (p\<lparr>dequeue_possible := False\<rparr>) r \<Longrightarrow> wait_rounds async rounds p r"
| consumer: "run_ops consumer_step ops p = Inr q \<Longrightarrow> wait_rounds async rounds q r \<Longrightarrow> wait_rounds async (ops # rounds) p r"

lemma wait_rounds_trans:
  "wait_rounds async rounds p q \<Longrightarrow> wait_rounds async rounds' q r \<Longrightarrow> wait_rounds async (rounds @ rounds') p r"
  by (induction rule: wait_rounds.induct) (auto intro: wait_rounds.intros)

text \<open>What the scan of the first \<open>k\<close> slots has found: the free slot with the least frame number, the first of them.\<close>

definition oldest_free :: "BufferSlot list \<Rightarrow> nat \<Rightarrow> s32 \<Rightarrow> bool" where
  "oldest_free sls k f \<longleftrightarrow>
     0 \<le> f \<and> f < int k \<and> buffer_state (sls ! nat f) = Free \<and>
     (\<forall>j < k. buffer_state (sls ! j) = Free \<longrightarrow>
        slot_frame_number (sls ! nat f) \<le> slot_frame_number (sls ! j) \<and>
        (j < nat f \<longrightarrow> slot_frame_number (sls ! nat f) < slot_frame_number (sls ! j)))"

definition scan_ok :: "BufferSlot list \<Rightarrow> nat \<Rightarrow> slot_scan \<Rightarrow> bool" where
  "scan_ok sls k scan \<longleftrightarrow>
     (if found scan = INVALID_BUFFER_SLOT then \<forall>j < k. buffer_state (sls ! j) \<noteq> Free else oldest_free sls k (found scan)) \<and>
     dequeued_count scan = int (length (filter (\<lambda>sl. buffer_state sl = Dequeued) (take k sls))) \<and>
     acquired_count scan = int (length (filter (\<lambda>sl. buffer_state sl = Acquired) (take k sls)))"

lemma oldest_free_cong:
  assumes eq: "\<forall>i < k. sls' ! i = sls ! i"
  shows "oldest_free sls' k f \<longleftrightarrow> oldest_free sls k f"
proof (cases "0 \<le> f \<and> f < int k")
  case True
  then have "nat f < k" by (simp add: nat_less_iff)
  then show ?thesis using eq by (simp add: oldest_free_def)
qed (auto simp: oldest_free_def)

lemma oldest_free_first:
  "\<forall>j < k. buffer_state (sls ! j) \<noteq> Free \<Longrightarrow> buffer_state (sls ! k) = Free \<Longrightarrow> oldest_free sls (Suc k) (int k)"
  by (auto simp: oldest_free_def less_Suc_eq)

lemma oldest_free_better:
  "oldest_free sls k f \<Longrightarrow> buffer_state (sls ! k) = Free \<Longrightarrow>
   slot_frame_number (sls ! k) < slot_frame_number (sls ! nat f) \<Longrightarrow> oldest_free sls (Suc k) (int k)"
  by (fastforce simp: oldest_free_def less_Suc_eq)

lemma oldest_free_keep:
  "oldest_free sls k f \<Longrightarrow>
   buffer_state (sls ! k) \<noteq> Free \<or> \<not> slot_frame_number (sls ! k) < slot_frame_number (sls ! nat f) \<Longrightarrow>
   oldest_free sls (Suc k) f"
  by (auto simp: oldest_free_def less_Suc_eq not_less nat_less_iff)

lemma scan_slot_ok:
  assumes ok: "scan_ok (slots p) k scan" and len: "length (slots p) = 64" and k: "k < 64"
  shows "\<exists>scan'. scan_slot p (int k) scan = Inr scan' \<and> scan_ok (slots p) (Suc k) scan'"
proof -
  have g: "aget (slots p) (int k) = Inr (slots p ! k)" using len k by simp
  have tk: "take (Suc k) (slots p) = take k (slots p) @ [slots p ! k]" using len k by (simp add: take_Suc_conv_app_nth)
  show ?thesis
  proof (cases "found scan = INVALID_BUFFER_SLOT")
    case True
    then have none: "\<forall>j < k. buffer_state (slots p ! j) \<noteq> Free" using ok by (simp add: scan_ok_def)
    show ?thesis
      using ok none oldest_free_first [OF none]
      by (cases "buffer_state (slots p ! k)")
        (auto simp: scan_slot_def g True scan_ok_def tk less_Suc_eq INVALID_BUFFER_SLOT_def split: if_splits)
  next
    case False
    then have old: "oldest_free (slots p) k (found scan)" using ok by (simp add: scan_ok_def)
    have kv: "int k \<noteq> INVALID_BUFFER_SLOT" by (simp add: INVALID_BUFFER_SLOT_def)
    from old have f: "aget (slots p) (found scan) = Inr (slots p ! nat (found scan))"
      using len k by (simp add: oldest_free_def aget_def)
    show ?thesis
      using ok old oldest_free_keep [OF old] oldest_free_better [OF old]
      by (cases "buffer_state (slots p ! k)")
        (auto simp: scan_slot_def g f False kv scan_ok_def tk)
  qed
qed

lemma scan_slots_ok:
  assumes len: "length (slots p) = 64"
  shows "k \<le> 64 \<Longrightarrow> \<exists>scan. run_ops (scan_slot p) [0..int k - 1]
    \<lparr>found = INVALID_BUFFER_SLOT, dequeued_count = 0, acquired_count = 0\<rparr> = Inr scan \<and> scan_ok (slots p) k scan"
proof (induction k)
  case 0
  show ?case by (simp add: scan_ok_def)
next
  case (Suc k)
  then obtain scan where "run_ops (scan_slot p) [0..int k - 1]
      \<lparr>found = INVALID_BUFFER_SLOT, dequeued_count = 0, acquired_count = 0\<rparr> = Inr scan" "scan_ok (slots p) k scan"
    by auto
  moreover have "[0..int (Suc k) - 1] = [0..int k - 1] @ [int k]" by (simp add: upto_rec2)
  ultimately show ?case
    using scan_slot_ok [OF _ len, of k scan] Suc.prems by (auto simp: run_ops_append)
qed

lemma try_free_slot_ok:
  assumes ok: "bq_ok w p"
  shows "run_ok (\<lambda>(st, f, flags', p'). bq_ok w p' \<and> (\<exists>sls. p' = p\<lparr>slots := sls\<rparr>) \<and>
      (st = None \<or> st = Some NoError \<longrightarrow> excess_freed async p p') \<and>
      (st = Some NoError \<longrightarrow> (\<exists>m. GetMaxBufferCountLocked async p = Inr m \<and> m \<le> 64 \<and> oldest_free (slots p) (nat m) f \<and>
         (\<forall>i < nat m. slots p' ! i = slots p ! i) \<and> \<not> is_abandoned p)))
    (try_free_slot async flags p)" (is "run_ok ?P _")
proof (cases "is_abandoned p")
  case True
  then show ?thesis using ok slots_update_self by (auto simp: try_free_slot_def Status_defs)
next
  case na: False
  obtain m where m: "GetMaxBufferCountLocked async p = Inr m" "0 < m" "m \<le> 64"
    using GetMaxBufferCountLocked_ok [OF ok] by blast
  show ?thesis
  proof (cases "async \<and> override_max_buffer_count p \<noteq> 0 \<and> override_max_buffer_count p < m")
    case True
    then show ?thesis using ok na m slots_update_self by (auto simp: try_free_slot_def Status_defs)
  next
    case False
    have ex: "run_ok (\<lambda>(flags', p'). bq_ok w p' \<and> (\<exists>sls. p' = p\<lparr>slots := sls\<rparr>) \<and> (\<forall>i < nat m. slots p' ! i = slots p ! i))
        (run_ops free_excess_slot [m..NUM_BUFFER_SLOTS - 1] (flags, p))"
      using m by (intro free_excess_ok [OF ok]) simp_all
    show ?thesis
    proof (cases "run_ops free_excess_slot [m..NUM_BUFFER_SLOTS - 1] (flags, p)")
      case (Inl e)
      then show ?thesis using ex na False by (auto simp: try_free_slot_def m)
    next
      case (Inr fp)
      obtain flags1 p1 where fp: "fp = (flags1, p1)" by (cases fp)
      with ex Inr have p1: "bq_ok w p1" "\<exists>sls. p1 = p\<lparr>slots := sls\<rparr>" "\<forall>i < nat m. slots p1 ! i = slots p ! i"
        by simp_all
      have ef: "excess_freed async p p1"
        using free_excess_slots_eq [OF bq_okD(1) [OF ok], of m flags flags1 p1] Inr m
        by (auto simp: excess_freed_def fp NUM_BUFFER_SLOTS_def)
      obtain scan where scan: "run_ops (scan_slot p1) [0..m - 1]
          \<lparr>found = INVALID_BUFFER_SLOT, dequeued_count = 0, acquired_count = 0\<rparr> = Inr scan" "scan_ok (slots p1) (nat m) scan"
        using scan_slots_ok [OF bq_okD(1) [OF p1(1)], of "nat m"] m by (auto simp: nat_le_iff)
      have "oldest_free (slots p) (nat m) (found scan)" if "found scan \<noteq> INVALID_BUFFER_SLOT"
        using scan(2) that oldest_free_cong [OF p1(3)] by (simp add: scan_ok_def)
      then have good: "?P (Some NoError, found scan, flags1, p1)" if "found scan \<noteq> INVALID_BUFFER_SLOT"
        using p1 m that na ef by simp
      have bad: "?P (st, found scan, flags1, p1)" if "st \<noteq> Some NoError" for st
        using p1 that ef by simp
      have "\<exists>st. try_free_slot async flags p = Inr (st, found scan, flags1, p1) \<and>
          (st = Some NoError \<longrightarrow> found scan \<noteq> INVALID_BUFFER_SLOT)"
        using na by (simp add: try_free_slot_def m Inr fp scan(1) Let_def if_not_P [OF False] Status_defs)
      then obtain st where st: "try_free_slot async flags p = Inr (st, found scan, flags1, p1)"
        "st = Some NoError \<longrightarrow> found scan \<noteq> INVALID_BUFFER_SLOT" by blast
      show ?thesis
        unfolding st(1) run_ok_Inr by (cases "st = Some NoError") (use st(2) good bad in simp_all)
    qed
  qed
qed

lemma consumer_frame_slots [simp]: "consumer_frame c (c\<lparr>slots := sls\<rparr>)"
  by (simp add: consumer_frame_def)

lemma sleep_rounds_ok:
  assumes "bq_ok w p"
  shows "run_ok (\<lambda>r. \<forall>p' rounds'. r = Returned (p', rounds') \<or> r = Blocked p' \<longrightarrow> bq_ok w p' \<and> consumer_frame p p') (sleep_rounds rounds p)"
  using assms
proof (induction rounds arbitrary: p)
  case Nil
  then show ?case
    by (subst sleep_rounds.simps) (auto simp: WaitForDequeueCondition_def consumer_frame_def bq_ok_def)
next
  case (Cons r rs)
  show ?case
  proof (cases "dequeue_possible p")
    case True
    then show ?thesis using Cons.prems
      by (subst sleep_rounds.simps) (auto simp: WaitForDequeueCondition_def consumer_frame_def bq_ok_def)
  next
    case False
    have "run_ok (\<lambda>r. \<forall>p' rounds'. r = Returned (p', rounds') \<or> r = Blocked p' \<longrightarrow> bq_ok w p' \<and> consumer_frame p p')
        (bind_run (run_ops consumer_step r p) (sleep_rounds rs))"
    proof (rule run_ok_bind [OF consumer_steps_ok [OF Cons.prems]])
      fix p1 assume p1: "bq_ok w p1 \<and> consumer_frame p p1"
      then have "run_ok (\<lambda>r. \<forall>p' rounds'. r = Returned (p', rounds') \<or> r = Blocked p' \<longrightarrow> bq_ok w p' \<and> consumer_frame p1 p') (sleep_rounds rs p1)"
        by (intro Cons.IH) simp
      then show "run_ok (\<lambda>r. \<forall>p' rounds'. r = Returned (p', rounds') \<or> r = Blocked p' \<longrightarrow> bq_ok w p' \<and> consumer_frame p p') (sleep_rounds rs p1)"
        by (rule run_ok_mono) (use p1 consumer_frame_trans in blast)
    qed
    then show ?thesis
      using False by (subst sleep_rounds.simps) (simp add: WaitForDequeueCondition_def)
  qed
qed

lemma sleep_rounds_wait:
  "sleep_rounds rounds p = Inr (Returned (p', rounds')) \<Longrightarrow>
   \<exists>k \<le> length rounds. rounds' = drop k rounds \<and> wait_rounds async (take k rounds) p p'"
proof (induction rounds arbitrary: p)
  case Nil
  then show ?case
    by (subst (asm) sleep_rounds.simps)
      (auto simp: WaitForDequeueCondition_def intro!: woken here split: if_splits)
next
  case (Cons r rs)
  show ?case
  proof (cases "dequeue_possible p")
    case True
    with Cons.prems have "p' = p\<lparr>dequeue_possible := False\<rparr> \<and> rounds' = r # rs"
      by (subst (asm) sleep_rounds.simps) (simp add: WaitForDequeueCondition_def)
    then show ?thesis using True by (intro exI [of _ 0]) (auto intro!: woken here)
  next
    case False
    with Cons.prems obtain p1 where "run_ops consumer_step r p = Inr p1" "sleep_rounds rs p1 = Inr (Returned (p', rounds'))"
      by (subst (asm) sleep_rounds.simps) (auto simp: WaitForDequeueCondition_def bind_run_eq_Inr)
    moreover from Cons.IH [OF this(2)] obtain k where "k \<le> length rs" "rounds' = drop k rs" "wait_rounds async (take k rs) p1 p'" by blast
    ultimately show ?thesis by (intro exI [of _ "Suc k"]) (auto intro: consumer)
  qed
qed

text \<open>A wait that ends well leaves the producer with the oldest of the free slots.\<close>

definition free_slot_found :: "bool \<Rightarrow> bq \<Rightarrow> bq \<Rightarrow> s32 \<Rightarrow> bool" where
  "free_slot_found async p p' f \<longleftrightarrow>
     \<not> is_abandoned p \<and> excess_freed async p p' \<and>
     (\<exists>m \<le> 64. GetMaxBufferCountLocked async p = Inr m \<and> oldest_free (slots p) (nat m) f \<and>
        (\<forall>i < nat m. slots p' ! i = slots p ! i))"

lemma free_slot_foundD:
  assumes "free_slot_found async p p' f"
  shows "0 \<le> f" "f < 64" "buffer_state (slots p' ! nat f) = Free" "\<not> is_abandoned p'"
proof -
  obtain m where m: "m \<le> 64" "oldest_free (slots p) (nat m) f" "\<forall>i < nat m. slots p' ! i = slots p ! i"
    using assms by (auto simp: free_slot_found_def)
  then show "0 \<le> f" "f < 64" by (auto simp: oldest_free_def split: if_splits)
  have "oldest_free (slots p') (nat m) f" using m(2) by (simp add: oldest_free_cong [OF m(3)])
  then show "buffer_state (slots p' ! nat f) = Free" by (simp add: oldest_free_def)
  show "\<not> is_abandoned p'" using assms by (auto simp: free_slot_found_def excess_freed_def)
qed

definition wait_found :: "bool \<Rightarrow> ConsumerOp list list \<Rightarrow> bq \<Rightarrow> bq \<Rightarrow> s32 \<Rightarrow> bool" where
  "wait_found async rounds p p' f \<longleftrightarrow>
     (\<exists>k \<le> length rounds. \<exists>q. wait_rounds async (take k rounds) p q \<and> free_slot_found async q p' f)"

lemma wait_found_now: "free_slot_found async p p' f \<Longrightarrow> wait_found async rounds p p' f"
  unfolding wait_found_def by (intro exI [of _ 0] conjI exI [of _ p]) (auto intro: here)

lemma wait_found_later:
  assumes wr: "k \<le> length rounds" "wait_rounds async (take k rounds) p q" and f: "wait_found async (drop k rounds) q p' f"
  shows "wait_found async rounds p p' f"
proof -
  from f obtain j r where j: "j \<le> length (drop k rounds)" "wait_rounds async (take j (drop k rounds)) q r" "free_slot_found async r p' f"
    unfolding wait_found_def by blast
  have "take (k + j) rounds = take k rounds @ take j (drop k rounds)" by (simp add: take_add)
  then show ?thesis
    using j wr(1) wait_rounds_trans [OF wr(2) j(2)] unfolding wait_found_def by (intro exI [of _ "k + j"] conjI exI [of _ r]) simp_all
qed

lemma WaitForFreeSlot_ok:
  assumes "bq_ok w p"
  shows "run_ok (\<lambda>r. case r of Blocked p' \<Rightarrow> bq_ok w p' \<and> consumer_frame p p'
      | Returned (st, f, flags', p') \<Rightarrow> bq_ok w p' \<and> consumer_frame p p' \<and> 
         (st = NoError \<longrightarrow> wait_found async rounds p p' f)) (WaitForFreeSlotThenRelock async rounds flags p)" (is "run_ok (?P async rounds p) _")
  using assms
proof (induction async rounds flags p rule: WaitForFreeSlotThenRelock.induct)
  case (1 async rounds flags p)
  note tr = try_free_slot_ok [OF 1(2), of async flags]
  show ?case
  proof (cases "try_free_slot async flags p")
    case (Inl e)
    then show ?thesis using tr by (subst WaitForFreeSlotThenRelock.simps) simp
  next
    case (Inr r)
    obtain st f flags1 p1 where r: "r = (st, f, flags1, p1)" by (cases r)
    have ok1: "bq_ok w p1" and ex: "\<exists>sls. p1 = p\<lparr>slots := sls\<rparr>"
      and ef: "st = None \<or> st = Some NoError \<longrightarrow> excess_freed async p p1"
      and fnd: "st = Some NoError \<longrightarrow> (\<exists>m. GetMaxBufferCountLocked async p = Inr m \<and> m \<le> 64 \<and> oldest_free (slots p) (nat m) f \<and>
         (\<forall>i < nat m. slots p1 ! i = slots p ! i) \<and> \<not> is_abandoned p)"
      using tr by (auto simp only: Inr r run_ok_Inr prod.case)
    from ex obtain sls where p1: "p1 = p\<lparr>slots := sls\<rparr>" ..
    show ?thesis
    proof (cases st)
      case (Some s)
      have "free_slot_found async p p1 f" if "s = NoError"
        using fnd Some that ef by (auto simp: free_slot_found_def)
      then have "wait_found async rounds p p1 f" if "s = NoError" using that wait_found_now by blast
      moreover have "consumer_frame p p1" using p1 by simp
      ultimately show ?thesis
        using ok1 by (subst WaitForFreeSlotThenRelock.simps) (simp add: Inr r Some)
    next
      case None
      note sl = sleep_rounds_ok [OF ok1, of rounds]
      show ?thesis
      proof (cases "sleep_rounds rounds p1")
        case (Inl e)
        then show ?thesis using sl by (subst WaitForFreeSlotThenRelock.simps) (simp add: Inr r None)
      next
        case sr: (Inr o')
        show ?thesis
        proof (cases o')
          case (Blocked p2)
          have "bq_ok w p2" "consumer_frame p1 p2" using sl by (simp_all add: sr Blocked)
          moreover have "consumer_frame p p1" by (simp add: p1)
          ultimately show ?thesis
            using consumer_frame_trans [of p p1 p2]
            by (subst WaitForFreeSlotThenRelock.simps) (simp add: Inr r None sr Blocked)
        next
          case (Returned pr)
          obtain p2 rounds2 where pr: "pr = (p2, rounds2)" by (cases pr)
          have p2: "bq_ok w p2" "consumer_frame p1 p2" using sl by (simp_all add: sr Returned pr)
          have pp2: "consumer_frame p p2" using p2(2) consumer_frame_trans [of p p1 p2] p1 by simp
          obtain k where k: "k \<le> length rounds" "rounds2 = drop k rounds" "wait_rounds async (take k rounds) p1 p2"
            using sleep_rounds_wait [of rounds p1 p2 rounds2 async] sr Returned pr by auto
          have wr: "wait_rounds async (take k rounds) p p2" using ef None k(3) by (auto intro: tidy)
          have "run_ok (?P async rounds2 p2) (WaitForFreeSlotThenRelock async rounds2 flags1 p2)"
            by (rule 1(1) [of r st "(f, flags1, p1)" f "(flags1, p1)"]) (use Inr r None sr Returned pr p2(1) in auto)
          then have "run_ok (?P async rounds p) (WaitForFreeSlotThenRelock async rounds2 flags1 p2)"
            by (rule run_ok_mono) (use consumer_frame_trans [OF pp2] wait_found_later [OF k(1) wr] k(2) in \<open>auto split: blocking.splits\<close>)
          then show ?thesis by (subst WaitForFreeSlotThenRelock.simps) (simp add: Inr r None sr Returned pr)
        qed
      qed
    qed
  qed
qed

section \<open>The invariant under producer operations\<close>

text \<open>What every operation except \<^verbatim>\<open>QueueBuffer\<close> and \<^verbatim>\<open>Connect\<close> leaves alone.\<close>

definition keeps :: "bq \<Rightarrow> bq \<Rightarrow> bool" where
  "keeps p p' \<longleftrightarrow>
     frame_counter p' = frame_counter p \<and> next_callback_ticket p' = next_callback_ticket p \<and>
     current_callback_ticket p' = current_callback_ticket p \<and>
     dequeue_buffer_cannot_block p' = dequeue_buffer_cannot_block p \<and> (\<exists>gone. queue p = gone @ queue p')"

lemma keeps_refl [simp]: "keeps p p"
  by (simp add: keeps_def)

lemma keeps_trans: "keeps a b \<Longrightarrow> keeps b c \<Longrightarrow> keeps a c"
  by (auto simp: keeps_def)

lemma consumer_frame_keeps:
  fixes p p' :: bq
  shows "consumer_frame p p' \<Longrightarrow> keeps p p'"
  by (cases p; cases p') (simp add: consumer_frame_def keeps_def)

lemma RequestBuffer_ok:
  assumes ok: "bq_ok {} p"
  shows "run_ok (\<lambda>(_, _, p'). bq_ok {} p' \<and> keeps p p') (RequestBuffer slot p)"
proof (cases "is_abandoned p \<or> slot < 0 \<or> slot \<ge> NUM_BUFFER_SLOTS")
  case True
  then show ?thesis using ok by (auto simp: RequestBuffer_def)
next
  case False
  then have sl: "0 \<le> slot" "slot < 64" by (simp_all add: NUM_BUFFER_SLOTS_def)
  have g: "aget (slots p) slot = Inr (slots p ! nat slot)" using bq_okD(1) [OF ok] sl by (simp add: aget_def)
  have so: "slot_ok (is_abandoned p) (length (graphic_buffers p)) {} (queue p) (nat slot) (slots p ! nat slot)"
    using bq_okD(6) [OF ok, of "nat slot"] sl by simp
  have "bq_ok {} (p\<lparr>slots := (slots p)[nat slot := (slots p ! nat slot)\<lparr>request_buffer_called := True\<rparr>]\<rparr>)"
    by (rule bq_ok_slot [OF ok sl slot_ok_same [OF so]]) (simp_all add: acquired_def)
  then show ?thesis
    using False ok by (auto simp: RequestBuffer_def g upd_slot_eq [OF bq_okD(1) [OF ok] sl] keeps_def)
qed

lemma SetBufferCount_ok:
  assumes ok: "bq_ok {} p"
  shows "run_ok (\<lambda>(_, p'). bq_ok {} p' \<and> keeps p p') (SetBufferCount n p)"
proof -
  have "bq_ok {} (p\<lparr>override_max_buffer_count := n, slots := map free_slot (slots p)\<rparr>)" if "0 \<le> n" "n \<le> NUM_BUFFER_SLOTS" for n
    using bq_ok_FreeAll [OF ok] that by (simp add: bq_ok_def)
  moreover have "bq_ok {} (p\<lparr>override_max_buffer_count := n\<rparr>)" if "0 \<le> n" "n \<le> NUM_BUFFER_SLOTS" for n
    using ok that by (simp add: bq_ok_def)
  ultimately show ?thesis
    using ok bq_okD(1,2) [OF ok]
    by (auto simp: SetBufferCount_def WaitWhileAllocatingLocked_def FreeAllBuffersLocked_eq Let_def keeps_def bq_ok_def
        SignalDequeueCondition_def call_back_def NUM_BUFFER_SLOTS_def GetMinMaxBufferCountLocked_def
        GetMinUndequeuedBufferCountLocked_def use_async_buffer_def split: option.splits)
qed

lemma free_one_ok:
  assumes ok: "bq_ok w p" and sl: "0 \<le> slot" "slot < 64"
  shows "bq_ok w (p\<lparr>slots := (slots p)[nat slot := free_slot (slots p ! nat slot)]\<rparr>)"
  by (rule bq_ok_slot [OF ok sl]) (simp_all add: acquired_def)

lemma DetachBuffer_ok:
  assumes ok: "bq_ok {} p"
  shows "run_ok (\<lambda>(_, p'). bq_ok {} p' \<and> keeps p p') (DetachBuffer slot p)"
proof (cases "is_abandoned p \<or> slot < 0 \<or> slot \<ge> NUM_BUFFER_SLOTS")
  case True
  then show ?thesis using ok by (auto simp: DetachBuffer_def)
next
  case False
  then have sl: "0 \<le> slot" "slot < 64" by (simp_all add: NUM_BUFFER_SLOTS_def)
  have g: "aget (slots p) slot = Inr (slots p ! nat slot)" using bq_okD(1) [OF ok] sl by (simp add: aget_def)
  show ?thesis
    using False ok free_one_ok [OF ok sl]
    by (auto simp: DetachBuffer_def g core_FreeBufferLocked_def upd_slot_eq [OF bq_okD(1) [OF ok] sl] keeps_def)
      (simp_all add: SignalDequeueCondition_def)
qed

lemma oldest_valid_ok:
  assumes ok: "bq_ok {} p"
  shows "run_ok (\<lambda>f. f = INVALID_BUFFER_SLOT \<or> 0 \<le> f \<and> f < 64)
    (run_ops (oldest_valid p) [0..NUM_BUFFER_SLOTS - 1] INVALID_BUFFER_SLOT)"
proof (rule run_ok_ops)
  fix f s assume "f = INVALID_BUFFER_SLOT \<or> 0 \<le> f \<and> f < 64" "s \<in> set [0..NUM_BUFFER_SLOTS - 1]"
  then show "run_ok (\<lambda>f. f = INVALID_BUFFER_SLOT \<or> 0 \<le> f \<and> f < 64) (oldest_valid p s f)"
    using bq_okD(1) [OF ok] by (auto simp: oldest_valid_def aget_def NUM_BUFFER_SLOTS_def)
qed simp

lemma DetachNextBuffer_ok:
  assumes ok: "bq_ok {} p"
  shows "run_ok (\<lambda>(_, _, p'). bq_ok {} p' \<and> keeps p p') (DetachNextBuffer a b p)"
proof (cases "\<not> a \<or> \<not> b \<or> is_abandoned p")
  case True
  then show ?thesis using ok bq_okD(2) [OF ok] by (auto simp: DetachNextBuffer_def WaitWhileAllocatingLocked_def)
next
  case False
  have "run_ok (\<lambda>(_, _, p'). bq_ok {} p' \<and> keeps p p') (if f = INVALID_BUFFER_SLOT then Inr (NoMemory, None, p)
      else bind_run (aget (slots p) f) (\<lambda>sl. bind_run (core_FreeBufferLocked f p) (\<lambda>p.
        Inr (NoError, Some (slot_graphic_buffer sl, slot_fence sl), p))))"
    if "f = INVALID_BUFFER_SLOT \<or> 0 \<le> f \<and> f < 64" for f
    using that ok free_one_ok [OF ok, of f] bq_okD(1) [OF ok]
    by (auto simp: aget_def core_FreeBufferLocked_def upd_slot_eq keeps_def)
  then have "run_ok (\<lambda>(_, _, p'). bq_ok {} p' \<and> keeps p p')
      (bind_run (run_ops (oldest_valid p) [0..NUM_BUFFER_SLOTS - 1] INVALID_BUFFER_SLOT) (\<lambda>f.
        if f = INVALID_BUFFER_SLOT then Inr (NoMemory, None, p)
        else bind_run (aget (slots p) f) (\<lambda>sl. bind_run (core_FreeBufferLocked f p) (\<lambda>p.
          Inr (NoError, Some (slot_graphic_buffer sl, slot_fence sl), p)))))"
    by (rule run_ok_bind [OF oldest_valid_ok [OF ok]])
  then show ?thesis
    using False bq_okD(2) [OF ok] by (simp add: DetachNextBuffer_def WaitWhileAllocatingLocked_def)
qed

lemma CancelBuffer_ok:
  assumes ok: "bq_ok {} p"
  shows "run_ok (\<lambda>p'. bq_ok {} p' \<and> keeps p p') (CancelBuffer slot fence p)"
proof (cases "is_abandoned p \<or> slot < 0 \<or> slot \<ge> NUM_BUFFER_SLOTS")
  case True
  then show ?thesis using ok by (auto simp: CancelBuffer_def)
next
  case False
  then have sl: "0 \<le> slot" "slot < 64" by (simp_all add: NUM_BUFFER_SLOTS_def)
  have g: "aget (slots p) slot = Inr (slots p ! nat slot)" using bq_okD(1) [OF ok] sl by (simp add: aget_def)
  have so: "slot_ok (is_abandoned p) (length (graphic_buffers p)) {} (queue p) (nat slot) (slots p ! nat slot)"
    using bq_okD(6) [OF ok, of "nat slot"] sl by simp
  have "bq_ok {} (p\<lparr>slots := (slots p)[nat slot :=
      (slots p ! nat slot)\<lparr>buffer_state := Free, slot_frame_number := 0, slot_fence := fence\<rparr>]\<rparr>)"
    if "buffer_state (slots p ! nat slot) = Dequeued"
    by (rule bq_ok_slot [OF ok sl slot_ok_move [OF so]]) (simp_all add: acquired_def that)
  then show ?thesis
    using False ok
    by (auto simp: CancelBuffer_def g upd_slot_eq [OF bq_okD(1) [OF ok] sl] keeps_def SignalDequeueCondition_def bq_ok_def)
qed

lemma producer_Disconnect_ok:
  assumes ok: "bq_ok {} p"
  shows "run_ok (\<lambda>(_, p'). bq_ok {} p' \<and> keeps p p') (producer_Disconnect api p)"
proof -
  have "bq_ok {} (p\<lparr>queue := [], slots := map free_slot (slots p)\<rparr>)"
    using bq_ok_FreeAll [OF ok] by (auto simp: bq_ok_def filter_map o_def acquired_def)
  then show ?thesis
    using ok bq_okD(1,2) [OF ok]
    by (auto simp: producer_Disconnect_def WaitWhileAllocatingLocked_def FreeAllBuffersLocked_eq Let_def keeps_def bq_ok_def
        SignalDequeueCondition_def call_back_def split: option.splits)
qed

text \<open>The producer takes a free slot.  While it allocates, the slot is in the window.\<close>

lemma bq_ok_open_window:
  assumes "bq_ok {} p" "buffer_state (slots p ! nat f) \<noteq> Queued" "0 \<le> f"
  shows "bq_ok {f} p"
  using assms by (auto simp: bq_ok_def slot_ok_def)

lemma bq_ok_close_window:
  assumes "bq_ok {f} p" "is_abandoned p \<or> slot_graphic_buffer (slots p ! nat f) \<noteq> None"
  shows "bq_ok {} p"
  using assms by (auto simp: bq_ok_def slot_ok_def)

definition fits :: "GraphicBuffer \<Rightarrow> u32 \<Rightarrow> u32 \<Rightarrow> PixelFormat \<Rightarrow> u32 \<Rightarrow> bool" where
  "fits gb width height format usage \<longleftrightarrow>
     gb_Width gb = width \<and> gb_Height gb = height \<and> gb_Format gb = format \<and> gb_Usage gb AND usage = usage"

lemma needs_reallocation_ok:
  assumes "\<forall>b. buf = Some b \<longrightarrow> b < length (graphic_buffers p)"
  shows "\<exists>r. needs_reallocation buf w h f u p = Inr r \<and> (\<not> r \<longrightarrow> (\<exists>b. buf = Some b \<and> fits (graphic_buffers p ! b) w h f u))"
  using assms by (auto simp: needs_reallocation_def fits_def split: option.splits)

lemma dequeue_slot_ok:
  assumes ok: "bq_ok {} p" and f: "0 \<le> f" "f < 64" and st: "buffer_state (slots p ! nat f) = Free"
  shows "\<exists>realloc fence sls. dequeue_slot f w h fmt u p = Inr (realloc, fence, p\<lparr>slots := sls\<rparr>) \<and>
    bq_ok {f} (p\<lparr>slots := sls\<rparr>) \<and> (\<not> realloc \<longrightarrow> bq_ok {} (p\<lparr>slots := sls\<rparr>)) \<and>
    buffer_state (sls ! nat f) = Dequeued \<and> (\<forall>j. j \<noteq> nat f \<longrightarrow> sls ! j = slots p ! j) \<and>
    (\<not> realloc \<longrightarrow> slot_graphic_buffer (sls ! nat f) = slot_graphic_buffer (slots p ! nat f) \<and>
       (\<exists>b. slot_graphic_buffer (sls ! nat f) = Some b \<and> fits (graphic_buffers p ! b) w h fmt u))"
proof -
  let ?i = "nat f" and ?sl = "slots p ! nat f"
  have len: "length (slots p) = 64" by (rule bq_okD(1) [OF ok])
  have so: "slot_ok (is_abandoned p) (length (graphic_buffers p)) {} (queue p) ?i ?sl"
    using bq_okD(6) [OF ok, of ?i] f by simp
  then have "\<forall>b. slot_graphic_buffer ?sl = Some b \<longrightarrow> b < length (graphic_buffers p)" by (simp add: slot_ok_def)
  from needs_reallocation_ok [OF this] obtain r
    where r: "needs_reallocation (slot_graphic_buffer ?sl) w h fmt u p = Inr r"
      "\<not> r \<longrightarrow> (\<exists>b. slot_graphic_buffer ?sl = Some b \<and> fits (graphic_buffers p ! b) w h fmt u)"
    by blast
  have r': "needs_reallocation (slot_graphic_buffer ?sl) w h fmt u (p\<lparr>slots := sls\<rparr>) = Inr r" for sls
    using r(1) by (simp add: needs_reallocation_def split: option.splits)
  have okw: "bq_ok {f} p" using bq_ok_open_window [OF ok _ f(1)] st by simp
  show ?thesis
  proof (cases r)
    case True
    let ?v = "?sl\<lparr>buffer_state := Dequeued, slot_acquire_called := False, slot_graphic_buffer := None,
      request_buffer_called := False, slot_fence := NoFence\<rparr>"
    have "bq_ok {f} (p\<lparr>slots := (slots p)[?i := ?v]\<rparr>)"
      by (rule bq_ok_slot [OF okw f]) (use f in \<open>simp_all add: slot_ok_def trackers_None acquired_def\<close>)
    moreover have "dequeue_slot f w h fmt u p = Inr (True, NoFence, p\<lparr>slots := (slots p)[?i := ?v]\<rparr>)"
      using f len True by (simp add: dequeue_slot_def upd_slot_eq aget_def r')
    ultimately show ?thesis
      using f len by (intro exI [of _ True] exI [of _ NoFence] exI [of _ "(slots p)[?i := ?v]"]) simp
  next
    case False
    let ?v = "?sl\<lparr>buffer_state := Dequeued, slot_fence := NoFence\<rparr>"
    have tr: "trackers ?v ?i (queue p) = 0"
      using so st trackers_cong [of ?v ?sl] by (simp add: slot_ok_def)
    have v: "slot_ok (is_abandoned p) (length (graphic_buffers p)) wd (queue p) ?i ?v" for wd
      using so r(2) False tr by (auto simp: slot_ok_def)
    have "bq_ok {} (p\<lparr>slots := (slots p)[?i := ?v]\<rparr>)" "bq_ok {f} (p\<lparr>slots := (slots p)[?i := ?v]\<rparr>)"
      using bq_ok_slot [OF ok f v] bq_ok_slot [OF okw f v] by (simp_all add: acquired_def)
    moreover have "dequeue_slot f w h fmt u p = Inr (False, slot_fence ?sl, p\<lparr>slots := (slots p)[?i := ?v]\<rparr>)"
      using f len False by (simp add: dequeue_slot_def upd_slot_eq aget_def r')
    ultimately show ?thesis
      using f len r(2) False by (intro exI [of _ False] exI [of _ "slot_fence ?sl"] exI [of _ "(slots p)[?i := ?v]"]) simp
  qed
qed

lemma install_buffer_ok:
  assumes ok: "bq_ok {f} p" and f: "0 \<le> f" "f < 64"
  shows "\<exists>st p'. install_buffer f gb p = Inr (st, p') \<and> bq_ok {} p' \<and> keeps p p'"
proof -
  let ?n = "length (graphic_buffers p)" and ?i = "nat f"
  let ?p = "p\<lparr>graphic_buffers := graphic_buffers p @ [gb]\<rparr>"
  have grow: "bq_ok {f} ?p" using ok by (fastforce simp: bq_ok_def slot_ok_def item_ok_def)
  show ?thesis
  proof (cases "is_abandoned p")
    case True
    then show ?thesis
      using bq_ok_close_window [OF grow] by (simp add: install_buffer_def keeps_def)
  next
    case False
    let ?v = "(slots p ! ?i)\<lparr>slot_frame_number := 0xFFFFFFFF, slot_graphic_buffer := Some ?n\<rparr>"
    have nq: "buffer_state (slots p ! ?i) \<noteq> Queued" using bq_okD(6) [OF ok, of ?i] f by (simp add: slot_ok_def)
    have tr: "trackers ?v ?i (queue p) = 0"
      using bq_okD(7) [OF ok] by (intro trackers_fresh [of _ ?n]) simp_all
    have "bq_ok {f} (?p\<lparr>slots := (slots ?p)[?i := ?v]\<rparr>)"
      by (rule bq_ok_slot [OF grow f]) (use tr nq in \<open>simp_all add: slot_ok_def acquired_def\<close>)
    then have "bq_ok {} (?p\<lparr>slots := (slots ?p)[?i := ?v]\<rparr>)"
      by (rule bq_ok_close_window) (use f bq_okD(1) [OF ok] in simp)
    then show ?thesis
      using False f bq_okD(1) [OF ok] by (simp add: install_buffer_def upd_slot_eq keeps_def)
  qed
qed

lemma needs_reallocation_flag: "(flags OR BufferNeedsReallocation) AND BufferNeedsReallocation \<noteq> 0"
  by (simp add: BufferNeedsReallocation_def)

lemma dequeue_found_ok:
  assumes ok: "bq_ok {} p" and fnd: "free_slot_found async q p f"
  shows "run_ok (\<lambda>(_, _, p'). bq_ok {} p' \<and> keeps p p') (dequeue_found meanwhile f flags w h fmt u p)"
proof -
  have f: "0 \<le> f" "f < 64" "buffer_state (slots p ! nat f) = Free"
    using free_slot_foundD [OF fnd] by simp_all
  have g: "aget (slots p) f = Inr (slots p ! nat f)" using bq_okD(1) [OF ok] f by (simp add: aget_def)
  define w' h' where "w' = (if w = 0 \<and> h = 0 then default_width p else w)"
    and "h' = (if w = 0 \<and> h = 0 then default_height p else h)"
  obtain realloc fence sls where d: "dequeue_slot f w' h' fmt u p = Inr (realloc, fence, p\<lparr>slots := sls\<rparr>)"
    and okw: "bq_ok {f} (p\<lparr>slots := sls\<rparr>)" and ok0: "\<not> realloc \<longrightarrow> bq_ok {} (p\<lparr>slots := sls\<rparr>)"
    using dequeue_slot_ok [OF ok f] by metis
  have kp: "keeps p (p\<lparr>slots := sls\<rparr>)" by (simp add: keeps_def)
  define flags' where "flags' = (if realloc then flags OR BufferNeedsReallocation else flags)"
  have eq: "dequeue_found meanwhile f flags w h fmt u p =
      (let attached_flags = (if attached_by_consumer (slots p ! nat f) then flags' OR BufferNeedsReallocation else flags')
       in if flags' AND BufferNeedsReallocation \<noteq> 0
          then bind_run (run_ops consumer_step meanwhile (p\<lparr>slots := sls\<rparr>)) (\<lambda>p.
               bind_run (install_buffer f (new_GraphicBuffer w' h' fmt u) p) (\<lambda>(status, p).
                 Inr (if status \<noteq> NoError then status else attached_flags, Some (f, fence), p)))
          else Inr (attached_flags, Some (f, fence), p\<lparr>slots := sls\<rparr>))"
    by (cases realloc; cases "attached_by_consumer (slots p ! nat f)")
      (simp_all add: dequeue_found_def g Let_def w'_def [symmetric] h'_def [symmetric] d flags'_def or.assoc cong: if_cong)
  have inst: "run_ok (\<lambda>(_, _, p'). bq_ok {} p' \<and> keeps p p')
      (bind_run (run_ops consumer_step meanwhile (p\<lparr>slots := sls\<rparr>)) (\<lambda>p.
         bind_run (install_buffer f (new_GraphicBuffer w' h' fmt u) p) (\<lambda>(status, p).
           Inr (if status \<noteq> NoError then status else af, Some (f, fence), p))))" for af
  proof (rule run_ok_bind [OF consumer_steps_ok [OF okw]])
    fix p1 assume p1: "bq_ok {f} p1 \<and> consumer_frame (p\<lparr>slots := sls\<rparr>) p1"
    then have k1: "keeps p p1" using consumer_frame_keeps keeps_trans [OF kp] by blast
    obtain st p2 where "install_buffer f (new_GraphicBuffer w' h' fmt u) p1 = Inr (st, p2)" "bq_ok {} p2" "keeps p1 p2"
      using install_buffer_ok [of f p1] p1 f by blast
    then show "run_ok (\<lambda>(_, _, p'). bq_ok {} p' \<and> keeps p p')
        (bind_run (install_buffer f (new_GraphicBuffer w' h' fmt u) p1) (\<lambda>(status, p).
           Inr (if status \<noteq> NoError then status else af, Some (f, fence), p)))"
      using keeps_trans [OF k1] by simp
  qed
  show ?thesis
  proof (cases realloc)
    case True
    then show ?thesis using inst needs_reallocation_flag by (simp add: eq Let_def flags'_def)
  next
    case False
    then show ?thesis using inst ok0 kp by (simp add: eq Let_def)
  qed
qed

lemma DequeueBuffer_ok:
  assumes ok: "bq_ok {} p"
  shows "run_ok (\<lambda>r. case r of Blocked p' \<Rightarrow> bq_ok {} p' \<and> keeps p p' | Returned (st, out, p') \<Rightarrow> bq_ok {} p' \<and> keeps p p')
    (DequeueBuffer rounds meanwhile async w h fmt u p)" (is "run_ok ?P _")
proof (cases "(w \<noteq> 0 \<and> h = 0) \<or> (w = 0 \<and> h \<noteq> 0)")
  case True
  then show ?thesis using ok by (auto simp: DequeueBuffer_def)
next
  case False
  let ?fmt = "if fmt = NoFormat then default_buffer_format p else fmt" and ?u = "u OR consumer_usage_bit p"
  have "run_ok ?P (bind_run (WaitForFreeSlotThenRelock async rounds NoError p) (\<lambda>r. case r of
          Blocked p \<Rightarrow> Inr (Blocked p)
        | Returned (status, fnd, return_flags, p) \<Rightarrow>
            if status \<noteq> NoError then Inr (Returned (status, None, p))
            else if fnd = INVALID_BUFFER_SLOT then Inr (Returned (Busy, None, p))
            else bind_run (dequeue_found meanwhile fnd return_flags w h ?fmt ?u p) (\<lambda>r. Inr (Returned r))))"
  proof (rule run_ok_bind [OF WaitForFreeSlot_ok [OF ok]], goal_cases)
    case (1 r)
    show ?case
    proof (cases r)
      case (Returned x)
      obtain st f flags p1 where x: "x = (st, f, flags, p1)" by (cases x)
      have p1: "bq_ok {} p1" "keeps p p1" and fs: "st = NoError \<longrightarrow> (\<exists>q. free_slot_found async q p1 f)"
        using 1(2) Returned x consumer_frame_keeps by (auto simp: wait_found_def)
      have "run_ok ?P (bind_run (dequeue_found meanwhile f flags w h ?fmt ?u p1) (\<lambda>r. Inr (Returned r)))" if st0: "st = NoError"
      proof -
        from fs st0 obtain q where "free_slot_found async q p1 f" by blast
        from dequeue_found_ok [OF p1(1) this] show ?thesis
          by (rule run_ok_bind) (use keeps_trans [OF p1(2)] in auto)
      qed
      then show ?thesis using p1 by (simp add: Returned x)
    qed (use 1(2) consumer_frame_keeps in auto)
  qed
  then show ?thesis
    using False ok bq_okD(2) [OF ok] by (simp add: DequeueBuffer_def WaitWhileAllocatingLocked_def)
qed

text \<open>A buffer the queue has never seen.\<close>

lemma bq_ok_new_buffer:
  "bq_ok w p \<Longrightarrow> bq_ok w (p\<lparr>graphic_buffers := graphic_buffers p @ [gb]\<rparr>)"
  by (fastforce simp: bq_ok_def slot_ok_def item_ok_def)

lemma AttachBuffer_ok:
  assumes ok: "bq_ok {} p" and fresh: "\<forall>item \<in> set (queue p). item_graphic_buffer item \<noteq> Some b"
    and b: "b < length (graphic_buffers p)"
  shows "run_ok (\<lambda>r. case r of Blocked p' \<Rightarrow> bq_ok {} p' \<and> keeps p p' | Returned (st, out, p') \<Rightarrow> bq_ok {} p' \<and> keeps p p') (AttachBuffer rounds o' (Some b) p)"
    (is "run_ok ?P _")
proof (cases o')
  case True
  have "run_ok ?P (bind_run (WaitForFreeSlotThenRelock False rounds NoError p) (\<lambda>r. case r of
          Blocked p \<Rightarrow> Inr (Blocked p)
        | Returned (status, fnd, return_flags, p) \<Rightarrow>
            if status \<noteq> NoError then Inr (Returned (status, None, p))
            else if fnd = INVALID_BUFFER_SLOT then Inr (Returned (Busy, None, p))
            else bind_run (upd_slot fnd (\<lambda>sl. sl\<lparr>slot_graphic_buffer := Some b, buffer_state := Dequeued,
                             slot_fence := NoFence, request_buffer_called := True\<rparr>) p) (\<lambda>p.
              Inr (Returned (return_flags, Some fnd, p)))))"
  proof (rule run_ok_bind [OF WaitForFreeSlot_ok [OF ok]], goal_cases)
    case (1 r)
    show ?case
    proof (cases r)
      case (Returned x)
      obtain st f flags p1 where x: "x = (st, f, flags, p1)" by (cases x)
      have p1: "bq_ok {} p1" "consumer_frame p p1" and fs: "st = NoError \<longrightarrow> (\<exists>q. free_slot_found False q p1 f)"
        using 1(2) Returned x by (auto simp: wait_found_def)
      have k1: "keeps p p1" by (rule consumer_frame_keeps [OF p1(2)])
      have q1: "set (queue p1) \<subseteq> set (queue p)" "length (graphic_buffers p1) = length (graphic_buffers p)"
        using p1(2) by (auto simp: consumer_frame_def)
      let ?v = "(slots p1 ! nat f)\<lparr>slot_graphic_buffer := Some b, buffer_state := Dequeued, slot_fence := NoFence,
        request_buffer_called := True\<rparr>"
      have "bq_ok {} (p1\<lparr>slots := (slots p1)[nat f := ?v]\<rparr>)" and f: "0 \<le> f" "f < 64" if "st = NoError"
      proof -
        show f: "0 \<le> f" "f < 64" using fs that free_slot_foundD by blast+
        have "trackers ?v (nat f) (queue p1) = 0"
          using fresh q1 by (auto simp: trackers_def tracks_def filter_empty_conv)
        then show "bq_ok {} (p1\<lparr>slots := (slots p1)[nat f := ?v]\<rparr>)"
          by (intro bq_ok_slot [OF p1(1) f]) (use b q1 in \<open>simp_all add: slot_ok_def acquired_def\<close>)
      qed
      then show ?thesis
        using p1(1) k1 by (simp add: Returned x upd_slot_eq [OF bq_okD(1) [OF p1(1)]]) (simp add: keeps_def)
    qed (use 1(2) consumer_frame_keeps in auto)
  qed
  then show ?thesis
    using True bq_okD(2) [OF ok] by (simp add: AttachBuffer_def WaitWhileAllocatingLocked_def)
qed (use ok in \<open>simp add: AttachBuffer_def\<close>)

lemma SetPreallocatedBuffer_ok:
  assumes ok: "bq_ok {} p"
  shows "run_ok (\<lambda>(_, p'). bq_ok {} p' \<and> keeps p p') (SetPreallocatedBuffer slot buffer p)"
proof (cases "slot < 0 \<or> slot \<ge> NUM_BUFFER_SLOTS")
  case True
  then show ?thesis using ok by (auto simp: SetPreallocatedBuffer_def)
next
  case False
  then have sl: "0 \<le> slot" "slot < 64" by (simp_all add: NUM_BUFFER_SLOTS_def)
  let ?n = "length (graphic_buffers p)"
  define gb where "gb = (case buffer of None \<Rightarrow> null_NvGraphicBuffer | Some b \<Rightarrow> b)"
  define p1 where "p1 = p\<lparr>graphic_buffers := graphic_buffers p @ [gb]\<rparr>"
  have ok1: "bq_ok {} p1" unfolding p1_def by (rule bq_ok_new_buffer [OF ok])
  have len: "length (slots p1) = 64" by (rule bq_okD(1) [OF ok1])
  define v where "v = (\<lambda>b. new_BufferSlot\<lparr>slot_fence := NoFence, slot_graphic_buffer := Some ?n, slot_frame_number := 0,
    is_preallocated := b\<rparr>)"
  have tr: "trackers (v b) (nat slot) (queue p1) = 0" for b
    using bq_okD(7) [OF ok] by (intro trackers_fresh [of _ ?n]) (simp_all add: v_def p1_def)
  have ok2: "bq_ok {} (p1\<lparr>slots := (slots p1)[nat slot := v b]\<rparr>)" for b
    by (rule bq_ok_slot [OF ok1 sl]) (use tr [of b] in \<open>simp_all add: slot_ok_def acquired_def v_def new_BufferSlot_def p1_def\<close>)
  have "length (filter is_preallocated ((slots p1)[nat slot := v b])) \<le> 64" for b
    using length_filter_le [of is_preallocated "(slots p1)[nat slot := v b]"] len by simp
  then have ok3: "bq_ok {} (p1\<lparr>slots := (slots p1)[nat slot := v b], override_max_buffer_count :=
      int (length (filter is_preallocated ((slots p1)[nat slot := v b])))\<rparr>)" for b
    using ok2 [of b] by (simp add: bq_ok_def NUM_BUFFER_SLOTS_def)
  have upd: "upd_slot slot (\<lambda>_. new_BufferSlot\<lparr>slot_fence := NoFence, slot_graphic_buffer := Some (length (graphic_buffers p1) - 1),
      slot_frame_number := 0\<rparr>) p1 = Inr (p1\<lparr>slots := (slots p1)[nat slot := v False]\<rparr>)"
    unfolding upd_slot_eq [OF len sl] by (simp add: v_def p1_def new_BufferSlot_def)
  show ?thesis
  proof (cases buffer)
    case None
    have "run_ok (\<lambda>(_, p'). bq_ok {} p' \<and> keeps p p') (SetPreallocatedBuffer slot buffer p) \<longleftrightarrow>
        bq_ok {} (p1\<lparr>slots := (slots p1)[nat slot := v False]\<rparr>)"
      using False upd None
      by (simp add: SetPreallocatedBuffer_def p1_def gb_def Let_def keeps_def SignalDequeueCondition_def bq_ok_def)
    then show ?thesis using ok2 by simp
  next
    case (Some b)
    have "run_ok (\<lambda>(_, p'). bq_ok {} p' \<and> keeps p p') (SetPreallocatedBuffer slot buffer p) \<longleftrightarrow>
        bq_ok {} (p1\<lparr>slots := (slots p1)[nat slot := v True], override_max_buffer_count :=
          int (length (filter is_preallocated ((slots p1)[nat slot := v True])))\<rparr>)"
      using False Some sl len
      by (simp add: SetPreallocatedBuffer_def p1_def gb_def Let_def keeps_def SignalDequeueCondition_def bq_ok_def
          upd_slot_eq GetPreallocatedBufferCountLocked_def v_def new_BufferSlot_def)
    then show ?thesis using ok3 by simp
  qed
qed

lemma producer_Connect_ok:
  assumes ok: "bq_ok {} p" and r: "producer_Connect l api a o' p = (st, out, p')"
  shows "bq_ok {} p' \<and> queue p' = queue p \<and> frame_counter p' = frame_counter p \<and>
    next_callback_ticket p' = next_callback_ticket p \<and> current_callback_ticket p' = current_callback_ticket p \<and>
    (\<not> a \<and> \<not> dequeue_buffer_cannot_block p \<longrightarrow> \<not> dequeue_buffer_cannot_block p')"
  using assms by (auto simp: producer_Connect_def bq_ok_def Let_def split: if_splits)

section \<open>Queueing\<close>

text \<open>A dequeued slot that becomes queued, together with the frame that tracks it.\<close>

lemma bq_ok_insert:
  assumes ok: "bq_ok {} p" and i: "0 \<le> i" "i < 64"
    and st: "buffer_state (slots p ! nat i) = Dequeued" and buf: "slot_graphic_buffer (slots p ! nat i) = Some b"
    and v: "slot_graphic_buffer v = Some b" "buffer_state v = Queued"
    and item: "item_slot item = i" "item_graphic_buffer item = Some b"
    and q: "\<And>sl j. trackers sl j q = trackers sl j (item # queue p)" "set q = insert item (set (queue p))"
  shows "bq_ok {} (p\<lparr>slots := (slots p)[nat i := v], queue := q\<rparr>)"
proof -
  have len: "length (slots p) = 64" by (rule bq_okD(1) [OF ok])
  have so: "slot_ok (is_abandoned p) (length (graphic_buffers p)) {} (queue p) (nat i) (slots p ! nat i)"
    using bq_okD(6) [OF ok, of "nat i"] i by simp
  have "trackers v (nat i) (queue p) = trackers (slots p ! nat i) (nat i) (queue p)"
    by (rule trackers_cong) (simp add: v buf)
  then have "trackers v (nat i) q = 1"
    using so st i by (simp add: q(1) trackers_Cons slot_ok_def item v tracks_def)
  then have at_i: "slot_ok (is_abandoned p) (length (graphic_buffers p)) {} q (nat i) v"
    using so buf v by (simp add: slot_ok_def)
  have "slot_ok (is_abandoned p) (length (graphic_buffers p)) {} q j ((slots p)[nat i := v] ! j)" if "j < 64" for j
  proof (cases "j = nat i")
    case True
    then show ?thesis using at_i len that by simp
  next
    case False
    then have "i \<noteq> int j" by auto
    then show ?thesis using bq_okD(6) [OF ok that] False by (simp add: slot_ok_def q(1) trackers_Cons item)
  qed
  moreover have "length (filter acquired ((slots p)[nat i := v])) \<le> 1"
    using ok i v len by (intro acquired_update) (auto simp: bq_ok_def acquired_def)
  moreover have "item_ok (length (graphic_buffers p)) item"
    using so buf i by (simp add: item_ok_def item slot_ok_def NUM_BUFFER_SLOTS_def)
  ultimately show ?thesis using ok by (simp add: bq_ok_def q(2))
qed

text \<open>The effect of a queued frame on the queue: appended, or in place of a droppable front.\<close>

definition enqueued :: "BufferItem \<Rightarrow> BufferItem list \<Rightarrow> BufferItem list \<Rightarrow> bool" where
  "enqueued item q q' \<longleftrightarrow>
     (q' = q @ [item] \<and> (\<forall>front rest. q = front # rest \<longrightarrow> \<not> is_droppable front)) \<or>
     (\<exists>front rest. q = front # rest \<and> is_droppable front \<and> q' = item # rest)"

lemma enqueue_item_ok:
  fixes p :: bq and i :: s32
  assumes ok: "bq_ok {} p" and i: "0 \<le> i" "i < 64"
    and st: "buffer_state (slots p ! nat i) = Dequeued" and buf: "slot_graphic_buffer (slots p ! nat i) = Some b"
    and v: "slot_graphic_buffer v = Some b" "buffer_state v = Queued"
    and item: "item_slot item = i" "item_graphic_buffer item = Some b"
  shows "\<exists>repl sls q. enqueue_item item (p\<lparr>slots := (slots p)[nat i := v]\<rparr>) =
      Inr (repl, p\<lparr>slots := sls, queue := q\<rparr>) \<and> bq_ok {} (p\<lparr>slots := sls, queue := q\<rparr>) \<and> enqueued item (queue p) q"
proof (cases "\<exists>front rest. queue p = front # rest \<and> is_droppable front")
  case False
  have "enqueue_item item (p\<lparr>slots := (slots p)[nat i := v]\<rparr>) =
      Inr (False, p\<lparr>slots := (slots p)[nat i := v], queue := queue p @ [item]\<rparr>)"
    using False by (auto simp: enqueue_item_def split: list.splits)
  moreover have "bq_ok {} (p\<lparr>slots := (slots p)[nat i := v], queue := queue p @ [item]\<rparr>)"
    by (rule bq_ok_insert [OF ok i st buf v item]) (simp_all add: trackers_Cons trackers_snoc)
  moreover have "enqueued item (queue p) (queue p @ [item])" using False by (auto simp: enqueued_def)
  ultimately show ?thesis by blast
next
  case True
  then obtain front rest where q: "queue p = front # rest" "is_droppable front" by blast
  let ?k = "nat (item_slot front)"
  let ?free = "\<lambda>sl. sl\<lparr>buffer_state := Free, slot_frame_number := 0\<rparr>"
  have fr: "0 \<le> item_slot front" "item_slot front < 64"
    using bq_okD(7) [OF ok, of front] by (simp_all add: q item_ok_def NUM_BUFFER_SLOTS_def)
  have len: "length (slots p) = 64" by (rule bq_okD(1) [OF ok])
  have enq: "enqueued item (queue p) (item # rest)" using q by (simp add: enqueued_def)
  have st': "core_StillTracking front ((slots p)[nat i := v]) = Inr (tracks ((slots p)[nat i := v] ! ?k) front)"
    by (rule core_StillTracking_eq) (simp_all add: len fr)
  have same: "tracks ((slots p)[nat i := v] ! ?k) front \<longleftrightarrow> tracks (slots p ! ?k) front"
    using len i v buf by (cases "?k = nat i") (simp_all add: tracks_def)
  show ?thesis
  proof (cases "tracks (slots p ! ?k) front")
    case False
    have "enqueue_item item (p\<lparr>slots := (slots p)[nat i := v]\<rparr>) =
        Inr (True, p\<lparr>slots := (slots p)[nat i := v], queue := item # rest\<rparr>)"
      by (simp add: enqueue_item_def q st' same False)
    moreover have "bq_ok {} (p\<lparr>queue := rest\<rparr>)" by (rule bq_ok_pop_untracked [OF ok q(1) False])
    then have "bq_ok {} ((p\<lparr>queue := rest\<rparr>)\<lparr>slots := (slots (p\<lparr>queue := rest\<rparr>))[nat i := v], queue := item # rest\<rparr>)"
      by (rule bq_ok_insert [where b = b and item = item]) (simp_all add: i st buf v item)
    ultimately show ?thesis using enq by auto
  next
    case True
    have "slot_ok (is_abandoned p) (length (graphic_buffers p)) {} (queue p) ?k (slots p ! ?k)"
      using bq_okD(6) [OF ok, of ?k] fr by simp
    then have "buffer_state (slots p ! ?k) = Queued"
      using fr True by (auto simp: slot_ok_def q trackers_Cons split: if_splits)
    then have ne: "?k \<noteq> nat i" using st by auto
    let ?p = "p\<lparr>slots := (slots p)[?k := ?free (slots p ! ?k)], queue := rest\<rparr>"
    have "bq_ok {} ?p" by (rule bq_ok_pop_tracked [OF ok q(1) True]) (simp_all add: acquired_def)
    then have "bq_ok {} (?p\<lparr>slots := (slots ?p)[nat i := v], queue := item # rest\<rparr>)"
      by (rule bq_ok_insert [where b = b and item = item]) (use ne in \<open>simp_all add: i st buf v item\<close>)
    moreover have "enqueue_item item (p\<lparr>slots := (slots p)[nat i := v]\<rparr>) =
        Inr (True, p\<lparr>slots := (slots p)[nat i := v, ?k := ?free (slots p ! ?k)], queue := item # rest\<rparr>)"
      using ne by (simp add: enqueue_item_def q st' same True upd_slot_eq len fr)
    ultimately show ?thesis using enq list_update_swap [OF ne, of "slots p"] by auto
  qed
qed

definition tickets_ok :: "bq \<Rightarrow> bool" where
  "tickets_ok p \<longleftrightarrow>
     current_callback_ticket p = next_callback_ticket p \<and> 0 \<le> next_callback_ticket p \<and> next_callback_ticket p < 2 ^ 31 \<and>
     uint (frame_counter p) = next_callback_ticket p"

definition queued_one :: "bool \<Rightarrow> bq \<Rightarrow> bq \<Rightarrow> bool" where
  "queued_one async p p' \<longleftrightarrow>
     uint (frame_counter p') = uint (frame_counter p) + 1 \<and>
     dequeue_buffer_cannot_block p' = dequeue_buffer_cannot_block p \<and>
     (\<exists>item. enqueued item (queue p) (queue p') \<and> item_frame_number item = frame_counter p' \<and>
        is_droppable item = (dequeue_buffer_cannot_block p \<or> async))"

lemma frame_counter_Suc:
  assumes "tickets_ok p"
  shows "uint (frame_counter p + 1) = uint (frame_counter p) + 1"
proof -
  have "uint (frame_counter p) < 2 ^ 31" using assms by (simp add: tickets_ok_def)
  then show ?thesis by (simp add: uint_word_ariths)
qed

lemma queue_frame_ok:
  assumes ok: "bq_ok {} p" "tickets_ok p" and i: "0 \<le> i" "i < 64"
    and st: "buffer_state (slots p ! nat i) = Dequeued" and buf: "slot_graphic_buffer (slots p ! nat i) = Some b"
  shows "run_ok (\<lambda>(_, p'). bq_ok {} p' \<and> tickets_ok p' \<and> queued_one (in_async input \<noteq> 0) p p') (queue_frame i input p)"
proof -
  let ?p = "p\<lparr>frame_counter := frame_counter p + 1\<rparr>"
  define v where "v = (slots p ! nat i)\<lparr>slot_fence := in_fence input, buffer_state := Queued, slot_frame_number := frame_counter ?p\<rparr>"
  define p1 where "p1 = ?p\<lparr>sticky_transform := in_sticky_transform input\<rparr>"
  define item where "item = frame_item i input (?p\<lparr>slots := (slots p)[nat i := v]\<rparr>) v"
  have ok1: "bq_ok {} p1" using ok(1) by (simp add: p1_def bq_ok_def)
  have it: "item_slot item = i" "item_graphic_buffer item = Some b" "item_frame_number item = frame_counter p + 1"
    "is_droppable item = (dequeue_buffer_cannot_block p \<or> in_async input \<noteq> 0)"
    by (simp_all add: item_def frame_item_def v_def buf)
  obtain repl sls q where e: "enqueue_item item (p1\<lparr>slots := (slots p1)[nat i := v]\<rparr>) = Inr (repl, p1\<lparr>slots := sls, queue := q\<rparr>)"
    and okq: "bq_ok {} (p1\<lparr>slots := sls, queue := q\<rparr>)" and enq: "enqueued item (queue p1) q"
    using enqueue_item_ok [OF ok1 i, of b v item] st buf it by (auto simp: p1_def v_def)
  have len: "length (slots ?p) = 64" using bq_okD(1) [OF ok(1)] by simp
  have p1': "?p\<lparr>slots := (slots p)[nat i := v], sticky_transform := in_sticky_transform input\<rparr> = p1\<lparr>slots := (slots p1)[nat i := v]\<rparr>"
    by (simp add: p1_def)
  have tk: "current_callback_ticket p = next_callback_ticket p" "0 \<le> next_callback_ticket p"
    "uint (frame_counter p) = next_callback_ticket p" using ok(2) by (simp_all add: tickets_ok_def)
  define p2 where "p2 = p1\<lparr>slots := sls, queue := q, buffer_has_been_queued := True, dequeue_possible := True\<rparr>"
  have s1: "upd_slot i (\<lambda>sl. sl\<lparr>slot_fence := in_fence input, buffer_state := Queued, slot_frame_number := frame_counter ?p\<rparr>) ?p =
      Inr (?p\<lparr>slots := (slots p)[nat i := v]\<rparr>)"
    unfolding upd_slot_eq [OF len i] by (simp add: v_def)
  have s2: "aget (slots (?p\<lparr>slots := (slots p)[nat i := v]\<rparr>)) i = Inr v" using i bq_okD(1) [OF ok(1)] by (simp add: aget_def)
  have eq: "queue_frame i input p =
      (if \<not> next_callback_ticket p < 2 ^ 31 - 1 then Inl SignedOverflow
       else bind_run (frame_callback (next_callback_ticket p) repl (consumer_listener p2) item
              (p2\<lparr>next_callback_ticket := next_callback_ticket p + 1\<rparr>)) (\<lambda>p. Inr (Inflate p2, p)))"
    unfolding queue_frame_def Let_def s1 bind_run_Inr s2 item_def [symmetric] p1' e prod.case
    by (simp add: SignalDequeueCondition_def p2_def p1_def)
  show ?thesis
  proof (cases "next_callback_ticket p < 2 ^ 31 - 1")
    case True
    have okp: "bq_ok {} (p2\<lparr>next_callback_ticket := n, callbacks := cb, current_callback_ticket := m\<rparr>)" for n cb m
      using okq by (simp add: p2_def bq_ok_def)
    have "\<exists>cb. frame_callback (next_callback_ticket p) repl (consumer_listener p2) item
        (p2\<lparr>next_callback_ticket := next_callback_ticket p + 1\<rparr>) =
        Inr (p2\<lparr>next_callback_ticket := next_callback_ticket p + 1, callbacks := cb,
           current_callback_ticket := next_callback_ticket p + 1\<rparr>)"
    proof (cases "consumer_listener p2")
      case None
      then show ?thesis using True tk
        by (auto simp: frame_callback_def p2_def p1_def call_back_def Let_def intro!: exI [of _ "callbacks p"])
    next
      case (Some l)
      then show ?thesis using True tk by (simp add: frame_callback_def p2_def p1_def call_back_def Let_def) blast
    qed
    then obtain cb where cb: "frame_callback (next_callback_ticket p) repl (consumer_listener p2) item
        (p2\<lparr>next_callback_ticket := next_callback_ticket p + 1\<rparr>) =
        Inr (p2\<lparr>next_callback_ticket := next_callback_ticket p + 1, callbacks := cb,
           current_callback_ticket := next_callback_ticket p + 1\<rparr>)" ..
    let ?r = "p2\<lparr>next_callback_ticket := next_callback_ticket p + 1, callbacks := cb,
           current_callback_ticket := next_callback_ticket p + 1\<rparr>"
    have "tickets_ok ?r"
      using True tk frame_counter_Suc [OF ok(2)] by (simp add: tickets_ok_def p2_def p1_def)
    moreover have "queued_one (in_async input \<noteq> 0) p ?r"
      using enq it frame_counter_Suc [OF ok(2)] by (auto simp: queued_one_def p2_def p1_def)
    ultimately show ?thesis using True okp by (simp add: eq cb)
  qed (simp add: eq)
qed

lemma QueueBuffer_ok:
  assumes ok: "bq_ok {} p" "tickets_ok p"
  shows "run_ok (\<lambda>(_, _, p'). bq_ok {} p' \<and> tickets_ok p' \<and> (p' = p \<or> queued_one (in_async input \<noteq> 0) p p')) (QueueBuffer i input p)"
    (is "run_ok ?P _")
proof -
  have bad: "?P (st, out, p)" for st out using ok by simp
  obtain m where m: "GetMaxBufferCountLocked (in_async input \<noteq> 0) p = Inr m" "m \<le> 64"
    using GetMaxBufferCountLocked_ok [OF ok(1)] by blast
  show ?thesis
  proof (cases "(case in_scaling_mode input of UnknownScalingMode _ \<Rightarrow> True | _ \<Rightarrow> False) \<or> is_abandoned p \<or>
      (in_async input \<noteq> 0 \<and> override_max_buffer_count p \<noteq> 0 \<and> override_max_buffer_count p < m) \<or> i < 0 \<or> i \<ge> m")
    case True
    then show ?thesis using bad by (auto simp: QueueBuffer_def m Let_def)
  next
    case False
    then have i: "0 \<le> i" "i < 64" using m by auto
    have g: "aget (slots p) i = Inr (slots p ! nat i)" using bq_okD(1) [OF ok(1)] i by (simp add: aget_def)
    have so: "slot_ok (is_abandoned p) (length (graphic_buffers p)) {} (queue p) (nat i) (slots p ! nat i)"
      using bq_okD(6) [OF ok(1), of "nat i"] i by simp
    show ?thesis
    proof (cases "buffer_state (slots p ! nat i) \<noteq> Dequeued \<or> \<not> request_buffer_called (slots p ! nat i)")
      case True
      then show ?thesis using bad False by (auto simp: QueueBuffer_def m Let_def g)
    next
      case st: False
      with so False obtain b where b: "slot_graphic_buffer (slots p ! nat i) = Some b" "b < length (graphic_buffers p)"
        by (auto simp: slot_ok_def)
      let ?gb = "graphic_buffers p ! b"
      let ?rect = "\<lparr>rect_left = 0, rect_top = 0, rect_right = sint (gb_Width ?gb), rect_bottom = sint (gb_Height ?gb)\<rparr>"
      have eq: "QueueBuffer i input p = bind_run (Rectangle_Intersect (in_crop input) ?rect) (\<lambda>(_, cropped_rect).
          if cropped_rect \<noteq> in_crop input then Inr (BadValue, None, p)
          else bind_run (queue_frame i input p) (\<lambda>(output, p). Inr (NoError, Some output, p)))"
        using False st b by (auto simp: QueueBuffer_def m Let_def g)
      have "run_ok ?P (bind_run (queue_frame i input p) (\<lambda>(output, p). Inr (NoError, Some output, p)))"
        by (rule run_ok_bind [OF queue_frame_ok [OF ok i _ b(1)]]) (use st in auto)
      then show ?thesis using bad unfolding eq by (intro run_ok_bind [OF Rectangle_Intersect_ok]) auto
    qed
  qed
qed

end
