(* ===== verification/BufferQueue.thy ===== *)
theory BufferQueue
  imports BufferQueueInvariant
begin

text \<open>
  The buffer queue as a whole: every operation of the producer and of the consumer, in any order.  A producer thread
  and any number of consumer threads interleave at the critical sections.
\<close>

section \<open>Operations\<close>

datatype BufferQueueOp =
    DoConsumer ConsumerOp
  | DoRequestBuffer s32
  | DoSetBufferCount s32
  | DoDequeueBuffer "ConsumerOp list list" "ConsumerOp list" bool u32 u32 PixelFormat u32
  | DoDetachBuffer s32
  | DoDetachNextBuffer bool bool
  | DoAttachBuffer "ConsumerOp list list" bool GraphicBuffer
  | DoQueueBuffer s32 QueueBufferInput
  | DoCancelBuffer s32 Fence
  | DoQuery NativeWindow bool
  | DoConnect "nat option" NativeWindowApi bool bool
  | DoDisconnect NativeWindowApi
  | DoSetPreallocatedBuffer s32 "GraphicBuffer option"

definition blocking_state :: "('a \<times> 'b \<times> bq) blocking \<Rightarrow> bq" where
  "blocking_state r = (case r of Blocked p \<Rightarrow> p | Returned (_, _, p) \<Rightarrow> p)"

text \<open>The state after an operation.  The buffer a client attaches is one the queue does not hold.\<close>

definition bq_step :: "BufferQueueOp \<Rightarrow> bq \<Rightarrow> bq run" where
  "bq_step op p = (case op of
     DoConsumer c \<Rightarrow> consumer_step c p
   | DoRequestBuffer slot \<Rightarrow> bind_run (RequestBuffer slot p) (\<lambda>(_, _, p). Inr p)
   | DoSetBufferCount n \<Rightarrow> bind_run (SetBufferCount n p) (\<lambda>(_, p). Inr p)
   | DoDequeueBuffer rounds meanwhile async width height format usage \<Rightarrow>
       bind_run (DequeueBuffer rounds meanwhile async width height format usage p) (\<lambda>r. Inr (blocking_state r))
   | DoDetachBuffer slot \<Rightarrow> bind_run (DetachBuffer slot p) (\<lambda>(_, p). Inr p)
   | DoDetachNextBuffer out_buffer out_fence \<Rightarrow> bind_run (DetachNextBuffer out_buffer out_fence p) (\<lambda>(_, _, p). Inr p)
   | DoAttachBuffer rounds out_slot gb \<Rightarrow>
       bind_run (AttachBuffer rounds out_slot (Some (length (graphic_buffers p)))
                   (p\<lparr>graphic_buffers := graphic_buffers p @ [gb]\<rparr>)) (\<lambda>r. Inr (blocking_state r))
   | DoQueueBuffer slot input \<Rightarrow> bind_run (QueueBuffer slot input p) (\<lambda>(_, _, p). Inr p)
   | DoCancelBuffer slot fence \<Rightarrow> CancelBuffer slot fence p
   | DoQuery what out_value \<Rightarrow> bind_run (bq_Query what out_value p) (\<lambda>_. Inr p)
   | DoConnect listener api controlled output \<Rightarrow> (case producer_Connect listener api controlled output p of (_, _, p) \<Rightarrow> Inr p)
   | DoDisconnect api \<Rightarrow> bind_run (producer_Disconnect api p) (\<lambda>(_, p). Inr p)
   | DoSetPreallocatedBuffer slot buffer \<Rightarrow> bind_run (SetPreallocatedBuffer slot buffer p) (\<lambda>(_, p). Inr p))"

definition bq_inv :: "bq \<Rightarrow> bool" where
  "bq_inv p \<longleftrightarrow> bq_ok {} p \<and> tickets_ok p"

text \<open>Synchronous use: nobody queues droppable frames.\<close>

definition sync_op :: "BufferQueueOp \<Rightarrow> bool" where
  "sync_op op \<longleftrightarrow> (case op of
     DoQueueBuffer _ input \<Rightarrow> in_async input = 0
   | DoConnect _ _ producer_controlled_by_app _ \<Rightarrow> \<not> producer_controlled_by_app
   | _ \<Rightarrow> True)"

text \<open>The effect of any operation on the frames: none, some leave at the front, or one arrives.\<close>

definition frames_step :: "BufferQueueOp \<Rightarrow> bq \<Rightarrow> bq \<Rightarrow> bool" where
  "frames_step op p p' \<longleftrightarrow>
     keeps p p' \<or>
     (\<exists>slot input. op = DoQueueBuffer slot input \<and> queued_one (in_async input \<noteq> 0) p p') \<or>
     (\<exists>l api a out. op = DoConnect l api a out \<and> queue p' = queue p \<and> frame_counter p' = frame_counter p \<and>
        next_callback_ticket p' = next_callback_ticket p \<and> current_callback_ticket p' = current_callback_ticket p \<and>
        (\<not> a \<and> \<not> dequeue_buffer_cannot_block p \<longrightarrow> \<not> dequeue_buffer_cannot_block p'))"

lemma tickets_ok_keeps: "tickets_ok p \<Longrightarrow> keeps p p' \<Longrightarrow> tickets_ok p'"
  by (simp add: tickets_ok_def keeps_def)

lemma keeps_step:
  "tickets_ok p \<Longrightarrow> bq_ok {} p' \<Longrightarrow> keeps p p' \<Longrightarrow> bq_inv p' \<and> frames_step op p p'"
  by (simp add: bq_inv_def frames_step_def tickets_ok_keeps)

lemma bq_step_ok:
  assumes inv: "bq_inv p"
  shows "run_ok (\<lambda>p'. bq_inv p' \<and> frames_step op p p') (bq_step op p)" (is "run_ok ?P _")
proof -
  have ok: "bq_ok {} p" and tk: "tickets_ok p" using inv by (simp_all add: bq_inv_def)
  note kp = keeps_step [OF tk]
  show ?thesis
  proof (cases op)
    case (DoConsumer c)
    have "run_ok ?P (consumer_step c p)"
      by (rule run_ok_mono [OF consumer_step_ok [OF ok]]) (use kp consumer_frame_keeps in blast)
    then show ?thesis by (simp add: bq_step_def DoConsumer)
  next
    case (DoQueueBuffer slot input)
    have "run_ok ?P (bind_run (QueueBuffer slot input p) (\<lambda>(_, _, p). Inr p))"
      by (rule run_ok_bind [OF QueueBuffer_ok [OF ok tk]]) (use DoQueueBuffer in \<open>auto simp: bq_inv_def frames_step_def\<close>)
    then show ?thesis by (simp add: bq_step_def DoQueueBuffer)
  next
    case (DoConnect l api a out)
    obtain st o' p' where c: "producer_Connect l api a out p = (st, o', p')" by (cases "producer_Connect l api a out p")
    have "?P p'" using producer_Connect_ok [OF ok c] tk DoConnect by (simp add: bq_inv_def tickets_ok_def frames_step_def)
    then show ?thesis by (simp add: bq_step_def DoConnect c)
  next
    case (DoQuery what b)
    have "run_ok (\<lambda>_. True) (bq_Query what b p)" by (simp add: bq_Query_def Let_def split: NativeWindow.splits)
    then have "run_ok ?P (bind_run (bq_Query what b p) (\<lambda>_. Inr p))"
      by (rule run_ok_bind) (use kp [OF ok keeps_refl] in simp)
    then show ?thesis by (simp add: bq_step_def DoQuery)
  next
    case (DoAttachBuffer rounds out gb)
    let ?p = "p\<lparr>graphic_buffers := graphic_buffers p @ [gb]\<rparr>"
    have fresh: "\<forall>item \<in> set (queue ?p). item_graphic_buffer item \<noteq> Some (length (graphic_buffers p))"
      using bq_okD(7) [OF ok] by (fastforce simp: item_ok_def)
    have k: "keeps p ?p" by (simp add: keeps_def)
    have "run_ok ?P (bind_run (AttachBuffer rounds out (Some (length (graphic_buffers p))) ?p) (\<lambda>r. Inr (blocking_state r)))"
      by (rule run_ok_bind [OF AttachBuffer_ok [OF bq_ok_new_buffer [OF ok] fresh]])
        (auto simp: blocking_state_def intro!: kp intro: keeps_trans [OF k] split: blocking.splits)
    then show ?thesis by (simp add: bq_step_def DoAttachBuffer)
  next
    case (DoDequeueBuffer rounds meanwhile async width height format usage)
    have "run_ok ?P (bind_run (DequeueBuffer rounds meanwhile async width height format usage p) (\<lambda>r. Inr (blocking_state r)))"
      by (rule run_ok_bind [OF DequeueBuffer_ok [OF ok]]) (auto simp: blocking_state_def intro!: kp split: blocking.splits)
    then show ?thesis by (simp add: bq_step_def DoDequeueBuffer)
  next
    case (DoCancelBuffer slot fence)
    have "run_ok ?P (CancelBuffer slot fence p)" by (rule run_ok_mono [OF CancelBuffer_ok [OF ok]]) (use kp in blast)
    then show ?thesis by (simp add: bq_step_def DoCancelBuffer)
  next
    case (DoRequestBuffer slot)
    have "run_ok ?P (bind_run (RequestBuffer slot p) (\<lambda>(_, _, p). Inr p))"
      by (rule run_ok_bind [OF RequestBuffer_ok [OF ok]]) (use kp in auto)
    then show ?thesis by (simp add: bq_step_def DoRequestBuffer)
  next
    case (DoSetBufferCount n)
    have "run_ok ?P (bind_run (SetBufferCount n p) (\<lambda>(_, p). Inr p))"
      by (rule run_ok_bind [OF SetBufferCount_ok [OF ok]]) (use kp in auto)
    then show ?thesis by (simp add: bq_step_def DoSetBufferCount)
  next
    case (DoDetachBuffer slot)
    have "run_ok ?P (bind_run (DetachBuffer slot p) (\<lambda>(_, p). Inr p))"
      by (rule run_ok_bind [OF DetachBuffer_ok [OF ok]]) (use kp in auto)
    then show ?thesis by (simp add: bq_step_def DoDetachBuffer)
  next
    case (DoDetachNextBuffer a b)
    have "run_ok ?P (bind_run (DetachNextBuffer a b p) (\<lambda>(_, _, p). Inr p))"
      by (rule run_ok_bind [OF DetachNextBuffer_ok [OF ok]]) (use kp in auto)
    then show ?thesis by (simp add: bq_step_def DoDetachNextBuffer)
  next
    case (DoDisconnect api)
    have "run_ok ?P (bind_run (producer_Disconnect api p) (\<lambda>(_, p). Inr p))"
      by (rule run_ok_bind [OF producer_Disconnect_ok [OF ok]]) (use kp in auto)
    then show ?thesis by (simp add: bq_step_def DoDisconnect)
  next
    case (DoSetPreallocatedBuffer slot buffer)
    have "run_ok ?P (bind_run (SetPreallocatedBuffer slot buffer p) (\<lambda>(_, p). Inr p))"
      by (rule run_ok_bind [OF SetPreallocatedBuffer_ok [OF ok]]) (use kp in auto)
    then show ?thesis by (simp add: bq_step_def DoSetPreallocatedBuffer)
  qed
qed

interpretation bq: checked_machine bq_step bq_inv "\<lambda>_. True"
  by unfold_locales (use bq_step_ok run_ok_mono in blast)

lemma bq_inv_new: "bq_inv new_BufferQueue"
  by (simp add: bq_inv_def bq_ok_def tickets_ok_def new_BufferQueue_def new_BufferSlot_def slot_ok_def trackers_def
      acquired_def NUM_BUFFER_SLOTS_def)

section \<open>Order of frames\<close>

text \<open>In synchronous use the queue holds the most recent frames, all of them, oldest first.\<close>

definition frame_numbers :: "'a BufferQueueCore_scheme \<Rightarrow> int list" where
  "frame_numbers p = map (\<lambda>item. uint (item_frame_number item)) (queue p)"

definition fifo_inv :: "int \<Rightarrow> bq \<Rightarrow> bool" where
  "fifo_inv n p \<longleftrightarrow>
     bq_inv p \<and> \<not> dequeue_buffer_cannot_block p \<and> (\<forall>item \<in> set (queue p). \<not> is_droppable item) \<and>
     (\<exists>k > n. k \<le> uint (frame_counter p) + 1 \<and> frame_numbers p = [k..uint (frame_counter p)])"

lemma upto_suffix: "[k..m] = gone @ rest \<Longrightarrow> k \<le> m + 1 \<Longrightarrow> \<exists>k' \<ge> k. k' \<le> m + 1 \<and> rest = [k'..m]"
proof (induction gone arbitrary: k)
  case (Cons x gone)
  then have "k \<le> m" by (cases "k \<le> m") simp_all
  then have "[k + 1..m] = gone @ rest" using Cons.prems(1) by (auto simp: upto_rec1)
  from Cons.IH [OF this] \<open>k \<le> m\<close> obtain k' where "k + 1 \<le> k'" "k' \<le> m + 1" "rest = [k'..m]" by auto
  then show ?case by (intro exI [of _ k']) simp
qed auto

lemma fifo_inv_keeps: "fifo_inv n p \<Longrightarrow> bq_inv p' \<Longrightarrow> keeps p p' \<Longrightarrow> fifo_inv n p'"
proof -
  assume f: "fifo_inv n p" and inv: "bq_inv p'" and k: "keeps p p'"
  obtain gone where g: "queue p = gone @ queue p'" using k by (auto simp: keeps_def)
  obtain a where a: "n < a" "a \<le> uint (frame_counter p) + 1" "frame_numbers p = [a..uint (frame_counter p)]"
    using f by (auto simp: fifo_inv_def)
  have "[a..uint (frame_counter p)] = map (\<lambda>item. uint (item_frame_number item)) gone @ frame_numbers p'"
    using a(3) g by (simp add: frame_numbers_def)
  from upto_suffix [OF this a(2)] obtain b
    where b: "a \<le> b" "b \<le> uint (frame_counter p) + 1" "frame_numbers p' = [b..uint (frame_counter p)]" by blast
  then show ?thesis
    using a(1) f inv k g unfolding fifo_inv_def keeps_def by (intro conjI exI [of _ b]) auto
qed

lemma fifo_inv_queued:
  assumes f: "fifo_inv n p" and inv: "bq_inv p'" and q: "queued_one False p p'"
  shows "fifo_inv n p'"
proof -
  obtain item where e: "enqueued item (queue p) (queue p')" and it: "item_frame_number item = frame_counter p'"
    "\<not> is_droppable item" using q f by (auto simp: queued_one_def fifo_inv_def)
  have "queue p' = queue p @ [item]" using e f by (auto simp: enqueued_def fifo_inv_def)
  moreover obtain a where a: "n < a" "a \<le> uint (frame_counter p) + 1" "frame_numbers p = [a..uint (frame_counter p)]"
    using f by (auto simp: fifo_inv_def)
  moreover have "uint (frame_counter p') = uint (frame_counter p) + 1" using q by (simp add: queued_one_def)
  ultimately show ?thesis
    using f inv q it by (auto simp: fifo_inv_def queued_one_def frame_numbers_def upto_rec2 intro!: exI [of _ a])
qed

lemma fifo_step:
  assumes f: "fifo_inv n p" and s: "sync_op op"
  shows "run_ok (fifo_inv n) (bq_step op p)"
proof -
  have inv: "bq_inv p" using f by (simp add: fifo_inv_def)
  show ?thesis
  proof (rule run_ok_mono [OF bq_step_ok [OF inv, of op]])
    fix p' assume p': "bq_inv p' \<and> frames_step op p p'"
    then consider "keeps p p'" | slot input where "op = DoQueueBuffer slot input" "queued_one (in_async input \<noteq> 0) p p'"
      | l api a out where "op = DoConnect l api a out" "queue p' = queue p" "frame_counter p' = frame_counter p"
          "\<not> a \<and> \<not> dequeue_buffer_cannot_block p \<longrightarrow> \<not> dequeue_buffer_cannot_block p'"
      by (auto simp: frames_step_def)
    then show "fifo_inv n p'"
    proof cases
      case 1
      then show ?thesis using fifo_inv_keeps f p' by blast
    next
      case 2
      then show ?thesis using fifo_inv_queued [OF f] p' s by (simp add: sync_op_def)
    next
      case 3
      then show ?thesis using f p' s by (simp add: fifo_inv_def sync_op_def frame_numbers_def)
    qed
  qed
qed

interpretation fifo: checked_machine bq_step "fifo_inv n" sync_op
  by unfold_locales (rule fifo_step)

lemma fifo_inv_new: "fifo_inv 0 new_BufferQueue"
  using bq_inv_new unfolding fifo_inv_def
  by (intro conjI exI [of _ 1]) (simp_all add: new_BufferQueue_def frame_numbers_def)

lemma AcquireBuffer_front:
  assumes ok: "bq_ok w c" and r: "AcquireBuffer e c = Inr (NoError, Some item, c')"
  shows "\<exists>gone front. queue c = gone @ front # queue c' \<and> item_frame_number item = item_frame_number front \<and>
    (e = 0 \<longrightarrow> gone = []) \<and> overdue e gone [front]"
proof -
  have front: "\<exists>front. queue c1 = front # queue c' \<and> item_frame_number item = item_frame_number front"
    if "acquire_front c1 = Inr (NoError, Some item, c')" for c1
    using that by (auto simp: acquire_front_def bind_run_eq_Inr SignalDequeueCondition_def upd_slot_def split: list.splits if_splits)
  show ?thesis
  proof (cases "e = 0")
    case True
    then show ?thesis
      using r front [of c] by (auto simp: AcquireBuffer_def Status_defs overdue_def intro!: exI [of _ "[]"] split: if_splits)
  next
    case False
    with r obtain sls q where d: "drop_timely e (slots c) (queue c) = Inr (sls, q)"
      and a: "acquire_front (c\<lparr>slots := sls, queue := q\<rparr>) = Inr (NoError, Some item, c')"
      by (auto simp: AcquireBuffer_def Status_defs bind_run_eq_Inr Let_def split: if_splits)
    from drop_timely_overdue [OF d] obtain gone where "queue c = gone @ q" "overdue e gone q" by blast
    with front [OF a] False show ?thesis by (auto simp: overdue_def)
  qed
qed

lemma fifo_acquire:
  assumes f: "fifo_inv n p" and r: "AcquireBuffer t p = Inr (NoError, Some item, q)"
  shows "fifo_inv (uint (item_frame_number item)) q \<and> n < uint (item_frame_number item) \<and>
    frame_numbers q = [uint (item_frame_number item) + 1..uint (frame_counter q)]"
proof -
  have inv: "bq_inv p" and ok: "bq_ok {} p" using f by (simp_all add: fifo_inv_def bq_inv_def)
  have fr: "consumer_frame p q" and okq: "bq_ok {} q" using AcquireBuffer_ok [OF ok, of t] by (simp_all add: r)
  have k: "keeps p q" by (rule consumer_frame_keeps [OF fr])
  have invq: "bq_inv q" using keeps_step [OF _ okq k] inv by (simp add: bq_inv_def)
  obtain gone front where g: "queue p = gone @ front # queue q" "item_frame_number item = item_frame_number front"
    using AcquireBuffer_front [OF ok r] by auto
  obtain a where a: "n < a" "a \<le> uint (frame_counter p) + 1" "frame_numbers p = [a..uint (frame_counter p)]"
    using f by (auto simp: fifo_inv_def)
  have "[a..uint (frame_counter p)] = map (\<lambda>item. uint (item_frame_number item)) gone @ uint (item_frame_number item) # frame_numbers q"
    using a(3) g by (simp add: frame_numbers_def)
  from upto_suffix [OF this a(2)] obtain b where b: "a \<le> b" "uint (item_frame_number item) # frame_numbers q = [b..uint (frame_counter p)]"
    by blast
  then have "b \<le> uint (frame_counter p)" by (cases "b \<le> uint (frame_counter p)") simp_all
  with b have it: "uint (item_frame_number item) = b" "frame_numbers q = [b + 1..uint (frame_counter p)]" "b \<le> uint (frame_counter p)"
    by (simp_all add: upto_rec1)
  have fc: "frame_counter q = frame_counter p" using k by (simp add: keeps_def)
  have "fifo_inv b q"
    using f invq k it g unfolding fifo_inv_def keeps_def by (intro conjI exI [of _ "b + 1"]) auto
  then show ?thesis using it b(1) a(1) fc by simp
qed

section \<open>Operations that take no frame away\<close>

definition passive_consumer :: "ConsumerOp \<Rightarrow> bool" where
  "passive_consumer op \<longleftrightarrow> (case op of DoAcquireBuffer _ \<Rightarrow> False | DoConsumerDisconnect \<Rightarrow> False | _ \<Rightarrow> True)"

text \<open>Neither acquires, nor disconnects either side, also not while a producer sleeps or allocates.\<close>

definition passive_op :: "BufferQueueOp \<Rightarrow> bool" where
  "passive_op op \<longleftrightarrow> (case op of
     DoConsumer c \<Rightarrow> passive_consumer c
   | DoDequeueBuffer rounds meanwhile _ _ _ _ _ \<Rightarrow> list_all (list_all passive_consumer) rounds \<and> list_all passive_consumer meanwhile
   | DoAttachBuffer rounds _ _ \<Rightarrow> list_all (list_all passive_consumer) rounds
   | DoDisconnect _ \<Rightarrow> False
   | _ \<Rightarrow> True)"

lemma upd_slot_queue: "upd_slot i f p = Inr p' \<Longrightarrow> queue p' = queue p"
  by (auto simp: upd_slot_def bind_run_eq_Inr)

lemma call_back_queue [simp]: "queue (call_back l f p) = queue p"
  by (simp add: call_back_def split: option.splits)

lemma SignalDequeueCondition_queue [simp]: "queue (SignalDequeueCondition p) = queue p"
  by (simp add: SignalDequeueCondition_def)

lemma FreeAllBuffersLocked_queue: "FreeAllBuffersLocked p = Inr p' \<Longrightarrow> queue p' = queue p"
proof -
  have "run_ops core_FreeBufferLocked ss c = Inr c' \<Longrightarrow> queue c' = queue c" for ss and c c' :: "'a BufferQueueCore_scheme"
    by (induction ss arbitrary: c) (auto simp: bind_run_eq_Inr core_FreeBufferLocked_def dest!: upd_slot_queue)
  then show "FreeAllBuffersLocked p = Inr p' \<Longrightarrow> queue p' = queue p" by (fastforce simp: FreeAllBuffersLocked_def)
qed

lemma consumer_step_queue: "consumer_step op p = Inr p' \<Longrightarrow> passive_consumer op \<Longrightarrow> queue p' = queue p"
  by (cases op)
    (auto simp: consumer_step_def passive_consumer_def ReleaseBuffer_def consumer_Connect_def bind_run_eq_Inr Let_def
      dest!: upd_slot_queue split: if_splits option.splits)

lemma consumer_steps_queue: "run_ops consumer_step ops p = Inr p' \<Longrightarrow> list_all passive_consumer ops \<Longrightarrow> queue p' = queue p"
  by (induction ops arbitrary: p) (auto simp: bind_run_eq_Inr dest!: consumer_step_queue)

lemma sleep_rounds_queue:
  "sleep_rounds rounds p = Inr r \<Longrightarrow> list_all (list_all passive_consumer) rounds \<Longrightarrow>
   case r of Blocked p' \<Rightarrow> queue p' = queue p | Returned (p', rounds') \<Rightarrow> queue p' = queue p \<and> list_all (list_all passive_consumer) rounds'"
proof (induction rounds arbitrary: p)
  case Nil
  then show ?case
    by (subst (asm) sleep_rounds.simps) (auto simp: WaitForDequeueCondition_def split: if_splits)
next
  case (Cons ops rounds)
  show ?case
  proof (cases "dequeue_possible p")
    case True
    with Cons.prems show ?thesis by (subst (asm) sleep_rounds.simps) (auto simp: WaitForDequeueCondition_def)
  next
    case False
    with Cons.prems(1) obtain p1 where "run_ops consumer_step ops p = Inr p1" "sleep_rounds rounds p1 = Inr r"
      by (subst (asm) sleep_rounds.simps) (auto simp: WaitForDequeueCondition_def bind_run_eq_Inr)
    with Cons.IH [of p1] Cons.prems(2) consumer_steps_queue [of ops p p1] show ?thesis by (auto split: blocking.splits)
  qed
qed

lemma WaitForFreeSlot_queue:
  "WaitForFreeSlotThenRelock async rounds flags p = Inr r \<Longrightarrow> list_all (list_all passive_consumer) rounds \<Longrightarrow>
   case r of Blocked p' \<Rightarrow> queue p' = queue p | Returned (_, _, _, p') \<Rightarrow> queue p' = queue p"
proof (induction async rounds flags p rule: WaitForFreeSlotThenRelock.induct)
  case (1 async rounds flags p)
  from 1(2) obtain st f flags1 p1 where t: "try_free_slot async flags p = Inr (st, f, flags1, p1)"
    by (subst (asm) WaitForFreeSlotThenRelock.simps) (auto split: sum.splits)
  then have q1: "queue p1 = queue p" by (auto dest!: try_free_slot_only)
  show ?case
  proof (cases st)
    case (Some s)
    then show ?thesis using 1(2) t q1 by (subst (asm) WaitForFreeSlotThenRelock.simps) auto
  next
    case None
    then obtain x where x: "sleep_rounds rounds p1 = Inr x"
      using 1(2) t by (subst (asm) WaitForFreeSlotThenRelock.simps) (auto split: sum.splits)
    show ?thesis
    proof (cases x)
      case (Blocked p2)
      then show ?thesis
        using 1(2) t q1 None x sleep_rounds_queue [OF x 1(3)] by (subst (asm) WaitForFreeSlotThenRelock.simps) auto
    next
      case (Returned y)
      obtain p2 rounds2 where y: "y = (p2, rounds2)" by (cases y)
      have p2: "queue p2 = queue p1" "list_all (list_all passive_consumer) rounds2"
        using sleep_rounds_queue [OF x 1(3)] by (simp_all add: Returned y)
      have w: "WaitForFreeSlotThenRelock async rounds2 flags1 p2 = Inr r"
        using 1(2) t None x Returned y by (subst (asm) WaitForFreeSlotThenRelock.simps) simp
      from 1(1) [OF t refl None refl refl x Returned y [symmetric] w p2(2)] p2(1) q1 show ?thesis
        by (simp split: blocking.splits prod.splits)
    qed
  qed
qed

lemma dequeue_slot_queue: "dequeue_slot f w h fmt u p = Inr (re, fence, p') \<Longrightarrow> queue p' = queue p"
  by (auto simp: dequeue_slot_def bind_run_eq_Inr dest!: upd_slot_queue split: if_splits)

lemma install_buffer_queue: "install_buffer f gb p = Inr (st, p') \<Longrightarrow> queue p' = queue p"
  by (auto simp: install_buffer_def bind_run_eq_Inr Let_def dest!: upd_slot_queue split: if_splits)

lemma dequeue_found_queue:
  assumes "dequeue_found meanwhile f flags w h fmt u p = Inr (st, out, p')" "list_all passive_consumer meanwhile"
  shows "queue p' = queue p"
proof -
  define w' h' where "w' = (if w = 0 \<and> h = 0 then default_width p else w)"
    and "h' = (if w = 0 \<and> h = 0 then default_height p else h)"
  have "\<exists>sl d. aget (slots p) f = Inr sl \<and> dequeue_slot f w' h' fmt u p = Inr d"
    using assms(1) unfolding dequeue_found_def Let_def w'_def [symmetric] h'_def [symmetric] bind_run_eq_Inr by blast
  then obtain sl re fence p1 where sl: "aget (slots p) f = Inr sl" and d: "dequeue_slot f w' h' fmt u p = Inr (re, fence, p1)"
    by auto
  have inst: "queue p2 = queue p1" if "bind_run (run_ops consumer_step meanwhile p1) (\<lambda>p.
      bind_run (install_buffer f gb p) (\<lambda>(status, p). Inr (g status, Some (f, fence), p))) = Inr (st, out, p2)" for gb g p2
    using that consumer_steps_queue [OF _ assms(2), of p1] install_buffer_queue by (fastforce simp: bind_run_eq_Inr)
  have "queue p' = queue p1"
    using assms(1) inst unfolding dequeue_found_def Let_def w'_def [symmetric] h'_def [symmetric] sl d bind_run_Inr prod.case
    by (simp split: if_splits)
  with dequeue_slot_queue [OF d] show ?thesis by simp
qed

lemma DequeueBuffer_queue:
  assumes "DequeueBuffer rounds meanwhile async w h fmt u p = Inr r" "list_all (list_all passive_consumer) rounds"
    "list_all passive_consumer meanwhile"
  shows "queue (blocking_state r) = queue p"
proof (cases "(w \<noteq> 0 \<and> h = 0) \<or> (w = 0 \<and> h \<noteq> 0)")
  case True
  then show ?thesis using assms(1) by (auto simp: DequeueBuffer_def blocking_state_def)
next
  case False
  with assms(1) obtain x where x: "WaitForFreeSlotThenRelock async rounds NoError p = Inr x"
    by (auto simp: DequeueBuffer_def bind_run_eq_Inr Let_def)
  with False assms(1) WaitForFreeSlot_queue [OF x assms(2)] show ?thesis
    by (auto simp: DequeueBuffer_def bind_run_eq_Inr Let_def blocking_state_def dest!: dequeue_found_queue [OF _ assms(3)]
        split: blocking.splits if_splits)
qed

lemma AttachBuffer_queue:
  assumes "AttachBuffer rounds out buffer p = Inr r" "list_all (list_all passive_consumer) rounds"
  shows "queue (blocking_state r) = queue p"
proof (cases "\<not> out \<or> buffer = None")
  case True
  then show ?thesis using assms(1) by (cases out) (auto simp: AttachBuffer_def blocking_state_def)
next
  case False
  with assms(1) obtain x where x: "WaitForFreeSlotThenRelock False rounds NoError p = Inr x"
    by (auto simp: AttachBuffer_def bind_run_eq_Inr)
  with False assms(1) WaitForFreeSlot_queue [OF x assms(2)] show ?thesis
    by (auto simp: AttachBuffer_def bind_run_eq_Inr blocking_state_def dest!: upd_slot_queue split: blocking.splits if_splits)
qed

text \<open>An operation of this kind leaves the queue as it is or, in synchronous use, adds the new frame at its end: if no
  frame behind number \<open>n\<close> was missing, none is missing afterwards.\<close>

definition none_lost :: "int \<Rightarrow> BufferItem list \<Rightarrow> bq \<Rightarrow> bool" where
  "none_lost n waiting p \<longleftrightarrow> fifo_inv n p \<and> frame_numbers p = [n + 1..uint (frame_counter p)] \<and>
     n \<le> uint (frame_counter p) \<and> (\<exists>new. queue p = waiting @ new)"

lemma passive_step_queue:
  assumes inv: "bq_inv p" and op: "passive_op op" "\<not> (\<exists>slot input. op = DoQueueBuffer slot input)" and r: "bq_step op p = Inr p'"
  shows "queue p' = queue p \<and> frame_counter p' = frame_counter p"
proof
  show "queue p' = queue p"
    using r op
    by (cases op)
      (auto simp: bq_step_def passive_op_def bind_run_eq_Inr RequestBuffer_def SetBufferCount_def DetachBuffer_def DetachNextBuffer_def
        CancelBuffer_def producer_Connect_def SetPreallocatedBuffer_def core_FreeBufferLocked_def Let_def
        dest!: upd_slot_queue consumer_step_queue FreeAllBuffersLocked_queue DequeueBuffer_queue AttachBuffer_queue
        split: if_splits option.splits)
  have "frames_step op p p'" using bq_step_ok [OF inv, of op] r by simp
  then show "frame_counter p' = frame_counter p" using op(2) by (auto simp: frames_step_def keeps_def)
qed

lemma none_lost_queued:
  assumes nl: "none_lost n waiting p" and inv: "fifo_inv n p'" and q: "queued_one False p p'"
  shows "none_lost n waiting p'"
proof -
  obtain item where e: "enqueued item (queue p) (queue p')" and it: "item_frame_number item = frame_counter p'"
    using q by (auto simp: queued_one_def)
  have "\<forall>item \<in> set (queue p). \<not> is_droppable item" using nl by (simp add: none_lost_def fifo_inv_def)
  then have "queue p' = queue p @ [item]" using e by (auto simp: enqueued_def)
  moreover have "uint (frame_counter p') = uint (frame_counter p) + 1" using q by (simp add: queued_one_def)
  ultimately show ?thesis
    using nl inv it by (auto simp: none_lost_def frame_numbers_def upto_rec2)
qed

lemma none_lost_step:
  assumes nl: "none_lost n waiting p" and op: "sync_op op" "passive_op op"
  shows "run_ok (none_lost n waiting) (bq_step op p)"
proof (cases "bq_step op p")
  case (Inl f)
  then show ?thesis using fifo_step [OF _ op(1), of n p] nl by (simp add: none_lost_def)
next
  case (Inr p')
  have f: "fifo_inv n p" using nl by (simp add: none_lost_def)
  have inv: "bq_inv p" using f by (simp add: fifo_inv_def)
  have f': "fifo_inv n p'" using fifo_step [OF f op(1)] Inr by simp
  have "none_lost n waiting p'"
  proof (cases "\<exists>slot input. op = DoQueueBuffer slot input")
    case True
    then obtain slot input where o: "op = DoQueueBuffer slot input" by blast
    have "bq_ok {} p" "tickets_ok p" using inv by (simp_all add: bq_inv_def)
    from QueueBuffer_ok [OF this, of input slot] Inr o op(1) have "p' = p \<or> queued_one False p p'"
      by (auto simp: bq_step_def bind_run_eq_Inr sync_op_def)
    then show ?thesis using none_lost_queued [OF nl f'] nl by blast
  next
    case False
    then show ?thesis using passive_step_queue [OF inv op(2) False Inr] nl f' by (simp add: none_lost_def frame_numbers_def)
  qed
  then show ?thesis by (simp add: Inr)
qed

interpretation waiting: checked_machine bq_step "none_lost n waiting" "\<lambda>op. sync_op op \<and> passive_op op"
  by unfold_locales (use none_lost_step in blast)

section \<open>The slot a producer gets\<close>

definition dequeued_well :: "bq \<Rightarrow> s32 \<Rightarrow> u32 \<Rightarrow> u32 \<Rightarrow> PixelFormat \<Rightarrow> u32 \<Rightarrow> Status \<Rightarrow> bq \<Rightarrow> bool" where
  "dequeued_well p slot width height format usage st p' \<longleftrightarrow>
     (let use_default_size = (width = 0 \<and> height = 0);
          width = (if use_default_size then default_width p else width);
          height = (if use_default_size then default_height p else height)
      in \<exists>sl new. p' = p\<lparr>slots := (slots p)[nat slot := sl], graphic_buffers := graphic_buffers p @ new\<rparr> \<and>
         buffer_state sl = Dequeued \<and>
         (\<exists>b. slot_graphic_buffer sl = Some b \<and> fits (graphic_buffers p' ! b) width height format usage) \<and>
         (new = [] \<and> slot_graphic_buffer sl = slot_graphic_buffer (slots p ! nat slot) \<or>
          length new = 1 \<and> slot_graphic_buffer sl = Some (length (graphic_buffers p)) \<and> st AND BufferNeedsReallocation \<noteq> 0))"

lemma dequeue_found_well:
  assumes ok: "bq_ok {} p" and f: "0 \<le> f" "f < 64" "buffer_state (slots p ! nat f) = Free" and na: "\<not> is_abandoned p"
    and r: "dequeue_found [] f flags w h fmt u p = Inr (st, Some (slot, fence), p')"
  shows "slot = f \<and> dequeued_well p slot w h fmt u st p'"
proof -
  have g: "aget (slots p) f = Inr (slots p ! nat f)" using bq_okD(1) [OF ok] f by (simp add: aget_def)
  define w' h' where "w' = (if w = 0 \<and> h = 0 then default_width p else w)"
    and "h' = (if w = 0 \<and> h = 0 then default_height p else h)"
  obtain realloc fence1 sls where d: "dequeue_slot f w' h' fmt u p = Inr (realloc, fence1, p\<lparr>slots := sls\<rparr>)"
    and okw: "bq_ok {f} (p\<lparr>slots := sls\<rparr>)" and deq: "buffer_state (sls ! nat f) = Dequeued"
    and oth: "\<forall>j. j \<noteq> nat f \<longrightarrow> sls ! j = slots p ! j"
    and keep: "\<not> realloc \<longrightarrow> slot_graphic_buffer (sls ! nat f) = slot_graphic_buffer (slots p ! nat f) \<and>
       (\<exists>b. slot_graphic_buffer (sls ! nat f) = Some b \<and> fits (graphic_buffers p ! b) w' h' fmt u)"
    using dequeue_slot_ok [OF ok f] by metis
  have len: "length sls = 64" using bq_okD(1) [OF okw] by simp
  define flags' where "flags' = (if realloc then flags OR BufferNeedsReallocation else flags)"
  let ?n = "length (graphic_buffers p)"
  let ?v = "(sls ! nat f)\<lparr>slot_frame_number := 0xFFFFFFFF, slot_graphic_buffer := Some ?n\<rparr>"
  have inst: "install_buffer f (new_GraphicBuffer w' h' fmt u) (p\<lparr>slots := sls\<rparr>) =
      Inr (NoError, p\<lparr>slots := sls[nat f := ?v], graphic_buffers := graphic_buffers p @ [new_GraphicBuffer w' h' fmt u]\<rparr>)"
    using na f len by (simp add: install_buffer_def upd_slot_eq)
  have fl: "flags' AND BufferNeedsReallocation \<noteq> 0" if realloc
    using that needs_reallocation_flag by (simp add: flags'_def)
  have st: "st = (if attached_by_consumer (slots p ! nat f) then flags' OR BufferNeedsReallocation else flags')" "slot = f"
    and p': "p' = (if flags' AND BufferNeedsReallocation \<noteq> 0
      then p\<lparr>slots := sls[nat f := ?v], graphic_buffers := graphic_buffers p @ [new_GraphicBuffer w' h' fmt u]\<rparr> else p\<lparr>slots := sls\<rparr>)"
    using r unfolding dequeue_found_def g bind_run_Inr Let_def w'_def [symmetric] h'_def [symmetric] d prod.case flags'_def [symmetric]
    by (auto simp: inst split: if_splits)
  have sls: "sls = (slots p)[nat f := sls ! nat f]"
    using len oth bq_okD(1) [OF ok] f by (intro nth_equalityI) (auto simp: nth_list_update)
  have sls2: "sls[nat f := v] = (slots p)[nat f := v]" for v by (subst sls) simp
  have "\<exists>sl new. p' = p\<lparr>slots := (slots p)[nat slot := sl], graphic_buffers := graphic_buffers p @ new\<rparr> \<and>
      buffer_state sl = Dequeued \<and> (\<exists>b. slot_graphic_buffer sl = Some b \<and> fits (graphic_buffers p' ! b) w' h' fmt u) \<and>
      (new = [] \<and> slot_graphic_buffer sl = slot_graphic_buffer (slots p ! nat slot) \<or>
       length new = 1 \<and> slot_graphic_buffer sl = Some (length (graphic_buffers p)) \<and> st AND BufferNeedsReallocation \<noteq> 0)"
  proof (cases "flags' AND BufferNeedsReallocation \<noteq> 0")
    case True
    moreover have "fits (new_GraphicBuffer w' h' fmt u) w' h' fmt u" by (simp add: fits_def new_GraphicBuffer_def)
    moreover have "st AND BufferNeedsReallocation \<noteq> 0" using True needs_reallocation_flag by (simp add: st(1))
    ultimately show ?thesis
      using deq by (intro exI [of _ ?v] exI [of _ "[new_GraphicBuffer w' h' fmt u]"]) (simp add: p' st(2) sls2)
  next
    case False
    then have "\<not> realloc" using fl by blast
    with keep obtain b where "slot_graphic_buffer (sls ! nat f) = Some b" "slot_graphic_buffer (slots p ! nat f) = Some b"
      "fits (graphic_buffers p ! b) w' h' fmt u" by metis
    with False deq show ?thesis
      by (intro exI [of _ "sls ! nat f"] exI [of _ "[]"]) (simp add: p' st(2) sls [symmetric])
  qed
  then show ?thesis by (simp add: dequeued_well_def Let_def w'_def [symmetric] h'_def [symmetric] st(2))
qed

lemma DequeueBuffer_well:
  assumes ok: "bq_ok {} p"
    and r: "DequeueBuffer rounds [] async w h fmt u p = Inr (Returned (st, Some (slot, fence), p'))"
  shows "\<exists>k \<le> length rounds. \<exists>q q'. wait_rounds async (take k rounds) p q \<and> free_slot_found async q q' slot \<and>
    dequeued_well q' slot w h (if fmt = NoFormat then default_buffer_format p else fmt) (u OR consumer_usage_bit p) st p'"
proof -
  let ?fmt = "if fmt = NoFormat then default_buffer_format p else fmt" and ?u = "u OR consumer_usage_bit p"
  from r obtain f flags q' where wt: "WaitForFreeSlotThenRelock async rounds NoError p = Inr (Returned (NoError, f, flags, q'))"
    and d: "dequeue_found [] f flags w h ?fmt ?u q' = Inr (st, Some (slot, fence), p')"
  proof -
    have sz: "\<not> ((w \<noteq> 0 \<and> h = 0) \<or> (w = 0 \<and> h \<noteq> 0))" using r by (auto simp: DequeueBuffer_def split: if_splits)
    have "WaitWhileAllocatingLocked p = Inr ()" using bq_okD(2) [OF ok] by (simp add: WaitWhileAllocatingLocked_def)
    with r obtain x where x: "WaitForFreeSlotThenRelock async rounds NoError p = Inr x"
      "(case x of Blocked p \<Rightarrow> Inr (Blocked p) | Returned (status, fnd, return_flags, p) \<Rightarrow>
          if status \<noteq> NoError then Inr (Returned (status, None, p))
          else if fnd = INVALID_BUFFER_SLOT then Inr (Returned (Busy, None, p))
          else bind_run (dequeue_found [] fnd return_flags w h ?fmt ?u p) (\<lambda>r. Inr (Returned r))) =
        Inr (Returned (st, Some (slot, fence), p'))"
      unfolding DequeueBuffer_def if_not_P [OF sz] Let_def by (auto simp: bind_run_eq_Inr)
    show ?thesis
    proof (cases x)
      case (Returned y)
      obtain st1 f flags q' where "y = (st1, f, flags, q')" by (cases y)
      with x Returned that [of f flags q'] show ?thesis by (auto simp: bind_run_eq_Inr split: if_splits)
    qed (use x(2) in simp)
  qed
  have wok: "bq_ok {} q'" and "\<exists>k \<le> length rounds. \<exists>q. wait_rounds async (take k rounds) p q \<and> free_slot_found async q q' f"
    using WaitForFreeSlot_ok [OF ok, of async rounds NoError] by (simp_all add: wt wait_found_def)
  then obtain k q where q: "k \<le> length rounds" "wait_rounds async (take k rounds) p q" "free_slot_found async q q' f" by blast
  from dequeue_found_well [OF wok free_slot_foundD [OF q(3)] d] q show ?thesis by blast
qed

section \<open>Sample runs\<close>

definition sample_frame :: "s32 \<Rightarrow> QueueBufferInput" where
  "sample_frame async = \<lparr>in_timestamp = 0, in_is_auto_timestamp = 0,
     in_crop = \<lparr>rect_left = 0, rect_top = 0, rect_right = 1, rect_bottom = 1\<rparr>, in_scaling_mode = Freeze, in_transform = 0,
     in_sticky_transform = 0, in_async = async, in_swap_interval = 0, in_fence = NoFence\<rparr>"

definition sample_setup :: "BufferQueueOp list" where
  "sample_setup = [DoConsumer (DoConsumerConnect (Some 0) False), DoConnect None Egl False True, DoSetBufferCount 3]"

definition sample_dequeue :: BufferQueueOp where
  "sample_dequeue = DoDequeueBuffer [] [] False 0 0 NoFormat 0"

definition sample_queue :: "s32 \<Rightarrow> s32 \<Rightarrow> BufferQueueOp list" where
  "sample_queue slot async = [sample_dequeue, DoRequestBuffer slot, DoQueueBuffer slot (sample_frame async)]"

text \<open>What a run leaves: the states of the first four slots and the numbers of the frames in the queue.\<close>

definition observe :: "bq run \<Rightarrow> (BufferState list \<times> int list) run" where
  "observe r = map_sum id (\<lambda>p. (map buffer_state (take 4 (slots p)), frame_numbers p)) r"

lemma map_sum_Inr_eq: "map_sum id g r = Inr y \<longleftrightarrow> (\<exists>x. r = Inr x \<and> g x = y)"
  by (cases r) auto

lemma observe_Inr: "observe r = Inr (sts, fns) \<longleftrightarrow> (\<exists>p. r = Inr p \<and> map buffer_state (take 4 (slots p)) = sts \<and> frame_numbers p = fns)"
  by (cases r) (simp_all add: observe_def)

section \<open>Properties\<close>

text \<open>C30: Whatever producer and consumers do, and however their critical sections interleave, a queue that was new never
  leaves an array or follows a null pointer (a run stops only at an assertion or when the tickets run out), every slot
  in the state \<open>Queued\<close> belongs to exactly one frame of the queue that still tracks it and no other slot to any, the
  consumer holds at most one slot, and every slot the producer holds has a buffer until the queue is abandoned.\<close>

theorem buffer_queue_safe:
  "run_ok (\<lambda>p. length (slots p) = 64 \<and>
      (\<forall>i < 64. length (filter (\<lambda>item. item_slot item = int i \<and> tracks (slots p ! i) item) (queue p)) =
         (if buffer_state (slots p ! i) = Queued then 1 else 0)) \<and>
      length (filter (\<lambda>sl. buffer_state sl = Acquired) (slots p)) \<le> 1 \<and>
      (\<not> is_abandoned p \<longrightarrow> (\<forall>i < 64. buffer_state (slots p ! i) = Dequeued \<longrightarrow> slot_graphic_buffer (slots p ! i) \<noteq> None)))
    (run_ops bq_step ops new_BufferQueue)"
  by (rule run_ok_mono [OF bq.run_checked [OF bq_inv_new]])
    (auto simp: list_all_iff bq_inv_def bq_ok_def slot_ok_def trackers_def acquired_def [abs_def])

theorem buffer_queue_safe_witness:
  "\<exists>p. run_ops bq_step (sample_setup @ sample_queue 0 0) new_BufferQueue = Inr p \<and> buffer_state (slots p ! 0) = Queued \<and>
     length (filter (\<lambda>item. item_slot item = 0 \<and> tracks (slots p ! 0) item) (queue p)) = 1"
proof -
  have "observe (run_ops bq_step (sample_setup @ sample_queue 0 0) new_BufferQueue) = Inr ([Queued, Free, Free, Free], [1])"
    by code_simp
  then obtain p where p: "run_ops bq_step (sample_setup @ sample_queue 0 0) new_BufferQueue = Inr p"
    "map buffer_state (take 4 (slots p)) = [Queued, Free, Free, Free]" by (auto simp: observe_Inr)
  have len: "length (slots p) = 64"
    and tr: "\<forall>i < 64. length (filter (\<lambda>item. item_slot item = int i \<and> tracks (slots p ! i) item) (queue p)) =
         (if buffer_state (slots p ! i) = Queued then 1 else 0)"
    using buffer_queue_safe [of "sample_setup @ sample_queue 0 0"] by (simp_all add: p(1))
  have "buffer_state (slots p ! 0) = Queued" using arg_cong [OF p(2), of "\<lambda>xs. xs ! 0"] len by simp
  with p(1) tr [rule_format, of 0] show ?thesis by (intro exI [of _ p]) simp
qed

text \<open>C31: In synchronous use frames reach the consumer in the order they were queued, each at most once: a frame acquired later
  has a higher number than one acquired before, whatever happens between, and behind an acquired frame the queue holds
  exactly the frames with the numbers that follow, up to the last one queued.  \<^verbatim>\<open>AcquireBuffer\<close> passes over a frame only if it
  is given a time of presentation, the frame has a timestamp of its own and the frame behind it is due.  As long as
  nobody else acquires or disconnects, no frame is lost: what waited behind the first acquired frame still waits, and
  without a time of presentation the next frame acquired has the next number.\<close>

theorem buffer_queue_fifo:
  assumes "list_all sync_op ops1" "list_all sync_op ops2"
    and "run_ops bq_step ops1 new_BufferQueue = Inr p1" "AcquireBuffer t1 p1 = Inr (NoError, Some item1, q1)"
    and "run_ops bq_step ops2 q1 = Inr p2" "AcquireBuffer t2 p2 = Inr (NoError, Some item2, q2)"
  shows "item_frame_number item1 < item_frame_number item2 \<and>
    map (\<lambda>item. uint (item_frame_number item)) (queue q2) = [uint (item_frame_number item2) + 1..uint (frame_counter q2)] \<and>
    (\<exists>gone front. queue p2 = gone @ front # queue q2 \<and> item_frame_number item2 = item_frame_number front \<and>
      (t2 = 0 \<longrightarrow> gone = []) \<and> overdue t2 gone [front]) \<and>
    (list_all passive_op ops2 \<longrightarrow> (\<exists>new. queue p2 = queue q1 @ new) \<and>
      (t2 = 0 \<longrightarrow> uint (item_frame_number item2) = uint (item_frame_number item1) + 1))"
proof -
  let ?n = "uint (item_frame_number item1)"
  have "fifo_inv 0 p1" using fifo.run_checked [OF fifo_inv_new assms(1)] assms(3) by simp
  note a1 = fifo_acquire [OF this assms(4)]
  have f2: "fifo_inv ?n p2" using fifo.run_checked [OF conjunct1 [OF a1] assms(2)] assms(5) by simp
  note a2 = fifo_acquire [OF f2 assms(6)]
  have ok: "bq_ok {} p2" using f2 by (simp add: fifo_inv_def bq_inv_def)
  obtain gone front where g: "queue p2 = gone @ front # queue q2" "item_frame_number item2 = item_frame_number front"
    "t2 = 0 \<longrightarrow> gone = []" "overdue t2 gone [front]" using AcquireBuffer_front [OF ok assms(6)] by blast
  have "(\<exists>new. queue p2 = queue q1 @ new) \<and> (t2 = 0 \<longrightarrow> uint (item_frame_number item2) = ?n + 1)" if pas: "list_all passive_op ops2"
  proof -
    have "?n \<le> uint (frame_counter q1)" using a1 by (cases "queue q1") (auto simp: fifo_inv_def frame_numbers_def)
    then have "none_lost ?n (queue q1) q1" using a1 by (simp add: none_lost_def)
    then have nl: "none_lost ?n (queue q1) p2"
      using waiting.run_checked [of ?n "queue q1" q1 ops2] assms(2,5) pas by (simp add: list_all_iff)
    moreover have "uint (item_frame_number item2) = ?n + 1" if "t2 = 0"
    proof -
      have "frame_numbers p2 = uint (item_frame_number item2) # frame_numbers q2" using g that by (simp add: frame_numbers_def)
      moreover have "frame_numbers p2 = [?n + 1..uint (frame_counter p2)]" using nl by (simp add: none_lost_def)
      ultimately show ?thesis by (cases "?n + 1 \<le> uint (frame_counter p2)") (auto simp: upto_rec1)
    qed
    ultimately show ?thesis by (simp add: none_lost_def)
  qed
  then show ?thesis using a1 a2 g unfolding word_less_def frame_numbers_def by blast
qed

theorem buffer_queue_fifo_witness:
  "\<exists>p1 item1 q1 p2 item2 q2.
     run_ops bq_step (sample_setup @ sample_queue 0 0 @ sample_queue 1 0) new_BufferQueue = Inr p1 \<and>
     AcquireBuffer 0 p1 = Inr (NoError, Some item1, q1) \<and>
     run_ops bq_step [DoConsumer (DoReleaseBuffer 0 1)] q1 = Inr p2 \<and>
     AcquireBuffer 0 p2 = Inr (NoError, Some item2, q2) \<and> uint (item_frame_number item2) = uint (item_frame_number item1) + 1"
proof -
  have "map_sum id (\<lambda>(st, item, q). (st, item \<noteq> None))
      (bind_run (run_ops bq_step (sample_setup @ sample_queue 0 0 @ sample_queue 1 0) new_BufferQueue) (\<lambda>p1.
       bind_run (AcquireBuffer 0 p1) (\<lambda>(st1, item1, q1). if st1 = NoError \<and> item1 \<noteq> None then
       bind_run (run_ops bq_step [DoConsumer (DoReleaseBuffer 0 1)] q1) (AcquireBuffer 0) else Inl OutOfFuel))) =
      Inr (NoError, True)"
    by code_simp
  then obtain p1 item1 q1 p2 item2 q2 where
    w: "run_ops bq_step (sample_setup @ sample_queue 0 0 @ sample_queue 1 0) new_BufferQueue = Inr p1"
      "AcquireBuffer 0 p1 = Inr (NoError, Some item1, q1)" "run_ops bq_step [DoConsumer (DoReleaseBuffer 0 1)] q1 = Inr p2"
      "AcquireBuffer 0 p2 = Inr (NoError, Some item2, q2)"
    by (auto simp: map_sum_Inr_eq bind_run_eq_Inr simp del: run_ops.simps split: if_splits)
  have sync: "list_all sync_op (sample_setup @ sample_queue 0 0 @ sample_queue 1 0)" "list_all sync_op [DoConsumer (DoReleaseBuffer 0 1)]"
    by (simp_all add: sync_op_def sample_setup_def sample_queue_def sample_dequeue_def sample_frame_def)
  moreover have "list_all passive_op [DoConsumer (DoReleaseBuffer 0 1)]" by (simp add: passive_op_def passive_consumer_def)
  ultimately show ?thesis using w buffer_queue_fifo [OF sync w] by blast
qed

text \<open>C32: \<^verbatim>\<open>DequeueBuffer\<close> gives the producer the free slot with the lowest frame number (the first of several) among those
  below the buffer count, in the very state in which its wait ends: the state it was called in, changed only by the
  consumer's first rounds, in their order, by the end of the sleep, and by the release of the buffers of free slots
  beyond the count.  From there on it changes this slot and, when it allocates, the pool of buffers, and nothing else:
  the slot becomes \<open>Dequeued\<close> and holds a buffer of the requested size, format and usage, the one it had or a new one,
  which the flag \<^verbatim>\<open>BufferNeedsReallocation\<close> announces.  (The consumer may do anything while the producer sleeps; it is
  taken to do nothing while a buffer is allocated.)\<close>

theorem dequeue_buffer_oldest_free:
  assumes "run_ops bq_step ops new_BufferQueue = Inr p"
    and "DequeueBuffer rounds [] async width height format usage p = Inr (Returned (st, Some (slot, fence), p'))"
  shows "\<exists>k \<le> length rounds. \<exists>q q' m. wait_rounds async (take k rounds) p q \<and> \<not> is_abandoned q \<and>
    GetMaxBufferCountLocked async q = Inr m \<and> oldest_free (slots q) (nat m) slot \<and>
    excess_freed async q q' \<and> slots q' ! nat slot = slots q ! nat slot \<and>
    dequeued_well q' slot width height (if format = NoFormat then default_buffer_format p else format)
      (usage OR consumer_usage_bit p) st p'"
proof -
  have "bq_inv p" using bq.run_checked [OF bq_inv_new, of ops] assms(1) by (simp add: list_all_iff)
  then obtain k q q' where q: "k \<le> length rounds" "wait_rounds async (take k rounds) p q" "free_slot_found async q q' slot"
    "dequeued_well q' slot width height (if format = NoFormat then default_buffer_format p else format) (usage OR consumer_usage_bit p) st p'"
    using DequeueBuffer_well [OF _ assms(2)] unfolding bq_inv_def by blast
  from q(3) obtain m where m: "\<not> is_abandoned q" "excess_freed async q q'" "GetMaxBufferCountLocked async q = Inr m"
    "oldest_free (slots q) (nat m) slot" "\<forall>i < nat m. slots q' ! i = slots q ! i" unfolding free_slot_found_def by blast
  have "nat slot < nat m" using m(4) by (auto simp: oldest_free_def split: if_splits)
  with m(5) have "slots q' ! nat slot = slots q ! nat slot" by simp
  with q m show ?thesis by blast
qed

theorem dequeue_buffer_oldest_free_witness:
  "\<exists>p p' fence. run_ops bq_step (sample_setup @ sample_queue 0 0) new_BufferQueue = Inr p \<and>
     DequeueBuffer [] [] False 0 0 NoFormat 0 p = Inr (Returned (BufferNeedsReallocation, Some (1, fence), p')) \<and>
     (\<exists>q q' m. wait_rounds False [] p q \<and> GetMaxBufferCountLocked False q = Inr m \<and> oldest_free (slots q) (nat m) 1 \<and>
        dequeued_well q' 1 0 0 (default_buffer_format p) (consumer_usage_bit p) BufferNeedsReallocation p')"
proof -
  have "map_sum id (\<lambda>r. case r of Blocked _ \<Rightarrow> None | Returned (st, out, _) \<Rightarrow> Some (st, map_option fst out))
      (bind_run (run_ops bq_step (sample_setup @ sample_queue 0 0) new_BufferQueue)
        (DequeueBuffer [] [] False 0 0 NoFormat 0)) = Inr (Some (BufferNeedsReallocation, Some 1))"
    by code_simp
  then obtain p x where "run_ops bq_step (sample_setup @ sample_queue 0 0) new_BufferQueue = Inr p"
    "DequeueBuffer [] [] False 0 0 NoFormat 0 p = Inr x"
    "(case x of Blocked _ \<Rightarrow> None | Returned (st, out, _) \<Rightarrow> Some (st, map_option fst out)) = Some (BufferNeedsReallocation, Some 1)"
    by (auto simp: map_sum_Inr_eq bind_run_eq_Inr simp del: run_ops.simps)
  then obtain p' fence where
    w: "run_ops bq_step (sample_setup @ sample_queue 0 0) new_BufferQueue = Inr p"
      "DequeueBuffer [] [] False 0 0 NoFormat 0 p = Inr (Returned (BufferNeedsReallocation, Some (1, fence), p'))"
    by (cases x) auto
  show ?thesis using w dequeue_buffer_oldest_free [OF w] by auto
qed

text \<open>The assertion of \<^verbatim>\<open>WaitForFreeSlotThenRelock\<close> that slots beyond the buffer count are free can fail: a client takes three
  slots, queues the third, which the consumer acquires, gives the others back and resets the buffer count; the count
  falls back to two although the third slot is in use, and the next \<^verbatim>\<open>DequeueBuffer\<close> stops.\<close>

lemma dequeue_assertion_fails:
  "run_ops bq_step (sample_setup @ [sample_dequeue, sample_dequeue, sample_dequeue, DoRequestBuffer 2,
       DoQueueBuffer 2 (sample_frame 0), DoConsumer (DoAcquireBuffer 0), DoCancelBuffer 0 NoFence, DoCancelBuffer 1 NoFence,
       DoSetBufferCount 0, sample_dequeue]) new_BufferQueue = Inl AssertFailed"
  by code_simp

text \<open>A droppable frame that reaches the front of a longer queue is replaced by the newest frame, which so overtakes the
  frames between: here the fourth frame comes before the third.\<close>

lemma async_frame_overtakes:
  "observe (run_ops bq_step (sample_setup @ sample_queue 0 0 @ sample_queue 1 1 @ sample_queue 2 0 @
     [DoConsumer (DoAcquireBuffer 0), DoConsumer (DoReleaseBuffer 0 1)] @ sample_queue 0 0) new_BufferQueue) =
   Inr ([Queued, Free, Queued, Free], [4, 3])"
  by code_simp

end
