(* ===== verification/KMemoryBlock.thy ===== *)
theory KMemoryBlock
  imports Prelude
begin

text \<open>
  One block of a guest address space (\<^verbatim>\<open>core/hle/kernel/k_memory_block.h\<close>): a run of pages with one state, permission and
  attribute, the counts of the locks on it, and the attributes that keep it from being merged with its neighbours.  Addresses and
  sizes are 64-bit: they are integers with the wrap-around of \<open>add64\<close>, \<open>sub64\<close> and \<open>mul64\<close> written out.  The functions with
  an \<^verbatim>\<open>ASSERT\<close> return \<open>'a run\<close>.
\<close>

section \<open>Addresses\<close>

type_synonym KProcessAddress = int
type_synonym size_t = int

definition add64 :: "int \<Rightarrow> int \<Rightarrow> int" where "add64 a b = (a + b) mod 2 ^ 64"
definition sub64 :: "int \<Rightarrow> int \<Rightarrow> int" where "sub64 a b = (a - b) mod 2 ^ 64"
definition mul64 :: "int \<Rightarrow> int \<Rightarrow> int" where "mul64 a b = (a * b) mod 2 ^ 64"

lemma add64_exact [simp]: "0 \<le> a + b \<Longrightarrow> a + b < 2 ^ 64 \<Longrightarrow> add64 a b = a + b"
  by (simp add: add64_def)

lemma sub64_exact [simp]: "b \<le> a \<Longrightarrow> a - b < 2 ^ 64 \<Longrightarrow> sub64 a b = a - b"
  by (simp add: sub64_def)

lemma mul64_exact [simp]: "0 \<le> a * b \<Longrightarrow> a * b < 2 ^ 64 \<Longrightarrow> mul64 a b = a * b"
  by (simp add: mul64_def)

definition PageSize :: size_t where "PageSize = 0x1000"

lemma PageSize_pos [simp]: "0 < PageSize" "PageSize \<noteq> 0"
  by (simp_all add: PageSize_def)

definition AlignDown :: "int \<Rightarrow> size_t \<Rightarrow> int" where
  "AlignDown v sz = v - v mod sz"

definition IsAligned :: "int \<Rightarrow> size_t \<Rightarrow> bool" where
  "IsAligned v alignment \<longleftrightarrow> v AND (alignment - 1) = 0"

lemma IsAligned_PageSize: "IsAligned v PageSize \<longleftrightarrow> PageSize dvd v"
proof -
  have "v AND 4095 = take_bit 12 v" by (simp add: take_bit_eq_mask mask_eq_exp_minus_1)
  then show ?thesis by (simp add: IsAligned_def PageSize_def take_bit_eq_mod dvd_eq_mod_eq_0)
qed

section \<open>Enumerations\<close>

type_synonym KMemoryState = u32
type_synonym KMemoryPermission = u8
type_synonym KMemoryAttribute = u8
type_synonym DisableMerge = u8

definition FlagCanReprotect :: KMemoryState where "FlagCanReprotect = push_bit 8 1"
definition FlagCanDebug :: KMemoryState where "FlagCanDebug = push_bit 9 1"
definition FlagCanUseIpc :: KMemoryState where "FlagCanUseIpc = push_bit 10 1"
definition FlagCanUseNonDeviceIpc :: KMemoryState where "FlagCanUseNonDeviceIpc = push_bit 11 1"
definition FlagCanUseNonSecureIpc :: KMemoryState where "FlagCanUseNonSecureIpc = push_bit 12 1"
definition FlagMapped :: KMemoryState where "FlagMapped = push_bit 13 1"
definition FlagCode :: KMemoryState where "FlagCode = push_bit 14 1"
definition FlagCanAlias :: KMemoryState where "FlagCanAlias = push_bit 15 1"
definition FlagCanCodeAlias :: KMemoryState where "FlagCanCodeAlias = push_bit 16 1"
definition FlagCanTransfer :: KMemoryState where "FlagCanTransfer = push_bit 17 1"
definition FlagCanQueryPhysical :: KMemoryState where "FlagCanQueryPhysical = push_bit 18 1"
definition FlagCanDeviceMap :: KMemoryState where "FlagCanDeviceMap = push_bit 19 1"
definition FlagCanAlignedDeviceMap :: KMemoryState where "FlagCanAlignedDeviceMap = push_bit 20 1"
definition FlagCanIpcUserBuffer :: KMemoryState where "FlagCanIpcUserBuffer = push_bit 21 1"
definition FlagReferenceCounted :: KMemoryState where "FlagReferenceCounted = push_bit 22 1"
definition FlagCanMapProcess :: KMemoryState where "FlagCanMapProcess = push_bit 23 1"
definition FlagCanChangeAttribute :: KMemoryState where "FlagCanChangeAttribute = push_bit 24 1"
definition FlagCanCodeMemory :: KMemoryState where "FlagCanCodeMemory = push_bit 25 1"
definition FlagLinearMapped :: KMemoryState where "FlagLinearMapped = push_bit 26 1"
definition FlagCanPermissionLock :: KMemoryState where "FlagCanPermissionLock = push_bit 27 1"

definition FlagsData :: KMemoryState where
  "FlagsData = FlagCanReprotect OR FlagCanUseIpc OR FlagCanUseNonDeviceIpc OR FlagCanUseNonSecureIpc OR FlagMapped OR
     FlagCanAlias OR FlagCanTransfer OR FlagCanQueryPhysical OR FlagCanDeviceMap OR FlagCanAlignedDeviceMap OR
     FlagCanIpcUserBuffer OR FlagReferenceCounted OR FlagCanChangeAttribute OR FlagLinearMapped"
definition FlagsCode :: KMemoryState where
  "FlagsCode = FlagCanDebug OR FlagCanUseIpc OR FlagCanUseNonDeviceIpc OR FlagCanUseNonSecureIpc OR FlagMapped OR
     FlagCode OR FlagCanQueryPhysical OR FlagCanDeviceMap OR FlagCanAlignedDeviceMap OR FlagReferenceCounted OR
     FlagLinearMapped"
definition FlagsMisc :: KMemoryState where
  "FlagsMisc = FlagMapped OR FlagReferenceCounted OR FlagCanQueryPhysical OR FlagCanDeviceMap OR FlagLinearMapped"

definition State_Free :: KMemoryState where
  "State_Free = 0x00"
definition State_IoMemory :: KMemoryState where
  "State_IoMemory = 0x01 OR FlagMapped OR FlagCanDeviceMap OR FlagCanAlignedDeviceMap"
definition State_IoRegister :: KMemoryState where
  "State_IoRegister = 0x01 OR FlagCanDeviceMap OR FlagCanAlignedDeviceMap"
definition State_Static :: KMemoryState where
  "State_Static = 0x02 OR FlagMapped OR FlagCanQueryPhysical"
definition State_Code :: KMemoryState where
  "State_Code = 0x03 OR FlagsCode OR FlagCanMapProcess"
definition State_CodeData :: KMemoryState where
  "State_CodeData = 0x04 OR FlagsData OR FlagCanMapProcess OR FlagCanCodeMemory OR FlagCanPermissionLock"
definition State_Normal :: KMemoryState where
  "State_Normal = 0x05 OR FlagsData OR FlagCanCodeMemory"
definition State_Shared :: KMemoryState where
  "State_Shared = 0x06 OR FlagMapped OR FlagReferenceCounted OR FlagLinearMapped"
definition State_AliasCode :: KMemoryState where
  "State_AliasCode = 0x08 OR FlagsCode OR FlagCanMapProcess OR FlagCanCodeAlias"
definition State_AliasCodeData :: KMemoryState where
  "State_AliasCodeData = 0x09 OR FlagsData OR FlagCanMapProcess OR FlagCanCodeAlias OR FlagCanCodeMemory OR
     FlagCanPermissionLock"
definition State_Ipc :: KMemoryState where
  "State_Ipc = 0x0A OR FlagsMisc OR FlagCanAlignedDeviceMap OR FlagCanUseIpc OR FlagCanUseNonSecureIpc OR
     FlagCanUseNonDeviceIpc"
definition State_Stack :: KMemoryState where
  "State_Stack = 0x0B OR FlagsMisc OR FlagCanAlignedDeviceMap OR FlagCanUseIpc OR FlagCanUseNonSecureIpc OR
     FlagCanUseNonDeviceIpc"
definition State_ThreadLocal :: KMemoryState where
  "State_ThreadLocal = 0x0C OR FlagLinearMapped"
definition State_Transferred :: KMemoryState where
  "State_Transferred = 0x0D OR FlagsMisc OR FlagCanAlignedDeviceMap OR FlagCanChangeAttribute OR FlagCanUseIpc
     OR FlagCanUseNonSecureIpc OR FlagCanUseNonDeviceIpc"
definition State_SharedTransferred :: KMemoryState where
  "State_SharedTransferred = 0x0E OR FlagsMisc OR FlagCanAlignedDeviceMap OR FlagCanUseNonSecureIpc OR
     FlagCanUseNonDeviceIpc"
definition State_SharedCode :: KMemoryState where
  "State_SharedCode = 0x0F OR FlagMapped OR FlagReferenceCounted OR FlagLinearMapped OR FlagCanUseNonSecureIpc
     OR FlagCanUseNonDeviceIpc"
definition State_Inaccessible :: KMemoryState where
  "State_Inaccessible = 0x10"
definition State_NonSecureIpc :: KMemoryState where
  "State_NonSecureIpc = 0x11 OR FlagsMisc OR FlagCanAlignedDeviceMap OR FlagCanUseNonSecureIpc OR
     FlagCanUseNonDeviceIpc"
definition State_NonDeviceIpc :: KMemoryState where
  "State_NonDeviceIpc = 0x12 OR FlagsMisc OR FlagCanUseNonDeviceIpc"
definition State_Kernel :: KMemoryState where
  "State_Kernel = 0x13"
definition State_GeneratedCode :: KMemoryState where
  "State_GeneratedCode = 0x14 OR FlagMapped OR FlagReferenceCounted OR FlagCanDebug OR FlagLinearMapped"
definition State_CodeOut :: KMemoryState where
  "State_CodeOut = 0x15 OR FlagMapped OR FlagReferenceCounted OR FlagLinearMapped"
definition State_Coverage :: KMemoryState where
  "State_Coverage = 0x16 OR FlagMapped"
definition State_Insecure :: KMemoryState where
  "State_Insecure = 0x17 OR FlagMapped OR FlagReferenceCounted OR FlagLinearMapped OR FlagCanChangeAttribute OR
     FlagCanDeviceMap OR FlagCanAlignedDeviceMap OR FlagCanQueryPhysical OR FlagCanUseNonSecureIpc OR
     FlagCanUseNonDeviceIpc"

definition State_Mask :: KMemoryState where "State_Mask = 0xFF"

definition KernelRead :: KMemoryPermission where "KernelRead = push_bit 3 1"
definition KernelWrite :: KMemoryPermission where "KernelWrite = push_bit 3 2"
definition NotMapped :: KMemoryPermission where "NotMapped = push_bit (2 * 3) 1"
definition UserRead :: KMemoryPermission where "UserRead = 1 OR KernelRead"
definition UserWrite :: KMemoryPermission where "UserWrite = 2 OR KernelWrite"
definition UserExecute :: KMemoryPermission where "UserExecute = 4"
definition UserReadWrite :: KMemoryPermission where "UserReadWrite = UserRead OR UserWrite"
definition Permission_UserMask :: KMemoryPermission where "Permission_UserMask = 1 OR 2 OR 4"
definition IpcLockChangeMask :: KMemoryPermission where "IpcLockChangeMask = NotMapped OR UserReadWrite"

lemmas permission_defs = KernelRead_def KernelWrite_def NotMapped_def UserRead_def UserWrite_def UserExecute_def
  UserReadWrite_def Permission_UserMask_def IpcLockChangeMask_def

text \<open>\<^verbatim>\<open>static_cast<KMemoryPermission>(perm)\<close> keeps the low byte of the 32-bit permission of the system call.\<close>

definition ConvertToKMemoryPermission :: "u32 \<Rightarrow> KMemoryPermission" where
  "ConvertToKMemoryPermission perm =
     (ucast perm AND Permission_UserMask) OR KernelRead OR push_bit 3 (ucast perm AND UserWrite) OR
     (if perm = 0 then NotMapped else 0)"

definition Attribute_Locked :: KMemoryAttribute where "Attribute_Locked = 1"
definition IpcLocked :: KMemoryAttribute where "IpcLocked = 2"
definition DeviceShared :: KMemoryAttribute where "DeviceShared = 4"
definition Uncached :: KMemoryAttribute where "Uncached = 8"
definition PermissionLocked :: KMemoryAttribute where "PermissionLocked = 16"

definition DisableMerge_Normal :: DisableMerge where "DisableMerge_Normal = push_bit 0 1"
definition DeviceLeft :: DisableMerge where "DeviceLeft = push_bit 1 1"
definition IpcLeft :: DisableMerge where "IpcLeft = push_bit 2 1"
definition DisableMerge_Locked :: DisableMerge where "DisableMerge_Locked = push_bit 3 1"
definition DeviceRight :: DisableMerge where "DeviceRight = push_bit 4 1"
definition AllLeft :: DisableMerge where
  "AllLeft = DisableMerge_Normal OR DeviceLeft OR IpcLeft OR DisableMerge_Locked"
definition AllRight :: DisableMerge where "AllRight = DeviceRight"

section \<open>Blocks\<close>

record KMemoryBlock =
  m_device_disable_merge_left_count :: u16
  m_device_disable_merge_right_count :: u16
  m_address :: KProcessAddress
  m_num_pages :: size_t
  m_memory_state :: KMemoryState
  m_ipc_lock_count :: u16
  m_device_use_count :: u16
  m_ipc_disable_merge_count :: u16
  m_permission :: KMemoryPermission
  m_original_permission :: KMemoryPermission
  m_attribute :: KMemoryAttribute
  m_disable_merge_attribute :: DisableMerge

definition new_KMemoryBlock :: "KProcessAddress \<Rightarrow> size_t \<Rightarrow> KMemoryState \<Rightarrow> KMemoryPermission \<Rightarrow> KMemoryAttribute \<Rightarrow> KMemoryBlock" where
  "new_KMemoryBlock addr np ms p attr =
     \<lparr>m_device_disable_merge_left_count = 0, m_device_disable_merge_right_count = 0, m_address = addr,
      m_num_pages = np, m_memory_state = ms, m_ipc_lock_count = 0, m_device_use_count = 0,
      m_ipc_disable_merge_count = 0, m_permission = p, m_original_permission = 0, m_attribute = attr,
      m_disable_merge_attribute = 0\<rparr>"

definition mb_Initialize :: "KProcessAddress \<Rightarrow> size_t \<Rightarrow> KMemoryState \<Rightarrow> KMemoryPermission \<Rightarrow> KMemoryAttribute \<Rightarrow> KMemoryBlock \<Rightarrow> KMemoryBlock" where
  "mb_Initialize addr np ms p attr b =
     b\<lparr>m_device_disable_merge_left_count := 0, m_device_disable_merge_right_count := 0, m_address := addr,
       m_num_pages := np, m_memory_state := ms, m_ipc_lock_count := 0, m_device_use_count := 0, m_permission := p,
       m_original_permission := 0, m_attribute := attr, m_disable_merge_attribute := 0\<rparr>"

definition mb_GetSize :: "KMemoryBlock \<Rightarrow> size_t" where
  "mb_GetSize b = mul64 (m_num_pages b) PageSize"

definition mb_GetEndAddress :: "KMemoryBlock \<Rightarrow> KProcessAddress" where
  "mb_GetEndAddress b = add64 (m_address b) (mb_GetSize b)"

definition mb_GetLastAddress :: "KMemoryBlock \<Rightarrow> KProcessAddress" where
  "mb_GetLastAddress b = sub64 (mb_GetEndAddress b) 1"

definition mb_Compare :: "KMemoryBlock \<Rightarrow> KMemoryBlock \<Rightarrow> int" where
  "mb_Compare lhs rhs =
     (if m_address lhs < m_address rhs then - 1
      else if m_address lhs \<le> mb_GetLastAddress rhs then 0
      else 1)"

text \<open>\<^verbatim>\<open>KMemoryInfo\<close>, a copy of a block's fields; only its sizes are computed.\<close>

record KMemoryInfo =
  i_address :: KProcessAddress
  i_size :: size_t
  i_state :: KMemoryState
  i_device_disable_merge_left_count :: u16
  i_device_disable_merge_right_count :: u16
  i_ipc_lock_count :: u16
  i_device_use_count :: u16
  i_ipc_disable_merge_count :: u16
  i_permission :: KMemoryPermission
  i_attribute :: KMemoryAttribute
  i_original_permission :: KMemoryPermission
  i_disable_merge_attribute :: DisableMerge

definition GetMemoryInfo :: "KMemoryBlock \<Rightarrow> KMemoryInfo" where
  "GetMemoryInfo b =
     \<lparr>i_address = m_address b, i_size = mb_GetSize b, i_state = m_memory_state b,
      i_device_disable_merge_left_count = m_device_disable_merge_left_count b,
      i_device_disable_merge_right_count = m_device_disable_merge_right_count b,
      i_ipc_lock_count = m_ipc_lock_count b, i_device_use_count = m_device_use_count b,
      i_ipc_disable_merge_count = m_ipc_disable_merge_count b, i_permission = m_permission b,
      i_attribute = m_attribute b, i_original_permission = m_original_permission b,
      i_disable_merge_attribute = m_disable_merge_attribute b\<rparr>"

definition info_GetNumPages :: "KMemoryInfo \<Rightarrow> size_t" where
  "info_GetNumPages i = i_size i div PageSize"

definition info_GetEndAddress :: "KMemoryInfo \<Rightarrow> KProcessAddress" where
  "info_GetEndAddress i = add64 (i_address i) (i_size i)"

definition info_GetLastAddress :: "KMemoryInfo \<Rightarrow> KProcessAddress" where
  "info_GetLastAddress i = sub64 (info_GetEndAddress i) 1"

text \<open>What a guest reads of a block.\<close>

record SvcMemoryInfo =
  base_address :: KProcessAddress
  svc_size :: size_t
  svc_state :: u32
  svc_attribute :: u32
  svc_permission :: u32
  ipc_count :: u32
  device_count :: u32

definition GetSvcMemoryInfo :: "KMemoryInfo \<Rightarrow> SvcMemoryInfo" where
  "GetSvcMemoryInfo i =
     \<lparr>base_address = i_address i, svc_size = i_size i, svc_state = i_state i AND State_Mask,
      svc_attribute = ucast (i_attribute i AND 0xFF), svc_permission = ucast (i_permission i AND Permission_UserMask),
      ipc_count = ucast (i_ipc_lock_count i), device_count = ucast (i_device_use_count i)\<rparr>"

definition AttributeIgnoreMask :: KMemoryAttribute where
  "AttributeIgnoreMask = IpcLocked OR DeviceShared"

definition HasProperties :: "KMemoryBlock \<Rightarrow> KMemoryState \<Rightarrow> KMemoryPermission \<Rightarrow> KMemoryAttribute \<Rightarrow> bool" where
  "HasProperties b s p a \<longleftrightarrow>
     m_memory_state b = s \<and> m_permission b = p \<and> m_attribute b OR AttributeIgnoreMask = a OR AttributeIgnoreMask"

definition HasSameProperties :: "KMemoryBlock \<Rightarrow> KMemoryBlock \<Rightarrow> bool" where
  "HasSameProperties b rhs \<longleftrightarrow>
     m_memory_state b = m_memory_state rhs \<and> m_permission b = m_permission rhs \<and>
     m_original_permission b = m_original_permission rhs \<and> m_attribute b = m_attribute rhs \<and>
     m_ipc_lock_count b = m_ipc_lock_count rhs \<and> m_device_use_count b = m_device_use_count rhs"

definition CanMergeWith :: "KMemoryBlock \<Rightarrow> KMemoryBlock \<Rightarrow> bool" where
  "CanMergeWith b rhs \<longleftrightarrow>
     HasSameProperties b rhs \<and> m_disable_merge_attribute b AND AllRight = 0 \<and>
     m_disable_merge_attribute rhs AND AllLeft = 0"

definition mb_Contains :: "KMemoryBlock \<Rightarrow> KProcessAddress \<Rightarrow> bool" where
  "mb_Contains b addr \<longleftrightarrow> m_address b \<le> addr \<and> addr \<le> mb_GetEndAddress b"

definition mb_Add :: "KMemoryBlock \<Rightarrow> KMemoryBlock \<Rightarrow> KMemoryBlock run" where
  "mb_Add b added_block =
     ensure (0 < m_num_pages added_block)
    (ensure (sub64 (add64 (m_address b) (mb_GetSize added_block)) 1
               < sub64 (add64 (mb_GetEndAddress b) (mb_GetSize added_block)) 1)
    (Inr (b\<lparr>m_num_pages := add64 (m_num_pages b) (m_num_pages added_block),
            m_disable_merge_attribute := m_disable_merge_attribute b OR m_disable_merge_attribute added_block,
            m_device_disable_merge_right_count := m_device_disable_merge_right_count added_block\<rparr>)))"

definition mb_Update :: "KMemoryState \<Rightarrow> KMemoryPermission \<Rightarrow> KMemoryAttribute \<Rightarrow> bool \<Rightarrow> u8 \<Rightarrow> u8 \<Rightarrow> KMemoryBlock \<Rightarrow> KMemoryBlock run" where
  "mb_Update s p a set_disable_merge_attr set_mask clear_mask b =
     ensure (m_original_permission b = 0)
    (ensure (m_attribute b AND IpcLocked = 0)
    (let b = b\<lparr>m_memory_state := s, m_permission := p,
               m_attribute := a OR (m_attribute b AND (IpcLocked OR DeviceShared))\<rparr>;
         b = (if set_disable_merge_attr \<and> set_mask \<noteq> 0
              then b\<lparr>m_disable_merge_attribute := m_disable_merge_attribute b OR set_mask\<rparr> else b);
         b = (if clear_mask \<noteq> 0
              then b\<lparr>m_disable_merge_attribute := m_disable_merge_attribute b AND NOT clear_mask\<rparr> else b)
     in Inr b))"

definition mb_UpdateAttribute :: "KMemoryAttribute \<Rightarrow> KMemoryAttribute \<Rightarrow> KMemoryBlock \<Rightarrow> KMemoryBlock run" where
  "mb_UpdateAttribute attr_mask attr b =
     ensure (attr_mask AND IpcLocked = 0)
    (ensure (attr_mask AND DeviceShared = 0)
    (Inr (b\<lparr>m_attribute := (m_attribute b AND NOT attr_mask) OR attr\<rparr>)))"

text \<open>\<^verbatim>\<open>Split\<close> overwrites every field of the new block, which takes the pages below \<open>addr\<close>: the pair is the new block and
  the rest.\<close>

definition mb_Split :: "KMemoryBlock \<Rightarrow> KProcessAddress \<Rightarrow> (KMemoryBlock \<times> KMemoryBlock) run" where
  "mb_Split b addr =
     ensure (m_address b < addr)
    (ensure (mb_Contains b addr)
    (ensure (IsAligned addr PageSize)
    (let np = sub64 addr (m_address b) div PageSize;
         block =
           \<lparr>m_device_disable_merge_left_count = m_device_disable_merge_left_count b,
            m_device_disable_merge_right_count = 0, m_address = m_address b, m_num_pages = np,
            m_memory_state = m_memory_state b, m_ipc_lock_count = m_ipc_lock_count b,
            m_device_use_count = m_device_use_count b, m_ipc_disable_merge_count = m_ipc_disable_merge_count b,
            m_permission = m_permission b, m_original_permission = m_original_permission b,
            m_attribute = m_attribute b,
            m_disable_merge_attribute = m_disable_merge_attribute b AND AllLeft\<rparr>
     in Inr (block,
          b\<lparr>m_address := addr, m_num_pages := sub64 (m_num_pages b) np, m_ipc_disable_merge_count := 0,
            m_device_disable_merge_left_count := 0,
            m_disable_merge_attribute := m_disable_merge_attribute b AND AllRight\<rparr>))))"

section \<open>Locks\<close>

type_synonym lock_function = "KMemoryPermission \<Rightarrow> bool \<Rightarrow> bool \<Rightarrow> KMemoryBlock \<Rightarrow> KMemoryBlock run"

definition UpdateDeviceDisableMergeStateForShareLeft :: lock_function where
  "UpdateDeviceDisableMergeStateForShareLeft new_perm left right b =
     (if left
      then let b = b\<lparr>m_disable_merge_attribute := m_disable_merge_attribute b OR DeviceLeft,
                     m_device_disable_merge_left_count := m_device_disable_merge_left_count b + 1\<rparr>
           in ensure (0 < m_device_disable_merge_left_count b) (Inr b)
      else Inr b)"

definition UpdateDeviceDisableMergeStateForShareRight :: lock_function where
  "UpdateDeviceDisableMergeStateForShareRight new_perm left right b =
     (if right
      then let b = b\<lparr>m_disable_merge_attribute := m_disable_merge_attribute b OR DeviceRight,
                     m_device_disable_merge_right_count := m_device_disable_merge_right_count b + 1\<rparr>
           in ensure (0 < m_device_disable_merge_right_count b) (Inr b)
      else Inr b)"

definition UpdateDeviceDisableMergeStateForShare :: lock_function where
  "UpdateDeviceDisableMergeStateForShare new_perm left right b =
     bind_run (UpdateDeviceDisableMergeStateForShareLeft new_perm left right b)
       (UpdateDeviceDisableMergeStateForShareRight new_perm left right)"

definition ShareToDevice :: lock_function where
  "ShareToDevice new_perm left right b =
     ensure (m_attribute b AND DeviceShared = DeviceShared \<or> m_device_use_count b = 0)
    (let b = b\<lparr>m_device_use_count := m_device_use_count b + 1\<rparr>
     in ensure (0 < m_device_use_count b)
       (UpdateDeviceDisableMergeStateForShare new_perm left right
          (b\<lparr>m_attribute := m_attribute b OR DeviceShared\<rparr>)))"

definition UpdateDeviceDisableMergeStateForUnshareLeft :: lock_function where
  "UpdateDeviceDisableMergeStateForUnshareLeft new_perm left right b =
     (if left \<and> m_device_disable_merge_left_count b = 0 then Inr b
      else let b = (if left
                    then b\<lparr>m_device_disable_merge_left_count := m_device_disable_merge_left_count b - 1\<rparr> else b);
               b = b\<lparr>m_device_disable_merge_left_count :=
                        min (m_device_disable_merge_left_count b) (m_device_use_count b)\<rparr>
           in Inr (if m_device_disable_merge_left_count b = 0
                   then b\<lparr>m_disable_merge_attribute := m_disable_merge_attribute b AND NOT DeviceLeft\<rparr> else b))"

definition UpdateDeviceDisableMergeStateForUnshareRight :: lock_function where
  "UpdateDeviceDisableMergeStateForUnshareRight new_perm left right b =
     (if right
      then let old = m_device_disable_merge_right_count b;
               b = b\<lparr>m_device_disable_merge_right_count := old - 1\<rparr>
           in ensure (0 < old)
             (Inr (if old = 1
                   then b\<lparr>m_disable_merge_attribute := m_disable_merge_attribute b AND NOT DeviceRight\<rparr> else b))
      else Inr b)"

definition UpdateDeviceDisableMergeStateForUnshare :: lock_function where
  "UpdateDeviceDisableMergeStateForUnshare new_perm left right b =
     bind_run (UpdateDeviceDisableMergeStateForUnshareLeft new_perm left right b)
       (UpdateDeviceDisableMergeStateForUnshareRight new_perm left right)"

definition UnshareToDevice :: lock_function where
  "UnshareToDevice new_perm left right b =
     ensure (m_attribute b AND DeviceShared = DeviceShared)
    (let old_count = m_device_use_count b;
         b = b\<lparr>m_device_use_count := old_count - 1\<rparr>
     in ensure (0 < old_count)
       (UpdateDeviceDisableMergeStateForUnshare new_perm left right
          (if old_count = 1 then b\<lparr>m_attribute := m_attribute b AND NOT DeviceShared\<rparr> else b)))"

definition UnshareToDeviceRight :: lock_function where
  "UnshareToDeviceRight new_perm left right b =
     ensure (m_attribute b AND DeviceShared = DeviceShared)
    (let old_count = m_device_use_count b;
         b = b\<lparr>m_device_use_count := old_count - 1\<rparr>
     in ensure (0 < old_count)
       (UpdateDeviceDisableMergeStateForUnshareRight new_perm left right
          (if old_count = 1 then b\<lparr>m_attribute := m_attribute b AND NOT DeviceShared\<rparr> else b)))"

definition LockForIpc :: lock_function where
  "LockForIpc new_perm left right b =
     ensure (m_attribute b AND IpcLocked = IpcLocked \<or> m_ipc_lock_count b = 0)
    (let b = b\<lparr>m_ipc_lock_count := m_ipc_lock_count b + 1\<rparr>
     in ensure (0 < m_ipc_lock_count b)
       (bind_run
         (if m_ipc_lock_count b = 1
          then ensure (m_original_permission b = 0)
              (ensure (m_permission b OR new_perm OR NotMapped = m_permission b OR NotMapped)
              (ensure (m_permission b AND UserExecute \<noteq> UserExecute \<or> new_perm = UserRead)
              (Inr (b\<lparr>m_original_permission := m_permission b,
                      m_permission := (new_perm AND IpcLockChangeMask) OR
                                      (m_permission b AND NOT IpcLockChangeMask)\<rparr>))))
          else Inr b)
         (\<lambda>b. let b = b\<lparr>m_attribute := m_attribute b OR IpcLocked\<rparr>
              in if left
                 then let b = b\<lparr>m_disable_merge_attribute := m_disable_merge_attribute b OR IpcLeft,
                                m_ipc_disable_merge_count := m_ipc_disable_merge_count b + 1\<rparr>
                      in ensure (0 < m_ipc_disable_merge_count b) (Inr b)
                 else Inr b)))"

definition UnlockForIpc :: lock_function where
  "UnlockForIpc new_perm left right b =
     ensure (m_attribute b AND IpcLocked = IpcLocked)
    (let old_lock_count = m_ipc_lock_count b;
         b = b\<lparr>m_ipc_lock_count := old_lock_count - 1\<rparr>
     in ensure (0 < old_lock_count)
       (bind_run
         (if old_lock_count = 1
          then ensure (m_original_permission b \<noteq> 0)
              (Inr (b\<lparr>m_permission := m_original_permission b, m_original_permission := 0,
                      m_attribute := m_attribute b AND NOT IpcLocked\<rparr>))
          else Inr b)
         (\<lambda>b. if left
              then let old = m_ipc_disable_merge_count b;
                       b = b\<lparr>m_ipc_disable_merge_count := old - 1\<rparr>
                   in ensure (0 < old)
                     (Inr (if old = 1
                           then b\<lparr>m_disable_merge_attribute := m_disable_merge_attribute b AND NOT IpcLeft\<rparr>
                           else b))
              else Inr b)))"

section \<open>The static assertions on the states\<close>

lemmas flag_defs = FlagCanReprotect_def FlagCanDebug_def FlagCanUseIpc_def FlagCanUseNonDeviceIpc_def FlagCanUseNonSecureIpc_def
  FlagMapped_def FlagCode_def FlagCanAlias_def FlagCanCodeAlias_def FlagCanTransfer_def FlagCanQueryPhysical_def
  FlagCanDeviceMap_def FlagCanAlignedDeviceMap_def FlagCanIpcUserBuffer_def FlagReferenceCounted_def
  FlagCanMapProcess_def FlagCanChangeAttribute_def FlagCanCodeMemory_def FlagLinearMapped_def
  FlagCanPermissionLock_def FlagsData_def FlagsCode_def FlagsMisc_def

lemmas state_defs = State_Free_def State_IoMemory_def State_IoRegister_def State_Static_def State_Code_def State_CodeData_def
  State_Normal_def State_Shared_def State_AliasCode_def State_AliasCodeData_def State_Ipc_def State_Stack_def
  State_ThreadLocal_def State_Transferred_def State_SharedTransferred_def State_SharedCode_def
  State_Inaccessible_def State_NonSecureIpc_def State_NonDeviceIpc_def State_Kernel_def State_GeneratedCode_def
  State_CodeOut_def State_Coverage_def State_Insecure_def

lemma KMemoryState_static_asserts:
  "[State_Free, State_IoMemory, State_IoRegister, State_Static, State_Code, State_CodeData, State_Normal,
  State_Shared, State_AliasCode, State_AliasCodeData, State_Ipc, State_Stack, State_ThreadLocal,
  State_Transferred, State_SharedTransferred, State_SharedCode, State_Inaccessible, State_NonSecureIpc,
  State_NonDeviceIpc, State_Kernel, State_GeneratedCode, State_CodeOut, State_Coverage, State_Insecure] =
   [0x00000000, 0x00182001, 0x00180001, 0x00042002, 0x04DC7E03, 0x0FFEBD04, 0x077EBD05, 0x04402006, 0x04DD7E08,
  0x0FFFBD09, 0x045C3C0A, 0x045C3C0B, 0x0400000C, 0x055C3C0D, 0x045C380E, 0x0440380F, 0x00000010, 0x045C3811,
  0x044C2812, 0x00000013, 0x04402214, 0x04402015, 0x00002016, 0x055C3817]"
  by (simp add: state_defs flag_defs)

end
