(* ===== verification/KMemoryBlockManager.thy ===== *)
theory KMemoryBlockManager
  imports KMemoryBlock "HOL-Library.Tree"
begin

text \<open>
  The map of a guest address space (\<^verbatim>\<open>core/hle/kernel/k_memory_block_manager.{h,cpp}\<close>).  The red-black tree of blocks is
  the list of its nodes in order, and an iterator is a pair \<open>(l, r)\<close>: the nodes before it and the nodes from it on, \<open>r\<close>
  empty for \<^verbatim>\<open>end()\<close>.  The search and the insertion of \<^verbatim>\<open>common/tree.h\<close> are given on trees as well and shown to agree
  with those on the list for a tree of any shape.  A slab manager is the number of blocks it can still hand out; a block pointer of the allocator
  is a flag, set where the pointer is not null, since \<^verbatim>\<open>Split\<close> overwrites every field of the block it gets.
\<close>

section \<open>The tree of blocks\<close>

type_synonym MemoryBlockTree = "KMemoryBlock list"
type_synonym tree_iterator = "KMemoryBlock list \<times> KMemoryBlock list"

text \<open>\<^verbatim>\<open>RB_FIND\<close> and \<^verbatim>\<open>RB_INSERT\<close> without the recolouring, which keeps the order of the nodes.  A block that overlaps one in
  the tree is not inserted.\<close>

fun RB_FIND :: "KMemoryBlock \<Rightarrow> KMemoryBlock tree \<Rightarrow> KMemoryBlock option" where
  "RB_FIND elm \<langle>\<rangle> = None"
| "RB_FIND elm \<langle>lt, tmp, rt\<rangle> =
     (let comp = mb_Compare elm tmp
      in if comp < 0 then RB_FIND elm lt else if comp > 0 then RB_FIND elm rt else Some tmp)"

fun RB_INSERT :: "KMemoryBlock \<Rightarrow> KMemoryBlock tree \<Rightarrow> KMemoryBlock tree" where
  "RB_INSERT elm \<langle>\<rangle> = \<langle>\<langle>\<rangle>, elm, \<langle>\<rangle>\<rangle>"
| "RB_INSERT elm \<langle>lt, tmp, rt\<rangle> =
     (let comp = mb_Compare elm tmp
      in if comp < 0 then \<langle>RB_INSERT elm lt, tmp, rt\<rangle>
         else if comp > 0 then \<langle>lt, tmp, RB_INSERT elm rt\<rangle>
         else \<langle>lt, tmp, rt\<rangle>)"

text \<open>The same on the list of nodes; an iterator to a node that was not inserted does not move in the tree.\<close>

fun tree_find :: "KMemoryBlock \<Rightarrow> MemoryBlockTree \<Rightarrow> tree_iterator" where
  "tree_find elm [] = ([], [])"
| "tree_find elm (b # bs) =
     (if mb_Compare elm b = 0 then ([], b # bs) else let (l, r) = tree_find elm bs in (b # l, r))"

fun tree_insert :: "KMemoryBlock \<Rightarrow> MemoryBlockTree \<Rightarrow> tree_iterator run" where
  "tree_insert elm [] = Inr ([], [elm])"
| "tree_insert elm (b # bs) =
     (if mb_Compare elm b < 0 then Inr ([], elm # b # bs)
      else if mb_Compare elm b > 0 then bind_run (tree_insert elm bs) (\<lambda>(l, r). Inr (b # l, r))
      else Inl NullDeref)"

text \<open>Dereferencing, incrementing or decrementing \<^verbatim>\<open>end()\<close> reads through a null node; the node before the first one is
  \<^verbatim>\<open>end()\<close>.\<close>

definition iter_deref :: "tree_iterator \<Rightarrow> KMemoryBlock run" where
  "iter_deref it = (case snd it of [] \<Rightarrow> Inl NullDeref | b # _ \<Rightarrow> Inr b)"

definition iter_next :: "tree_iterator \<Rightarrow> tree_iterator run" where
  "iter_next it = (case snd it of [] \<Rightarrow> Inl NullDeref | b # r \<Rightarrow> Inr (fst it @ [b], r))"

definition iter_prev :: "tree_iterator \<Rightarrow> tree_iterator run" where
  "iter_prev it =
     (if snd it = [] then Inl NullDeref
      else if fst it = [] then Inr (snd it, [])
      else Inr (butlast (fst it), last (fst it) # snd it))"

text \<open>Writing through an iterator.\<close>

definition iter_write :: "tree_iterator \<Rightarrow> KMemoryBlock \<Rightarrow> tree_iterator" where
  "iter_write it b = (fst it, b # tl (snd it))"

section \<open>The allocator of an update\<close>

datatype KResult = R_SUCCEED | ResultOutOfResource

definition MaxBlocks :: nat where "MaxBlocks = 2"

record UpdateAllocator =
  m_blocks :: "bool list"
  m_index :: nat
  slab_available :: nat

fun allocate_blocks :: "nat \<Rightarrow> nat \<Rightarrow> UpdateAllocator \<Rightarrow> (KResult \<times> UpdateAllocator) run" where
  "allocate_blocks i 0 al = Inr (R_SUCCEED, al)"
| "allocate_blocks i (Suc n) al =
     bind_run (aset (m_blocks al) (int (m_index al + i)) (slab_available al \<noteq> 0)) (\<lambda>blocks.
       let al' = al\<lparr>m_blocks := blocks, slab_available := slab_available al - 1\<rparr>
       in if slab_available al = 0 then Inr (ResultOutOfResource, al') else allocate_blocks (Suc i) n al')"

definition ua_Initialize :: "nat \<Rightarrow> UpdateAllocator \<Rightarrow> (KResult \<times> UpdateAllocator) run" where
  "ua_Initialize num_blocks al =
     ensure (num_blocks \<le> MaxBlocks)
       (allocate_blocks 0 (min num_blocks MaxBlocks) (al\<lparr>m_index := MaxBlocks - num_blocks\<rparr>))"

definition new_UpdateAllocator :: "nat \<Rightarrow> nat \<Rightarrow> (KResult \<times> UpdateAllocator) run" where
  "new_UpdateAllocator slab num_blocks =
     ua_Initialize num_blocks
       \<lparr>m_blocks = replicate MaxBlocks False, m_index = MaxBlocks, slab_available = slab\<rparr>"

text \<open>The destructor: what the slab holds afterwards.\<close>

definition delete_UpdateAllocator :: "UpdateAllocator \<Rightarrow> nat" where
  "delete_UpdateAllocator al =
     fold (\<lambda>block slab. if block then slab + 1 else slab) (m_blocks al) (slab_available al)"

definition ua_Allocate :: "UpdateAllocator \<Rightarrow> UpdateAllocator run" where
  "ua_Allocate al =
     ensure (m_index al < MaxBlocks)
       (bind_run (aget (m_blocks al) (int (m_index al))) (\<lambda>block.
         ensure block
           (Inr (al\<lparr>m_blocks := (m_blocks al)[m_index al := False], m_index := m_index al + 1\<rparr>))))"

definition ua_Free :: "UpdateAllocator \<Rightarrow> UpdateAllocator run" where
  "ua_Free al =
     ensure (m_index al \<le> MaxBlocks)
       (if m_index al = 0 then Inr (al\<lparr>slab_available := slab_available al + 1\<rparr>)
        else bind_run (aset (m_blocks al) (int (m_index al - 1)) True) (\<lambda>blocks.
               Inr (al\<lparr>m_blocks := blocks, m_index := m_index al - 1\<rparr>)))"

section \<open>The manager\<close>

record KMemoryBlockManager =
  m_memory_block_tree :: MemoryBlockTree
  m_start_address :: KProcessAddress
  m_end_address :: KProcessAddress

definition new_KMemoryBlockManager :: KMemoryBlockManager where
  "new_KMemoryBlockManager = \<lparr>m_memory_block_tree = [], m_start_address = 0, m_end_address = 0\<rparr>"

text \<open>\<open>insert\<close> as the list of nodes after it; \<open>fresh\<close> is the block the slab hands out.\<close>

definition mbm_Initialize :: "KProcessAddress \<Rightarrow> KProcessAddress \<Rightarrow> KMemoryBlock \<Rightarrow> nat \<Rightarrow> KMemoryBlockManager \<Rightarrow>
    (KResult \<times> nat \<times> KMemoryBlockManager) run" where
  "mbm_Initialize st nd fresh slab m =
     (if slab = 0 then Inr (ResultOutOfResource, slab, m)
      else ensure (IsAligned st PageSize)
          (ensure (IsAligned nd PageSize)
          (bind_run
            (tree_insert (mb_Initialize st (sub64 nd st div PageSize) State_Free 0 0 fresh) (m_memory_block_tree m))
            (\<lambda>(l, r). Inr (R_SUCCEED, slab - 1,
               m\<lparr>m_start_address := st, m_end_address := nd, m_memory_block_tree := l @ r\<rparr>)))))"

text \<open>The calls of \<open>block_callback\<close> are recorded in order.\<close>

fun finalize_blocks :: "MemoryBlockTree \<Rightarrow> nat \<Rightarrow> (KProcessAddress \<times> size_t) list \<Rightarrow> nat \<times> (KProcessAddress \<times> size_t) list" where
  "finalize_blocks [] slab calls = (slab, calls)"
| "finalize_blocks (block # rest) slab calls =
     finalize_blocks rest (slab + 1) (calls @ [(m_address block, mb_GetSize block)])"

definition mbm_Finalize :: "nat \<Rightarrow> KMemoryBlockManager \<Rightarrow> nat \<times> (KProcessAddress \<times> size_t) list \<times> KMemoryBlockManager" where
  "mbm_Finalize slab m =
     (let (slab, calls) = finalize_blocks (m_memory_block_tree m) slab []
      in (slab, calls, m\<lparr>m_memory_block_tree := []\<rparr>))"

definition FindIterator :: "KMemoryBlockManager \<Rightarrow> KProcessAddress \<Rightarrow> tree_iterator" where
  "FindIterator m address = tree_find (new_KMemoryBlock address 1 State_Free 0 0) (m_memory_block_tree m)"

definition FindBlock :: "KMemoryBlockManager \<Rightarrow> KProcessAddress \<Rightarrow> KMemoryBlock option" where
  "FindBlock m address = (case snd (FindIterator m address) of [] \<Rightarrow> None | b # _ \<Rightarrow> Some b)"

subsection \<open>Free areas\<close>

definition free_area_at :: "KProcessAddress \<Rightarrow> size_t \<Rightarrow> size_t \<Rightarrow> size_t \<Rightarrow> size_t \<Rightarrow> KMemoryInfo \<Rightarrow> KProcessAddress \<times> KProcessAddress" where
  "free_area_at region_start num_pages alignment offset guard_pages info =
     (let area = (if i_address info \<le> region_start then region_start else i_address info);
          area = add64 area (mul64 guard_pages PageSize);
          offset_area = add64 (AlignDown area alignment) offset;
          area = (if area \<le> offset_area then offset_area else add64 offset_area alignment);
          area_end = add64 (add64 area (mul64 num_pages PageSize)) (mul64 guard_pages PageSize)
      in (area, sub64 area_end 1))"

fun find_free_area :: "KProcessAddress \<Rightarrow> KProcessAddress \<Rightarrow> size_t \<Rightarrow> size_t \<Rightarrow> size_t \<Rightarrow> size_t \<Rightarrow> MemoryBlockTree \<Rightarrow> KProcessAddress" where
  "find_free_area region_start region_last num_pages alignment offset guard_pages [] = 0"
| "find_free_area region_start region_last num_pages alignment offset guard_pages (b # bs) =
     (let info = GetMemoryInfo b
      in if region_last < i_address info then 0
         else if i_state info \<noteq> State_Free
         then find_free_area region_start region_last num_pages alignment offset guard_pages bs
         else let (area, area_last) = free_area_at region_start num_pages alignment offset guard_pages info
              in if i_address info \<le> area \<and> area < area_last \<and> area_last \<le> region_last \<and> area_last \<le> info_GetLastAddress info
                 then area
                 else find_free_area region_start region_last num_pages alignment offset guard_pages bs)"

definition FindFreeArea :: "KProcessAddress \<Rightarrow> size_t \<Rightarrow> size_t \<Rightarrow> size_t \<Rightarrow> size_t \<Rightarrow> size_t \<Rightarrow> KMemoryBlockManager \<Rightarrow> KProcessAddress" where
  "FindFreeArea region_start region_num_pages num_pages alignment offset guard_pages m =
     (if 0 < num_pages
      then let region_end = add64 region_start (mul64 region_num_pages PageSize)
           in find_free_area region_start (sub64 region_end 1) num_pages alignment offset guard_pages
                (snd (FindIterator m region_start))
      else 0)"

subsection \<open>Updates\<close>

text \<open>The loop of \<^verbatim>\<open>CoalesceForUpdate\<close> from an iterator on; \<open>range_end\<close> is the end of the updated range.\<close>

function coalesce_from :: "KProcessAddress \<Rightarrow> tree_iterator \<Rightarrow> UpdateAllocator \<Rightarrow> (MemoryBlockTree \<times> UpdateAllocator) run" where
  "coalesce_from range_end (l, []) al = Inl NullDeref"
| "coalesce_from range_end (l, [prev]) al = Inr (l @ [prev], al)"
| "coalesce_from range_end (l, prev # block # r) al =
     (if CanMergeWith prev block
      then bind_run (mb_Add prev block) (\<lambda>prev.
           bind_run (ua_Free al) (\<lambda>al.
             if range_end < info_GetEndAddress (GetMemoryInfo prev) then Inr (l @ prev # r, al)
             else coalesce_from range_end (l, prev # r) al))
      else if range_end < info_GetEndAddress (GetMemoryInfo block) then Inr (l @ prev # block # r, al)
      else coalesce_from range_end (l @ [prev], block # r) al)"
  by pat_completeness auto
termination by (relation "measure (\<lambda>(_, (_, r), _). length r)") auto

definition CoalesceForUpdate :: "KProcessAddress \<Rightarrow> size_t \<Rightarrow> KMemoryBlockManager \<Rightarrow> UpdateAllocator \<Rightarrow>
    (KMemoryBlockManager \<times> UpdateAllocator) run" where
  "CoalesceForUpdate address num_pages m al =
     bind_run (if address \<noteq> m_start_address m then iter_prev (FindIterator m address) else Inr (FindIterator m address)) (\<lambda>it.
     bind_run (coalesce_from (add64 address (mul64 num_pages PageSize)) it al) (\<lambda>(tree, al).
       Inr (m\<lparr>m_memory_block_tree := tree\<rparr>, al)))"

text \<open>The two splits that make a block begin at \<open>cur_address\<close> and end within the remaining size.\<close>

definition split_before :: "KProcessAddress \<Rightarrow> tree_iterator \<Rightarrow> UpdateAllocator \<Rightarrow>
    (KProcessAddress \<times> tree_iterator \<times> UpdateAllocator) run" where
  "split_before cur_address it al =
     bind_run (iter_deref it) (\<lambda>b.
       if i_address (GetMemoryInfo b) \<noteq> cur_address
       then bind_run (ua_Allocate al) (\<lambda>al.
            bind_run (mb_Split b cur_address) (\<lambda>(new_block, b).
            bind_run (tree_insert new_block (fst it @ b # tl (snd it))) (\<lambda>it.
            bind_run (iter_next it) (\<lambda>it.
            bind_run (iter_deref it) (\<lambda>b. Inr (i_address (GetMemoryInfo b), it, al))))))
       else Inr (cur_address, it, al))"

definition split_after :: "KProcessAddress \<Rightarrow> size_t \<Rightarrow> tree_iterator \<Rightarrow> UpdateAllocator \<Rightarrow> (tree_iterator \<times> UpdateAllocator) run" where
  "split_after cur_address remaining_size it al =
     bind_run (iter_deref it) (\<lambda>b.
       if i_size (GetMemoryInfo b) > remaining_size
       then bind_run (ua_Allocate al) (\<lambda>al.
            bind_run (mb_Split b (add64 cur_address remaining_size)) (\<lambda>(new_block, b).
            bind_run (tree_insert new_block (fst it @ b # tl (snd it))) (\<lambda>it. Inr (it, al))))
       else Inr (it, al))"

text \<open>
  The loop the four updates share: the blocks that need the change, split at the ends of the range, get it, the others are passed
  over.  \<open>needs\<close> is the condition of the branch that updates and \<open>change\<close> what it does to the block.  Every iteration
  leaves a block of the tree behind or is the last one, so one more than the number of blocks is enough fuel.
\<close>

fun update_loop :: "nat \<Rightarrow> (KMemoryBlock \<Rightarrow> bool) \<Rightarrow> (KMemoryBlock \<Rightarrow> KMemoryBlock run) \<Rightarrow> KProcessAddress \<Rightarrow> size_t \<Rightarrow>
    tree_iterator \<Rightarrow> UpdateAllocator \<Rightarrow> (tree_iterator \<times> UpdateAllocator) run" where
  "update_loop 0 needs change cur_address remaining_pages it al =
     (if remaining_pages > 0 then Inl OutOfFuel else Inr (it, al))"
| "update_loop (Suc fuel) needs change cur_address remaining_pages it al =
     (if remaining_pages > 0
      then let remaining_size = mul64 remaining_pages PageSize
           in bind_run (iter_deref it) (\<lambda>b.
             let cur_info = GetMemoryInfo b
             in if needs b
                then bind_run (split_before cur_address it al) (\<lambda>(cur_address, it, al).
                     bind_run (split_after cur_address remaining_size it al) (\<lambda>(it, al).
                     bind_run (iter_deref it) (\<lambda>b.
                     let cur_info = GetMemoryInfo b
                     in bind_run (change b) (\<lambda>b.
                        bind_run (iter_next (iter_write it b)) (\<lambda>it.
                          update_loop fuel needs change (add64 cur_address (i_size cur_info))
                            (sub64 remaining_pages (info_GetNumPages cur_info)) it al)))))
                else if add64 cur_address remaining_size < info_GetEndAddress cur_info
                then bind_run (iter_next it) (\<lambda>it.
                       update_loop fuel needs change (add64 cur_address remaining_size) 0 it al)
                else bind_run (iter_next it) (\<lambda>it.
                       update_loop fuel needs change (info_GetEndAddress cur_info)
                         (sub64 (add64 cur_address remaining_size) (info_GetEndAddress cur_info) div PageSize) it al))
      else Inr (it, al))"

definition update_range :: "(KMemoryBlock \<Rightarrow> bool) \<Rightarrow> (KMemoryBlock \<Rightarrow> KMemoryBlock run) \<Rightarrow> KProcessAddress \<Rightarrow> size_t \<Rightarrow>
    KMemoryBlockManager \<Rightarrow> UpdateAllocator \<Rightarrow> (KMemoryBlockManager \<times> UpdateAllocator) run" where
  "update_range needs change address num_pages m al =
     bind_run (update_loop (length (m_memory_block_tree m) + 1) needs change address num_pages (FindIterator m address) al)
       (\<lambda>((l, r), al). CoalesceForUpdate address num_pages (m\<lparr>m_memory_block_tree := l @ r\<rparr>) al)"

definition mbm_Update :: "KProcessAddress \<Rightarrow> size_t \<Rightarrow> KMemoryState \<Rightarrow> KMemoryPermission \<Rightarrow> KMemoryAttribute \<Rightarrow> DisableMerge \<Rightarrow>
    DisableMerge \<Rightarrow> KMemoryBlockManager \<Rightarrow> UpdateAllocator \<Rightarrow> (KMemoryBlockManager \<times> UpdateAllocator) run" where
  "mbm_Update address num_pages state perm attr set_disable_attr clear_disable_attr m al =
     ensure (IsAligned address PageSize)
    (ensure (attr AND (IpcLocked OR DeviceShared) = 0)
    (update_range (\<lambda>b. \<not> HasProperties b state perm attr)
       (\<lambda>b. mb_Update state perm attr (m_address b = address) set_disable_attr clear_disable_attr b)
       address num_pages m al))"

definition mbm_UpdateIfMatch :: "KProcessAddress \<Rightarrow> size_t \<Rightarrow> KMemoryState \<Rightarrow> KMemoryPermission \<Rightarrow> KMemoryAttribute \<Rightarrow> KMemoryState \<Rightarrow>
    KMemoryPermission \<Rightarrow> KMemoryAttribute \<Rightarrow> DisableMerge \<Rightarrow> DisableMerge \<Rightarrow> KMemoryBlockManager \<Rightarrow> UpdateAllocator \<Rightarrow>
    (KMemoryBlockManager \<times> UpdateAllocator) run" where
  "mbm_UpdateIfMatch address num_pages test_state test_perm test_attr state perm attr set_disable_attr clear_disable_attr m al =
     ensure (IsAligned address PageSize)
    (ensure (attr AND (IpcLocked OR DeviceShared) = 0)
    (update_range (\<lambda>b. HasProperties b test_state test_perm test_attr \<and> \<not> HasProperties b state perm attr)
       (mb_Update state perm attr False set_disable_attr clear_disable_attr)
       address num_pages m al))"

definition mbm_UpdateLock :: "KProcessAddress \<Rightarrow> size_t \<Rightarrow> lock_function \<Rightarrow> KMemoryPermission \<Rightarrow> KMemoryBlockManager \<Rightarrow> UpdateAllocator \<Rightarrow>
    (KMemoryBlockManager \<times> UpdateAllocator) run" where
  "mbm_UpdateLock address num_pages lock_func perm m al =
     ensure (IsAligned address PageSize)
    (let end_address = add64 address (mul64 num_pages PageSize)
     in update_range (\<lambda>b. True)
          (\<lambda>b. let cur_info = GetMemoryInfo b
               in lock_func perm (i_address cur_info = address) (info_GetEndAddress cur_info = end_address) b)
          address num_pages m al)"

definition mbm_UpdateAttribute :: "KProcessAddress \<Rightarrow> size_t \<Rightarrow> KMemoryAttribute \<Rightarrow> KMemoryAttribute \<Rightarrow> KMemoryBlockManager \<Rightarrow>
    UpdateAllocator \<Rightarrow> (KMemoryBlockManager \<times> UpdateAllocator) run" where
  "mbm_UpdateAttribute address num_pages attr_mask attr m al =
     ensure (IsAligned address PageSize)
    (update_range (\<lambda>b. m_attribute b AND attr_mask \<noteq> attr) (mb_UpdateAttribute attr_mask attr) address num_pages m al)"

subsection \<open>The self-check\<close>

definition lock_counts_wrong :: "KMemoryInfo \<Rightarrow> bool" where
  "lock_counts_wrong info \<longleftrightarrow>
     i_attribute info AND IpcLocked \<noteq> 0 \<and> i_ipc_lock_count info = 0 \<or>
     i_attribute info AND DeviceShared \<noteq> 0 \<and> i_device_use_count info = 0"

fun check_from :: "KMemoryBlock \<Rightarrow> MemoryBlockTree \<Rightarrow> bool" where
  "check_from prev [] = (\<not> lock_counts_wrong (GetMemoryInfo prev))"
| "check_from prev (it # r) =
     (if CanMergeWith prev it then False
      else if info_GetEndAddress (GetMemoryInfo prev) \<noteq> i_address (GetMemoryInfo it) then False
      else if lock_counts_wrong (GetMemoryInfo it) then False
      else check_from it r)"

text \<open>On an empty tree the increment of \<^verbatim>\<open>cbegin()\<close> reads through a null node.\<close>

definition CheckState :: "KMemoryBlockManager \<Rightarrow> bool run" where
  "CheckState m = (case m_memory_block_tree m of [] \<Rightarrow> Inl NullDeref | b # r \<Rightarrow> Inr (check_from b r))"

end
