(* ===== verification/MemoryBlockUpdates.thy ===== *)
theory MemoryBlockUpdates
  imports KMemoryBlockManager
begin

text \<open>
  What an update does to the map of a guest address space.  The blocks tile the space from the start to the end address; the map they
  stand for gives every address the page properties of its block; no two neighbours could be merged.
\<close>

section \<open>Pages\<close>

text \<open>The fields that \<^verbatim>\<open>HasSameProperties\<close> compares.\<close>

record page =
  pg_state :: KMemoryState
  pg_permission :: KMemoryPermission
  pg_original_permission :: KMemoryPermission
  pg_attribute :: KMemoryAttribute
  pg_ipc_lock_count :: u16
  pg_device_use_count :: u16

definition mb_page :: "KMemoryBlock \<Rightarrow> page" where
  "mb_page b = \<lparr>pg_state = m_memory_state b, pg_permission = m_permission b,
     pg_original_permission = m_original_permission b, pg_attribute = m_attribute b,
     pg_ipc_lock_count = m_ipc_lock_count b, pg_device_use_count = m_device_use_count b\<rparr>"

definition page_ok :: "page \<Rightarrow> bool" where
  "page_ok p \<longleftrightarrow>
     (pg_attribute p AND IpcLocked \<noteq> 0 \<longrightarrow> pg_ipc_lock_count p \<noteq> 0) \<and>
     (pg_attribute p AND DeviceShared \<noteq> 0 \<longrightarrow> pg_device_use_count p \<noteq> 0)"

text \<open>The sides of a block that allow a merge.\<close>

definition open_left :: "KMemoryBlock \<Rightarrow> bool" where
  "open_left b \<longleftrightarrow> m_disable_merge_attribute b AND AllLeft = 0"

definition open_right :: "KMemoryBlock \<Rightarrow> bool" where
  "open_right b \<longleftrightarrow> m_disable_merge_attribute b AND AllRight = 0"

lemma CanMergeWith_iff: "CanMergeWith p q \<longleftrightarrow> mb_page p = mb_page q \<and> open_right p \<and> open_left q"
  by (simp add: CanMergeWith_def HasSameProperties_def mb_page_def open_left_def open_right_def conj_assoc)

section \<open>Sizes without overflow\<close>

definition mb_size :: "KMemoryBlock \<Rightarrow> size_t" where
  "mb_size b = m_num_pages b * PageSize"

abbreviation mb_end :: "KMemoryBlock \<Rightarrow> KProcessAddress" where
  "mb_end b \<equiv> m_address b + mb_size b"

definition mb_fits :: "KMemoryBlock \<Rightarrow> bool" where
  "mb_fits b \<longleftrightarrow> 0 \<le> m_address b \<and> PageSize dvd m_address b \<and> 0 < m_num_pages b \<and> mb_end b < 2 ^ 64"

lemma mb_size_pos: "mb_fits b \<Longrightarrow> 0 < mb_size b"
  by (simp add: mb_fits_def mb_size_def)

lemma mb_size_dvd: "PageSize dvd mb_size b"
  by (simp add: mb_size_def)

lemma fits_GetSize:
  assumes "mb_fits b"
  shows "mb_GetSize b = mb_size b"
proof -
  have "0 \<le> m_num_pages b * PageSize" "m_num_pages b * PageSize < 2 ^ 64"
    using mb_size_pos [OF assms] assms unfolding mb_fits_def mb_size_def by linarith+
  then show ?thesis by (simp add: mb_GetSize_def mb_size_def)
qed

lemma fits_GetEndAddress: "mb_fits b \<Longrightarrow> mb_GetEndAddress b = mb_end b"
  using mb_size_pos [of b] by (simp add: mb_GetEndAddress_def fits_GetSize mb_fits_def)

lemma fits_GetLastAddress: "mb_fits b \<Longrightarrow> mb_GetLastAddress b = mb_end b - 1"
  using mb_size_pos [of b] by (simp add: mb_GetLastAddress_def fits_GetEndAddress mb_fits_def)

lemma info_address [simp]: "i_address (GetMemoryInfo b) = m_address b"
  by (simp add: GetMemoryInfo_def)

lemma fits_info_size: "mb_fits b \<Longrightarrow> i_size (GetMemoryInfo b) = mb_size b"
  by (simp add: GetMemoryInfo_def fits_GetSize)

lemma fits_info_end: "mb_fits b \<Longrightarrow> info_GetEndAddress (GetMemoryInfo b) = mb_end b"
  using mb_size_pos [of b] by (simp add: info_GetEndAddress_def fits_info_size mb_fits_def)

lemma fits_info_last: "mb_fits b \<Longrightarrow> info_GetLastAddress (GetMemoryInfo b) = mb_end b - 1"
  using mb_size_pos [of b] by (simp add: info_GetLastAddress_def fits_info_end mb_fits_def)

lemma fits_info_pages: "mb_fits b \<Longrightarrow> info_GetNumPages (GetMemoryInfo b) = m_num_pages b"
  by (simp add: info_GetNumPages_def fits_info_size mb_size_def PageSize_def)

lemmas fits_simps = fits_GetSize fits_GetEndAddress fits_GetLastAddress fits_info_size fits_info_end
  fits_info_last fits_info_pages

lemma Compare_fits:
  "mb_fits b \<Longrightarrow>
   mb_Compare k b = (if m_address k < m_address b then - 1 else if m_address k < mb_end b then 0 else 1)"
  by (simp add: mb_Compare_def fits_GetLastAddress)

section \<open>Tilings\<close>

fun tiles :: "KProcessAddress \<Rightarrow> MemoryBlockTree \<Rightarrow> KProcessAddress \<Rightarrow> bool" where
  "tiles a [] e \<longleftrightarrow> a = e"
| "tiles a (b # bs) e \<longleftrightarrow> m_address b = a \<and> mb_fits b \<and> tiles (mb_end b) bs e"

lemma tiles_append: "tiles a (xs @ ys) e \<longleftrightarrow> (\<exists>c. tiles a xs c \<and> tiles c ys e)"
  by (induction xs arbitrary: a) auto

lemma tiles_le: "tiles a t e \<Longrightarrow> a \<le> e"
proof (induction t arbitrary: a)
  case (Cons b t)
  then have "mb_end b \<le> e" by auto
  with Cons.prems mb_size_pos [of b] show ?case by auto
qed simp

lemma tiles_nonempty: "tiles a t e \<Longrightarrow> a < e \<Longrightarrow> t \<noteq> []"
  by auto

lemma tiles_block: "tiles a t e \<Longrightarrow> b \<in> set t \<Longrightarrow> mb_fits b \<and> a \<le> m_address b \<and> mb_end b \<le> e"
proof (induction t arbitrary: a)
  case (Cons c t)
  show ?case
  proof (cases "b = c")
    case True
    with Cons.prems tiles_le [of "mb_end c" t e] show ?thesis by auto
  next
    case False
    with Cons.prems have "b \<in> set t" "tiles (mb_end c) t e" by auto
    from Cons.IH [OF this(2,1)] Cons.prems mb_size_pos [of c] show ?thesis by auto
  qed
qed simp

section \<open>The map the blocks stand for\<close>

primrec view :: "MemoryBlockTree \<Rightarrow> KProcessAddress \<Rightarrow> page option" where
  "view [] x = None"
| "view (b # bs) x = (if m_address b \<le> x \<and> x < mb_end b then Some (mb_page b) else view bs x)"

lemma view_append: "view (xs @ ys) x = (case view xs x of None \<Rightarrow> view ys x | Some p \<Rightarrow> Some p)"
  by (induction xs) auto

lemma view_outside: "tiles a t e \<Longrightarrow> x < a \<or> e \<le> x \<Longrightarrow> view t x = None"
proof (induction t arbitrary: a)
  case (Cons b t)
  have "x < mb_end b \<or> e \<le> x" using Cons.prems mb_size_pos [of b] by auto
  moreover have "\<not> (m_address b \<le> x \<and> x < mb_end b)"
    using Cons.prems tiles_le [of "mb_end b" t e] by auto
  ultimately show ?case using Cons by auto
qed simp

lemma view_inside: "tiles a t e \<Longrightarrow> a \<le> x \<Longrightarrow> x < e \<Longrightarrow> \<exists>b\<in>set t. m_address b \<le> x \<and> x < mb_end b \<and> view t x = Some (mb_page b)"
  by (induction t arbitrary: a) auto

text \<open>Two trees that differ in the middle.\<close>

lemma view_middle:
  "(\<And>x. view ys x = view zs x) \<Longrightarrow> view (xs @ ys) = view (xs @ zs)"
  by (rule ext) (simp add: view_append split: option.split)

definition on_range :: "KProcessAddress \<Rightarrow> KProcessAddress \<Rightarrow> (page \<Rightarrow> page) \<Rightarrow> (KProcessAddress \<Rightarrow> page option) \<Rightarrow> KProcessAddress \<Rightarrow> page option" where
  "on_range lo hi f v x = (if lo \<le> x \<and> x < hi then map_option f (v x) else v x)"

lemma on_range_empty [simp]: "on_range x x f v = v"
  by (rule ext) (auto simp: on_range_def)

section \<open>Neighbours that cannot be merged\<close>

definition unmerged :: "(KProcessAddress \<Rightarrow> bool) \<Rightarrow> MemoryBlockTree \<Rightarrow> bool" where
  "unmerged P t \<longleftrightarrow> successively (\<lambda>p q. P (m_address q) \<longrightarrow> \<not> CanMergeWith p q) t"

lemma unmerged_simps [simp]:
  "unmerged P []"
  "unmerged P [b]"
  "unmerged P (p # q # r) \<longleftrightarrow> (P (m_address q) \<longrightarrow> \<not> CanMergeWith p q) \<and> unmerged P (q # r)"
  by (simp_all add: unmerged_def)

lemma unmerged_cut: "unmerged P (l @ b # r) \<longleftrightarrow> unmerged P (l @ [b]) \<and> unmerged P (b # r)"
  by (cases r) (auto simp: unmerged_def successively_append_iff)

lemma unmerged_left:
  "m_address b = m_address b' \<Longrightarrow> mb_page b = mb_page b' \<Longrightarrow> open_left b' = open_left b \<Longrightarrow>
   unmerged P (l @ [b]) \<longleftrightarrow> unmerged P (l @ [b'])"
  by (auto simp: unmerged_def successively_append_iff CanMergeWith_iff)

lemma unmerged_right:
  "mb_page b = mb_page b' \<Longrightarrow> open_right b' = open_right b \<Longrightarrow> unmerged P (b # r) \<longleftrightarrow> unmerged P (b' # r)"
  by (cases r) (auto simp: CanMergeWith_iff)

lemma unmerged_mono: "unmerged P t \<Longrightarrow> (\<And>b. b \<in> set (tl t) \<Longrightarrow> Q (m_address b) \<Longrightarrow> P (m_address b)) \<Longrightarrow> unmerged Q t"
  by (induction t rule: induct_list012) auto


section \<open>Searching and inserting\<close>

lemma tree_find_split:
  assumes "tiles s t e" "s \<le> m_address k" "m_address k < e"
  shows "\<exists>l b r. tree_find k t = (l, b # r) \<and> t = l @ b # r \<and> m_address b \<le> m_address k \<and> m_address k < mb_end b"
  using assms
proof (induction t arbitrary: s)
  case (Cons c t)
  show ?case
  proof (cases "m_address k < mb_end c")
    case True
    with Cons.prems have "tree_find k (c # t) = ([], c # t)" by (simp add: Compare_fits)
    with True Cons.prems show ?thesis by (auto simp: intro!: exI [of _ "[]"])
  next
    case False
    with Cons.prems obtain l b r where "tree_find k t = (l, b # r)" "t = l @ b # r" "m_address b \<le> m_address k" "m_address k < mb_end b"
      using Cons.IH [of "mb_end c"] by auto
    moreover from False Cons.prems have "mb_Compare k c \<noteq> 0" by (simp add: Compare_fits)
    ultimately show ?thesis by (intro exI [of _ "c # l"] exI [of _ b] exI [of _ r]) simp
  qed
qed simp

lemma tree_find_none: "tiles s t e \<Longrightarrow> m_address k < s \<or> e \<le> m_address k \<Longrightarrow> tree_find k t = (t, [])"
proof (induction t arbitrary: s)
  case (Cons c t)
  then have "mb_end c \<le> e" "0 < mb_size c" using tiles_le [of "mb_end c" t e] mb_size_pos [of c] by auto
  with Cons.prems have "mb_Compare k c \<noteq> 0" by (auto simp: Compare_fits)
  moreover have "tree_find k t = (t, [])" using Cons \<open>0 < mb_size c\<close> by auto
  ultimately show ?case by simp
qed simp

lemma tree_insert_at:
  "tiles s l (m_address x) \<Longrightarrow> m_address x < m_address y \<Longrightarrow> tree_insert x (l @ y # r) = Inr (l, x # y # r)"
proof (induction l arbitrary: s)
  case (Cons c l)
  from Cons.prems(1) tiles_le [of "mb_end c" l "m_address x"] have "mb_Compare x c = 1"
    using mb_size_pos [of c] by (auto simp: Compare_fits)
  with Cons show ?case by auto
qed (simp add: mb_Compare_def)

text \<open>The list of the nodes in order answers as the search tree does, whatever its shape.  Between a split and the insertion
  of the new block the nodes leave a gap, so all that is asked of them is that they lie one behind the other.\<close>

definition apart :: "MemoryBlockTree \<Rightarrow> bool" where
  "apart t \<longleftrightarrow> list_all mb_fits t \<and> sorted_wrt (\<lambda>b c. mb_end b \<le> m_address c) t"

lemma apart_append: "apart (xs @ b # ys) \<longleftrightarrow> apart xs \<and> apart ys \<and> mb_fits b \<and>
    (\<forall>x\<in>set xs. mb_end x \<le> m_address b) \<and> (\<forall>y\<in>set ys. mb_end b \<le> m_address y) \<and> (\<forall>x\<in>set xs. \<forall>y\<in>set ys. mb_end x \<le> m_address y)"
  by (auto simp: apart_def sorted_wrt_append)

lemma tiles_apart: "tiles a t e \<Longrightarrow> apart t"
proof (induction t arbitrary: a)
  case (Cons b t)
  then show ?case using tiles_block [of "mb_end b" t e] by (fastforce simp: apart_def)
qed (simp add: apart_def)

lemma tiles_order: "tiles a (xs @ b # ys) e \<Longrightarrow> c \<in> set xs \<Longrightarrow> mb_end c \<le> m_address b"
  using tiles_apart [of a "xs @ b # ys" e] by (simp add: apart_append)

lemma apart_fits: "apart t \<Longrightarrow> b \<in> set t \<Longrightarrow> mb_fits b"
  by (simp add: apart_def list_all_iff)

lemma Compare_behind:
  assumes "apart t" "\<forall>c\<in>set t. mb_end c \<le> a" "a \<le> m_address k" "c \<in> set t"
  shows "mb_Compare k c = 1"
  using assms apart_fits [OF assms(1,4)] mb_size_pos [of c] by (auto simp: Compare_fits)

lemma Compare_ahead:
  assumes "apart t" "\<forall>c\<in>set t. a \<le> m_address c" "m_address k < a" "c \<in> set t"
  shows "mb_Compare k c = - 1"
  using assms apart_fits [OF assms(1,4)] by (auto simp: Compare_fits)

lemma find_append: "find P (xs @ ys) = (case find P xs of None \<Rightarrow> find P ys | Some x \<Rightarrow> Some x)"
  by (induction xs) auto

lemma tree_find_eq_find:
  "(case snd (tree_find k t) of [] \<Rightarrow> None | b # _ \<Rightarrow> Some b) = find (\<lambda>b. mb_Compare k b = 0) t"
  by (induction t) (auto split: prod.split)

lemma RB_FIND_eq_find: "apart (inorder t) \<Longrightarrow> RB_FIND k t = find (\<lambda>b. mb_Compare k b = 0) (inorder t)"
proof (induction t)
  case (Node lt b rt)
  from Node.prems have ap: "apart (inorder lt)" "apart (inorder rt)" "mb_fits b"
    "\<forall>x\<in>set (inorder lt). mb_end x \<le> m_address b" "\<forall>y\<in>set (inorder rt). mb_end b \<le> m_address y"
    by (simp_all add: apart_append)
  have "find (\<lambda>b. mb_Compare k b = 0) (inorder lt) = None" if "m_address b \<le> m_address k"
    using Compare_behind [OF ap(1,4) that] by (auto simp: find_None_iff)
  moreover have "find (\<lambda>b. mb_Compare k b = 0) (inorder rt) = None" if "m_address k < mb_end b"
    using Compare_ahead [OF ap(2,5) that] by (auto simp: find_None_iff)
  moreover have "0 < mb_size b" using ap(3) by (rule mb_size_pos)
  ultimately show ?case
    using Node.IH ap by (auto simp: Compare_fits find_append Let_def split: option.split)
qed simp

lemma tree_insert_less:
  "mb_Compare k b < 0 \<Longrightarrow> tree_insert k (xs @ b # ys) = bind_run (tree_insert k xs) (\<lambda>(l, r). Inr (l, r @ b # ys))"
  by (induction xs) (auto simp: bind_run_assoc intro!: arg_cong [of _ _ "bind_run _"])

lemma tree_insert_past:
  "(\<And>c. c \<in> set xs \<Longrightarrow> 0 < mb_Compare k c) \<Longrightarrow>
   tree_insert k (xs @ zs) = bind_run (tree_insert k zs) (\<lambda>(l, r). Inr (xs @ l, r))"
proof (induction xs)
  case Nil
  then show ?case by (cases "tree_insert k zs") auto
next
  case (Cons c xs)
  from Cons.prems [of c] have "0 < mb_Compare k c" by simp
  moreover from Cons have "tree_insert k (xs @ zs) = bind_run (tree_insert k zs) (\<lambda>(l, r). Inr (xs @ l, r))" by simp
  ultimately show ?case by (cases "tree_insert k zs") auto
qed

text \<open>The list insertion puts the block between those behind it and those ahead of it, or finds a block that holds its
  address; the tree insertion does the same.\<close>

lemma tree_insert_place:
  "apart t \<Longrightarrow> case tree_insert k t of
     Inl f \<Rightarrow> f = NullDeref \<and> (\<exists>b\<in>set t. m_address b \<le> m_address k \<and> m_address k < mb_end b)
   | Inr (l, r) \<Rightarrow> \<exists>r'. r = k # r' \<and> t = l @ r' \<and> (\<forall>b\<in>set l. mb_end b \<le> m_address k) \<and> (\<forall>b\<in>set r'. m_address k < m_address b)"
proof (induction t)
  case (Cons c t)
  have c: "mb_fits c" "apart t" "\<forall>b\<in>set t. mb_end c \<le> m_address b" using Cons.prems by (auto simp: apart_def)
  then have "\<forall>b\<in>set t. m_address c < m_address b" using mb_size_pos [of c] by auto
  with c Cons.IH show ?case
    by (cases "tree_insert k t") (fastforce simp: Compare_fits)+
qed simp

lemma RB_INSERT_inorder:
  "apart (inorder t) \<Longrightarrow> (case tree_insert k (inorder t) of Inl f \<Rightarrow> RB_INSERT k t = t | Inr (l, r) \<Rightarrow> inorder (RB_INSERT k t) = l @ r)"
proof (induction t)
  case (Node lt b rt)
  from Node.prems have ap: "apart (inorder lt)" "apart (inorder rt)" "mb_fits b" "\<forall>x\<in>set (inorder lt). mb_end x \<le> m_address b"
    by (simp_all add: apart_append)
  show ?case
  proof (cases "mb_Compare k b < 0")
    case True
    with Node.IH(1) [OF ap(1)] show ?thesis by (cases "tree_insert k (inorder lt)") (auto simp: tree_insert_less)
  next
    case False
    then have "m_address b \<le> m_address k" using ap(3) by (simp add: Compare_fits split: if_splits)
    from Compare_behind [OF ap(1,4) this]
    have "tree_insert k (inorder lt @ b # inorder rt) = bind_run (tree_insert k (b # inorder rt)) (\<lambda>(l, r). Inr (inorder lt @ l, r))"
      by (intro tree_insert_past) simp
    with False Node.IH(2) [OF ap(2)] show ?thesis by (cases "tree_insert k (inorder rt)") auto
  qed
qed simp

section \<open>Splitting and merging\<close>

lemma Split_parts:
  assumes "mb_fits b" "m_address b < c" "c < mb_end b" "PageSize dvd c"
  shows "\<exists>x y. mb_Split b c = Inr (x, y) \<and> mb_fits x \<and> mb_fits y \<and> m_address x = m_address b \<and> mb_end x = c \<and>
     m_address y = c \<and> mb_end y = mb_end b \<and> mb_page x = mb_page b \<and> mb_page y = mb_page b \<and>
     open_left x = open_left b \<and> open_right y = open_right b"
proof -
  obtain k where k: "c - m_address b = k * PageSize"
    using assms by (metis mb_fits_def dvd_diff dvd_def mult.commute)
  have lim: "0 \<le> m_address b" "c < 2 ^ 64" using assms by (auto simp: mb_fits_def)
  have np: "sub64 c (m_address b) div PageSize = k" using k lim assms(2) by simp
  have "0 < k * PageSize" "k * PageSize < m_num_pages b * PageSize"
    unfolding k [symmetric] mb_size_def [symmetric] using assms by simp_all
  then have k1: "0 < k" "k < m_num_pages b" by (auto simp: PageSize_def)
  have "m_num_pages b * PageSize < 2 ^ 64" using assms lim by (simp add: mb_fits_def mb_size_def)
  then have big: "m_num_pages b - k < 2 ^ 64" using k1 by (simp add: PageSize_def)
  have faces: "(m_disable_merge_attribute b AND AllLeft) AND AllLeft = m_disable_merge_attribute b AND AllLeft"
    "(m_disable_merge_attribute b AND AllRight) AND AllRight = m_disable_merge_attribute b AND AllRight"
    by (simp_all add: and.assoc)
  have "IsAligned c PageSize" "mb_Contains b c"
    using assms by (auto simp: IsAligned_PageSize mb_Contains_def fits_GetEndAddress)
  then have split: "mb_Split b c = Inr
      (b\<lparr>m_num_pages := k, m_disable_merge_attribute := m_disable_merge_attribute b AND AllLeft,
         m_device_disable_merge_right_count := 0\<rparr>,
       b\<lparr>m_address := c, m_num_pages := m_num_pages b - k, m_ipc_disable_merge_count := 0,
         m_device_disable_merge_left_count := 0,
         m_disable_merge_attribute := m_disable_merge_attribute b AND AllRight\<rparr>)"
    using assms(2) k1 big by (simp add: mb_Split_def np Let_def)
  have c: "m_address b + k * PageSize = c" "0 \<le> c" using k lim assms(2) by linarith+
  then show ?thesis unfolding split using assms k1 lim faces
    by (simp add: mb_fits_def mb_size_def mb_page_def open_left_def open_right_def left_diff_distrib)
qed

lemma Add_parts:
  assumes "mb_fits p" "mb_fits q" "m_address q = mb_end p" "CanMergeWith p q"
  shows "\<exists>p'. mb_Add p q = Inr p' \<and> mb_fits p' \<and> m_address p' = m_address p \<and> mb_end p' = mb_end q \<and> mb_page p' = mb_page p \<and>
     open_left p' = open_left p \<and> open_right p' = open_right q"
proof -
  have sz: "mb_size p + mb_size q = (m_num_pages p + m_num_pages q) * PageSize"
    by (simp add: mb_size_def algebra_simps)
  have lim: "m_num_pages p + m_num_pages q \<le> mb_size p + mb_size q" "mb_end q < 2 ^ 64" "0 \<le> m_address p"
    using assms by (auto simp: sz mb_fits_def PageSize_def)
  with assms mb_size_pos [of p] mb_size_pos [of q]
  have np: "add64 (m_num_pages p) (m_num_pages q) = m_num_pages p + m_num_pages q"
    by (intro add64_exact) (auto simp: mb_fits_def)
  have faces: "(x OR y) AND AllLeft = 0 \<longleftrightarrow> x AND AllLeft = 0 \<and> y AND AllLeft = 0"
     "(x OR y) AND AllRight = 0 \<longleftrightarrow> x AND AllRight = 0 \<and> y AND AllRight = 0" for x y
    by (simp_all add: bit.conj_disj_distrib2 or_eq_0_iff)
  define p' where "p' = p\<lparr>m_num_pages := m_num_pages p + m_num_pages q,
    m_disable_merge_attribute := m_disable_merge_attribute p OR m_disable_merge_attribute q,
    m_device_disable_merge_right_count := m_device_disable_merge_right_count q\<rparr>"
  have p': "m_address p' = m_address p" "mb_size p' = mb_size p + mb_size q" "0 < m_num_pages p'"
    using assms by (auto simp: p'_def mb_size_def mb_fits_def algebra_simps)
  have pos: "0 < mb_size p" "0 < mb_size q" using assms by (auto intro: mb_size_pos)
  have "sub64 (add64 (m_address p) (mb_size q)) 1 = m_address p + mb_size q - 1"
    "sub64 (add64 (mb_end p) (mb_size q)) 1 = mb_end p + mb_size q - 1"
    using pos lim assms(3) by simp_all
  with assms pos have "mb_Add p q = Inr p'"
    by (simp add: mb_Add_def fits_simps np p'_def mb_fits_def)
  moreover have "mb_page p' = mb_page p" "open_left p' = open_left p" "open_right p' = open_right q"
    using assms(4) by (auto simp: p'_def mb_page_def open_left_def open_right_def faces CanMergeWith_iff)
  ultimately show ?thesis using p' lim assms by (intro exI [of _ p']) (auto simp: mb_fits_def)
qed


section \<open>The allocator\<close>

definition ua_ok :: "UpdateAllocator \<Rightarrow> bool" where
  "ua_ok al \<longleftrightarrow> m_index al \<le> 2 \<and> m_blocks al = replicate (m_index al) False @ replicate (2 - m_index al) True"

text \<open>Blocks that are in no tree: those the allocator holds and those of the slab.\<close>

definition ua_blocks :: "UpdateAllocator \<Rightarrow> nat" where
  "ua_blocks al = (2 - m_index al) + slab_available al"

lemma ua_ok_cases:
  assumes "ua_ok al"
  obtains "m_index al = 0" "m_blocks al = [True, True]" | "m_index al = 1" "m_blocks al = [False, True]"
    | "m_index al = 2" "m_blocks al = [False, False]"
proof -
  have "m_index al = 0 \<or> m_index al = 1 \<or> m_index al = 2" using assms by (auto simp: ua_ok_def)
  then show ?thesis using assms that by (auto simp: ua_ok_def numeral_2_eq_2)
qed

lemmas ua_defs = ua_ok_def ua_blocks_def MaxBlocks_def aget_def aset_def numeral_2_eq_2

lemma Allocate_ok:
  assumes "ua_ok al" "m_index al < 2"
  shows "\<exists>al'. ua_Allocate al = Inr al' \<and> ua_ok al' \<and> m_index al' = m_index al + 1 \<and> ua_blocks al = ua_blocks al' + 1"
  using assms(1) by (rule ua_ok_cases) (use assms(2) in \<open>auto simp: ua_Allocate_def ua_defs\<close>)

lemma Free_ok: "ua_ok al \<Longrightarrow> \<exists>al'. ua_Free al = Inr al' \<and> ua_ok al' \<and> ua_blocks al' = ua_blocks al + 1"
  by (erule ua_ok_cases) (auto simp: ua_Free_def ua_defs)

text \<open>A new allocator holds the blocks asked for when the slab has them, and gives all back when it is deleted.\<close>

lemma delete_UpdateAllocator_ok: "ua_ok al \<Longrightarrow> delete_UpdateAllocator al = ua_blocks al"
  by (erule ua_ok_cases) (auto simp: delete_UpdateAllocator_def ua_defs)

lemma new_UpdateAllocator_ok:
  assumes "n \<le> 2" "n \<le> slab"
  shows "\<exists>al. new_UpdateAllocator slab n = Inr (R_SUCCEED, al) \<and> ua_ok al \<and> m_index al = 2 - n \<and> ua_blocks al = slab"
proof -
  have "n = 0 \<or> n = 1 \<or> n = 2" using assms(1) by auto
  then show ?thesis using assms(2) by (auto simp: new_UpdateAllocator_def ua_Initialize_def ua_defs)
qed

lemma new_UpdateAllocator_fails:
  assumes "n \<le> 2" "slab < n"
  shows "\<exists>al. new_UpdateAllocator slab n = Inr (ResultOutOfResource, al) \<and> delete_UpdateAllocator al = slab"
proof -
  have "n = 1 \<and> slab = 0 \<or> n = 2 \<and> slab = 0 \<or> n = 2 \<and> slab = 1" using assms by auto
  then show ?thesis by (auto simp: new_UpdateAllocator_def ua_Initialize_def delete_UpdateAllocator_def ua_defs)
qed

section \<open>Merging after an update\<close>

lemma view_merge:
  "m_address p' = m_address p \<Longrightarrow> mb_end p = m_address q \<Longrightarrow> mb_end p' = mb_end q \<Longrightarrow> mb_page p' = mb_page p \<Longrightarrow>
   mb_page q = mb_page p \<Longrightarrow> mb_fits p \<Longrightarrow> mb_fits q \<Longrightarrow> view (l @ p' # r) = view (l @ p # q # r)"
  using mb_size_pos [of p] mb_size_pos [of q] by (intro view_middle) auto

lemma view_split:
  "m_address x = m_address b \<Longrightarrow> mb_end x = c \<Longrightarrow> m_address y = c \<Longrightarrow> mb_end y = mb_end b \<Longrightarrow> mb_page x = mb_page b \<Longrightarrow>
   mb_page y = mb_page b \<Longrightarrow> mb_fits x \<Longrightarrow> mb_fits y \<Longrightarrow> view (l @ x # y # r) = view (l @ b # r)"
  by (rule sym, rule view_merge) auto

definition pages_ok :: "MemoryBlockTree \<Rightarrow> bool" where
  "pages_ok t \<longleftrightarrow> (\<forall>b\<in>set t. page_ok (mb_page b))"

text \<open>The tree and the allocator after merging: the same map, and nothing left to merge.\<close>

definition merged :: "KProcessAddress \<Rightarrow> KProcessAddress \<Rightarrow> MemoryBlockTree \<Rightarrow> UpdateAllocator \<Rightarrow> MemoryBlockTree \<times> UpdateAllocator \<Rightarrow> bool" where
  "merged s e t al = (\<lambda>(t', al'). tiles s t' e \<and> pages_ok t' \<and> view t' = view t \<and> unmerged (\<lambda>x. True) t' \<and> ua_ok al' \<and>
     length t' + ua_blocks al' = length t + ua_blocks al)"

lemma merge_step:
  assumes t: "tiles s (l @ p # q # r) e" and pg: "pages_ok (l @ p # q # r)" and um: "unmerged (\<lambda>x. True) (l @ [p])" and al: "ua_ok al"
    and can: "CanMergeWith p q"
  obtains p' al' where "mb_Add p q = Inr p'" "ua_Free al = Inr al'" "mb_fits p'" "mb_end p' = mb_end q" "tiles s (l @ p' # r) e" "pages_ok (l @ p' # r)"
    "view (l @ p' # r) = view (l @ p # q # r)" "unmerged (\<lambda>x. True) (l @ [p'])" "\<And>P. unmerged P (p' # r) = unmerged P (q # r)" "ua_ok al'"
    "ua_blocks al' = ua_blocks al + 1"
proof -
  from t have pq: "mb_fits p" "mb_fits q" "m_address q = mb_end p" and tl: "tiles s l (m_address p)" and tr: "tiles (mb_end q) r e"
    by (auto simp: tiles_append)
  obtain p' where p': "mb_Add p q = Inr p'" "mb_fits p'" "m_address p' = m_address p" "mb_end p' = mb_end q" "mb_page p' = mb_page p"
      "open_left p' = open_left p" "open_right p' = open_right q"
    using Add_parts [OF pq(1,2,3) can] by blast
  obtain al' where al': "ua_Free al = Inr al'" "ua_ok al'" "ua_blocks al' = ua_blocks al + 1"
    using Free_ok [OF al] by blast
  have page: "mb_page q = mb_page p" using can by (simp add: CanMergeWith_iff)
  have t': "tiles s (l @ p' # r) e" using tl tr p' by (auto simp: tiles_append)
  have v: "view (l @ p' # r) = view (l @ p # q # r)" using p' pq page by (intro view_merge) auto
  have ok: "pages_ok (l @ p' # r)" using pg p'(5) by (auto simp: pages_ok_def)
  have left: "unmerged (\<lambda>x. True) (l @ [p'])" using um unmerged_left [of p' p] p' by metis
  have "unmerged P (p' # r) = unmerged P (q # r)" for P using unmerged_right [of p' q] p' page by metis
  with that [OF p'(1) al'(1) p'(2,4) t' ok v left _ al'(2,3)] show ?thesis by blast
qed

lemma coalesce_from_ok:
  "tiles s (l @ p # r) e \<Longrightarrow> pages_ok (l @ p # r) \<Longrightarrow> unmerged (\<lambda>x. True) (l @ [p]) \<Longrightarrow> unmerged (\<lambda>x. E < x) (p # r) \<Longrightarrow> ua_ok al \<Longrightarrow>
   \<exists>x. coalesce_from E (l, p # r) al = Inr x \<and> merged s e (l @ p # r) al x"
proof (induction r arbitrary: l p al)
  case (Cons q r)
  from Cons.prems(1) have q: "mb_fits q" and tr: "tiles (mb_end q) r e" by (auto simp: tiles_append)
  have rest: "unmerged (\<lambda>x. True) (q # r)" if "E < mb_end q"
    by (rule unmerged_mono [of "\<lambda>x. E < x"]) (use Cons.prems(4) in simp, use tr that tiles_block in fastforce)
  show ?case
  proof (cases "CanMergeWith p q")
    case False
    then have p: "unmerged (\<lambda>x. True) ((l @ [p]) @ [q])" using Cons.prems(3) unmerged_cut [of _ l p "[q]"] by simp
    show ?thesis
    proof (cases "E < mb_end q")
      case True
      have "unmerged (\<lambda>x. True) (l @ p # q # r)"
        using p rest [OF True] unmerged_cut [of _ "l @ [p]" q r] by simp
      with True False q Cons.prems show ?thesis by (simp add: fits_simps merged_def)
    next
      case nE: False
      have "\<exists>x. coalesce_from E (l @ [p], q # r) al = Inr x \<and> merged s e ((l @ [p]) @ q # r) al x"
        by (rule Cons.IH) (use Cons.prems p in simp_all)
      with False nE q show ?thesis by (simp add: fits_simps)
    qed
  next
    case True
    obtain p' al' where m: "mb_Add p q = Inr p'" "ua_Free al = Inr al'" "mb_fits p'" "mb_end p' = mb_end q" "tiles s (l @ p' # r) e" "pages_ok (l @ p' # r)"
      "view (l @ p' # r) = view (l @ p # q # r)" "unmerged (\<lambda>x. True) (l @ [p'])" "\<And>P. unmerged P (p' # r) = unmerged P (q # r)" "ua_ok al'"
      "ua_blocks al' = ua_blocks al + 1"
      using merge_step [OF Cons.prems(1-3,5) True] by blast
    show ?thesis
    proof (cases "E < mb_end q")
      case E: True
      have "unmerged (\<lambda>x. True) (l @ p' # r)" using m(8,9) rest [OF E] unmerged_cut [of _ l p' r] by simp
      with E True m show ?thesis by (simp add: fits_simps merged_def)
    next
      case E: False
      have "\<exists>x. coalesce_from E (l, p' # r) al' = Inr x \<and> merged s e (l @ p' # r) al' x"
        by (rule Cons.IH) (use m Cons.prems(4) in simp_all)
      with E True m show ?thesis by (auto simp: fits_simps merged_def)
    qed
  qed
qed (simp add: merged_def)

section \<open>The update loop\<close>

text \<open>A block whose pages changed by \<open>f\<close>.\<close>

definition block_result :: "(page \<Rightarrow> page) \<Rightarrow> KMemoryBlock \<Rightarrow> KMemoryBlock \<Rightarrow> bool" where
  "block_result f b b' \<longleftrightarrow> m_address b' = m_address b \<and> m_num_pages b' = m_num_pages b \<and> mb_page b' = f (mb_page b) \<and>
     page_ok (mb_page b')"

text \<open>
  An update of the blocks of a range.  \<open>needs\<close> selects the blocks that \<open>change\<close> changes; \<open>effect\<close> is what happens to a page.  A block
  satisfying \<open>pre\<close> is changed without an assertion failing.
\<close>

locale range_update =
  fixes enabled :: bool
    and needs :: "KMemoryBlock \<Rightarrow> bool"
    and change :: "KMemoryBlock \<Rightarrow> KMemoryBlock run"
    and pre :: "KMemoryBlock \<Rightarrow> bool"
    and effect :: "page \<Rightarrow> page"
  assumes needs_page: "mb_page b = mb_page b' \<Longrightarrow> needs b = needs b'"
    and change_page: "enabled \<Longrightarrow> needs b \<Longrightarrow> page_ok (mb_page b) \<Longrightarrow>
      run_post (pre b) (block_result effect b) (change b)"
    and skip_page: "enabled \<Longrightarrow> \<not> needs b \<Longrightarrow> effect (mb_page b) = mb_page b"
    and pre_split: "pre b \<Longrightarrow> mb_Split b c = Inr (x, y) \<Longrightarrow> pre x \<and> pre y"

text \<open>
  The state of the loop over the range from \<open>A\<close> to \<open>E\<close>: \<open>V\<close> is the map it leads to and \<open>N\<close> the number of blocks there are.  With \<open>K\<close> the
  first block ends at or below \<open>A\<close> when the loop is done.
\<close>

definition loop_inv :: "(KMemoryBlock \<Rightarrow> bool) \<Rightarrow> (KMemoryBlock \<Rightarrow> bool) \<Rightarrow> (page \<Rightarrow> page) \<Rightarrow> KProcessAddress \<times> KProcessAddress \<Rightarrow>
    KProcessAddress \<times> KProcessAddress \<Rightarrow> bool \<times> bool \<Rightarrow> (KProcessAddress \<Rightarrow> page option) \<Rightarrow> nat \<Rightarrow>
    KProcessAddress \<Rightarrow> size_t \<Rightarrow> tree_iterator \<Rightarrow> UpdateAllocator \<Rightarrow> bool" where
  "loop_inv needs pre effect = (\<lambda>(s, e) (A, E) (K, T) V N cur rem (l, r) al.
     (\<exists>a. tiles s l a \<and> tiles a r e \<and> (0 < rem \<longrightarrow> a \<le> cur)) \<and> pages_ok (l @ r) \<and>
     unmerged (\<lambda>x. x < A \<or> E < x) (l @ r) \<and> ua_ok al \<and> length (l @ r) + ua_blocks al = N \<and>
     0 \<le> rem \<and> rem * PageSize = E - cur \<and> (0 < rem \<longleftrightarrow> cur < E) \<and> cur \<le> E \<and> 0 \<le> cur \<and> A \<le> cur \<and> E \<le> e \<and> e < 2 ^ 64 \<and> PageSize dvd cur \<and> PageSize dvd E \<and>
     on_range cur E effect (view (l @ r)) = V \<and>
     (0 < rem \<longrightarrow> r \<noteq> [] \<and> cur < mb_end (hd r)) \<and>
     (K \<longrightarrow> (if l = [] then 0 < rem \<and> needs (hd r) \<and> m_address (hd r) < cur \<and> cur = A else mb_end (hd l) \<le> A)) \<and>
     (T \<longrightarrow> (\<forall>b\<in>set r. m_address b < E \<longrightarrow> cur < mb_end b \<longrightarrow> needs b \<longrightarrow> pre b)))"

text \<open>The blocks the loop may still have to take from the allocator.\<close>

definition index_ok :: "KProcessAddress \<Rightarrow> size_t \<Rightarrow> tree_iterator \<Rightarrow> UpdateAllocator \<Rightarrow> bool" where
  "index_ok cur rem it al \<longleftrightarrow> (0 < rem \<longrightarrow> m_index al + (if m_address (hd (snd it)) = cur then 1 else 2) \<le> 2)"

context range_update
begin

abbreviation linv where "linv \<equiv> loop_inv needs pre effect"

lemma split_step:
  assumes inv: "linv (s, e) (A, E) (K, T) V N cur rem (l, b # r) al" and c: "m_address b < c" "c < mb_end b" "PageSize dvd c" "A \<le> c" "c \<le> E"
    and al: "m_index al < 2"
  obtains x y al' where "ua_Allocate al = Inr al'" "mb_Split b c = Inr (x, y)" "tree_insert x (l @ y # r) = Inr (l, x # y # r)"
    "mb_fits x" "mb_fits y" "m_address x = m_address b" "mb_end x = c" "m_address y = c" "mb_end y = mb_end b" "mb_page x = mb_page b" "mb_page y = mb_page b"
    "ua_ok al'" "m_index al' = m_index al + 1" "length (l @ x # y # r) + ua_blocks al' = N"
    "pages_ok (l @ x # y # r)" "unmerged (\<lambda>x. x < A \<or> E < x) (l @ x # y # r)" "view (l @ x # y # r) = view (l @ b # r)"
    "tiles s l (m_address b)" "tiles (mb_end b) r e"
proof -
  from inv have t: "tiles s l (m_address b)" "mb_fits b" "tiles (mb_end b) r e" and ok: "ua_ok al" and um: "unmerged (\<lambda>x. x < A \<or> E < x) (l @ b # r)"
    and pg: "pages_ok (l @ b # r)" and N: "length (l @ b # r) + ua_blocks al = N"
    by (auto simp: loop_inv_def)
  obtain al' where al': "ua_Allocate al = Inr al'" "ua_ok al'" "m_index al' = m_index al + 1" "ua_blocks al = ua_blocks al' + 1"
    using Allocate_ok [OF ok al] by blast
  obtain x y where xy: "mb_Split b c = Inr (x, y)" "mb_fits x" "mb_fits y" "m_address x = m_address b" "mb_end x = c"
     "m_address y = c" "mb_end y = mb_end b" "mb_page x = mb_page b" "mb_page y = mb_page b" "open_left x = open_left b" "open_right y = open_right b"
    using Split_parts [OF t(2) c(1-3)] by blast
  have "tree_insert x (l @ y # r) = Inr (l, x # y # r)"
    using tree_insert_at [of s l x y r] t(1) xy c by simp
  moreover have "unmerged (\<lambda>x. x < A \<or> E < x) (l @ x # y # r)"
  proof -
    have "unmerged (\<lambda>x. x < A \<or> E < x) (l @ [x])" "unmerged (\<lambda>x. x < A \<or> E < x) (y # r)"
      using um unmerged_cut [of _ l b r] unmerged_left [of x b] unmerged_right [of y b] xy by metis+
    with c xy(6) unmerged_cut [of _ l x "y # r"] show ?thesis by simp
  qed
  moreover have "view (l @ x # y # r) = view (l @ b # r)" using xy by (intro view_split) auto
  ultimately show ?thesis using that al' xy t N pg by (auto simp: pages_ok_def)
qed


lemma split_before_step:
  assumes inv: "linv (s, e) (A, E) (K, T) V N cur rem (l, b # r) al" and idx: "index_ok cur rem (l, b # r) al"
    and rem: "0 < rem" and nd: "needs b"
  shows "\<exists>l1 b1 al1. split_before cur (l, b # r) al = Inr (cur, (l1, b1 # r), al1) \<and>
    linv (s, e) (A, E) (K, T) V N cur rem (l1, b1 # r) al1 \<and> index_ok cur rem (l1, b1 # r) al1 \<and> m_address b1 = cur \<and> needs b1"
proof (cases "m_address b = cur")
  case True
  with assms show ?thesis by (auto simp: split_before_def iter_deref_def)
next
  case False
  with inv rem have lt: "m_address b < cur" "cur < mb_end b" and le: "PageSize dvd cur" "A \<le> cur" "cur \<le> E"
    by (auto simp: loop_inv_def)
  from idx rem False have i: "m_index al < 2" "m_index al + 1 + 1 \<le> 2" by (auto simp: index_ok_def)
  from split_step [OF inv lt le i(1)] obtain x y al1 where sp: "ua_Allocate al = Inr al1" "mb_Split b cur = Inr (x, y)"
    "tree_insert x (l @ y # r) = Inr (l, x # y # r)" "mb_fits x" "mb_fits y" "m_address x = m_address b" "mb_end x = cur" "m_address y = cur" "mb_end y = mb_end b"
    "mb_page x = mb_page b" "mb_page y = mb_page b" "ua_ok al1" "m_index al1 = m_index al + 1" "length (l @ x # y # r) + ua_blocks al1 = N"
    "pages_ok (l @ x # y # r)" "unmerged (\<lambda>x. x < A \<or> E < x) (l @ x # y # r)" "view (l @ x # y # r) = view (l @ b # r)"
    "tiles s l (m_address b)" "tiles (mb_end b) r e" by blast
  have "split_before cur (l, b # r) al = Inr (cur, (l @ [x], y # r), al1)"
    using sp False by (simp add: split_before_def iter_deref_def iter_next_def)
  moreover have "T \<Longrightarrow> pre y" using inv lt rem nd pre_split [OF _ sp(2)] by (auto simp: loop_inv_def)
  then have "linv (s, e) (A, E) (K, T) V N cur rem (l @ [x], y # r) al1"
    using inv sp lt rem by (auto simp: loop_inv_def tiles_append hd_append split: if_splits)
  moreover have "index_ok cur rem (l @ [x], y # r) al1" using sp i by (simp add: index_ok_def)
  ultimately show ?thesis using sp nd needs_page [of y b] by auto
qed

lemma split_after_step:
  assumes inv: "linv (s, e) (A, E) (K, T) V N cur rem (l, b # r) al" and idx: "index_ok cur rem (l, b # r) al"
    and rem: "0 < rem" and nd: "needs b" and cur: "m_address b = cur"
  shows "\<exists>b1 r1 al1. split_after cur (rem * PageSize) (l, b # r) al = Inr ((l, b1 # r1), al1) \<and>
    linv (s, e) (A, E) (K, T) V N cur rem (l, b1 # r1) al1 \<and> m_address b1 = cur \<and> needs b1 \<and>
    (mb_size b1 = rem * PageSize \<or> mb_size b1 < rem * PageSize \<and> r1 = r \<and> m_index al1 \<le> 1)"
proof -
  from inv have fits: "mb_fits b" by (auto simp: loop_inv_def)
  show ?thesis
  proof (cases "mb_size b > rem * PageSize")
    case False
    have "m_index al \<le> 1" using idx rem cur by (simp add: index_ok_def)
    with False assms fits show ?thesis by (auto simp: split_after_def iter_deref_def fits_simps)
  next
    case True
    have cE: "PageSize dvd E" "A \<le> E" "E \<le> E" and lim: "E < 2 ^ 64" "0 \<le> cur" "cur < E" and rs: "rem * PageSize = E - cur"
      using inv rem by (auto simp: loop_inv_def)
    have lt: "m_address b < E" "E < mb_end b" using True cur lim rs by auto
    have i: "m_index al < 2" using idx rem cur by (simp add: index_ok_def)
    from split_step [OF inv lt cE i] obtain x y al1 where sp: "ua_Allocate al = Inr al1" "mb_Split b E = Inr (x, y)"
      "tree_insert x (l @ y # r) = Inr (l, x # y # r)" "mb_fits x" "mb_fits y" "m_address x = m_address b" "mb_end x = E" "m_address y = E" "mb_end y = mb_end b"
      "mb_page x = mb_page b" "mb_page y = mb_page b" "ua_ok al1" "m_index al1 = m_index al + 1" "length (l @ x # y # r) + ua_blocks al1 = N"
      "pages_ok (l @ x # y # r)" "unmerged (\<lambda>x. x < A \<or> E < x) (l @ x # y # r)" "view (l @ x # y # r) = view (l @ b # r)"
      "tiles s l (m_address b)" "tiles (mb_end b) r e" by blast
    have "add64 cur (rem * PageSize) = E" unfolding rs using lim by simp
    then have "split_after cur (rem * PageSize) (l, b # r) al = Inr ((l, x # y # r), al1)"
      using sp True fits by (simp add: split_after_def iter_deref_def fits_simps)
    moreover have "T \<Longrightarrow> pre x" using inv lt rem nd cur pre_split [OF _ sp(2)] by (auto simp: loop_inv_def)
    then have "linv (s, e) (A, E) (K, T) V N cur rem (l, x # y # r) al1"
      using inv sp lt rem cur nd by (auto simp: loop_inv_def split: if_splits)
    moreover have "mb_size x = rem * PageSize" using sp(6,7) cur rs by simp
    ultimately show ?thesis using sp nd cur needs_page [of x b] by auto
  qed
qed


lemma on_range_advance:
  "cur \<le> c \<Longrightarrow> c \<le> E \<Longrightarrow> (\<And>x. cur \<le> x \<Longrightarrow> x < c \<Longrightarrow> v' x = map_option effect (v x)) \<Longrightarrow>
   (\<And>x. x < cur \<or> c \<le> x \<Longrightarrow> v' x = v x) \<Longrightarrow> on_range c E effect v' = on_range cur E effect v"
  by (rule ext) (auto simp: on_range_def)

text \<open>Replacing a block that begins and ends within the range.\<close>

lemma unmerged_replace:
  assumes um: "unmerged (\<lambda>x. x < A \<or> E < x) (l @ b # r)" and t: "tiles (mb_end b) r e" and b': "m_address b' = m_address b"
    and within: "b' = b \<or> A \<le> m_address b \<and> m_address b \<le> E \<and> A \<le> mb_end b \<and> mb_end b \<le> E"
  shows "unmerged (\<lambda>x. x < A \<or> E < x) (l @ b' # r)"
proof (cases "b' = b")
  case False
  with within b' have at: "A \<le> m_address b'" "m_address b' \<le> E" "A \<le> mb_end b" "mb_end b \<le> E" by auto
  have l: "unmerged (\<lambda>x. x < A \<or> E < x) (l @ [b'])"
    using um unmerged_cut [of _ l b r] at by (auto simp: unmerged_def successively_append_iff)
  have "unmerged (\<lambda>x. x < A \<or> E < x) (b' # r)"
  proof (cases r)
    case (Cons q r')
    with t have "m_address q = mb_end b" by simp
    with um Cons at unmerged_cut [of _ l b r] show ?thesis by auto
  qed simp
  with l unmerged_cut [of _ l b' r] show ?thesis by simp
qed (use um in simp)

lemma view_pass:
  assumes t: "tiles s l (m_address b)" and b': "m_address b' = m_address b" "mb_size b' = mb_size b" "mb_page b' = effect (mb_page b)"
    and cur: "m_address b \<le> cur" "cur < mb_end b" "cur < E" and c: "c = min E (mb_end b)" and whole: "b' = b \<or> m_address b = cur \<and> mb_end b \<le> E"
  shows "on_range c E effect (view (l @ b' # r)) = on_range cur E effect (view (l @ b # r))"
proof (rule on_range_advance)
  have vl: "view l x = None" if "m_address b \<le> x" for x using view_outside [OF t] that by simp
  show "cur \<le> c" "c \<le> E" using cur by (auto simp: c)
  show "view (l @ b' # r) x = map_option effect (view (l @ b # r) x)" if "cur \<le> x" "x < c" for x
    using that cur vl [of x] b' by (simp add: view_append c)
  show "view (l @ b' # r) x = view (l @ b # r) x" if "x < cur \<or> c \<le> x" for x
  proof (cases "b' = b")
    case False
    with whole have "m_address b = cur" "c = mb_end b" by (auto simp: c)
    with that b' show ?thesis by (auto simp: view_append split: option.split)
  qed simp
qed

text \<open>Passing a block whose pages have their final value.\<close>

lemma loop_pass:
  assumes inv: "linv (s, e) (A, E) (K, T) V N cur rem (l, b # r) al" and b': "m_address b' = m_address b" "m_num_pages b' = m_num_pages b"
      "page_ok (mb_page b')" "mb_page b' = effect (mb_page b)" and whole: "b' = b \<or> m_address b = cur \<and> mb_end b \<le> E"
    and c: "c = min E (mb_end b)" "rem' * PageSize = E - c" and rem: "0 < rem" and K: "l = [] \<Longrightarrow> \<not> needs b \<or> m_address b = cur"
  shows "linv (s, e) (A, E) (K, T) V N c rem' (l @ [b'], r) al"
proof -
  from inv rem have t: "tiles s l (m_address b)" "mb_fits b" "tiles (mb_end b) r e" and curb: "m_address b \<le> cur" "cur < mb_end b" "cur < E"
     and um: "unmerged (\<lambda>x. x < A \<or> E < x) (l @ b # r)" and le: "A \<le> cur" "0 \<le> cur" "E \<le> e" and dv: "PageSize dvd E"
    by (auto simp: loop_inv_def)
  have sz: "mb_size b' = mb_size b" using b'(2) by (simp add: mb_size_def)
  then have fits: "mb_fits b'" using t(2) b' by (simp add: mb_fits_def)
  have dvc: "PageSize dvd c" using t(2) dv by (auto simp: c min_def mb_fits_def mb_size_dvd)
  have "0 \<le> rem' * PageSize" "0 < rem' * PageSize \<longleftrightarrow> c < E" unfolding c(2) by (auto simp: c(1))
  then have rem': "0 \<le> rem'" "0 < rem' \<longleftrightarrow> c < E" by (simp_all add: PageSize_def)
  have next_b: "r \<noteq> [] \<and> m_address (hd r) = mb_end b \<and> c < mb_end (hd r)" if "c < E"
    using that t(3) le c(1) mb_size_pos [of "hd r"] by (cases r) auto
  have un: "unmerged (\<lambda>x. x < A \<or> E < x) ((l @ [b']) @ r)"
    using unmerged_replace [OF um t(3) b'(1)] whole le curb by auto
  have "on_range c E effect (view ((l @ [b']) @ r)) = on_range cur E effect (view (l @ b # r))"
    using view_pass [OF t(1) b'(1) sz b'(4) curb c(1) whole] by simp
  with inv rem' next_b un dvc fits b' sz t c rem K curb show ?thesis
    by (auto simp: loop_inv_def pages_ok_def tiles_append hd_append split: if_splits)
qed

lemma update_loop_needs:
  assumes inv: "linv (s, e) (A, E) (K, T) V N cur rem (l, b # r) al" and idx: "index_ok cur rem (l, b # r) al"
    and rem: "0 < rem" and nd: "needs b" and en: "enabled"
    and rest: "\<And>cur rem l r' al. linv (s, e) (A, E) (K, T) V N cur rem (l, r') al \<Longrightarrow> index_ok cur rem (l, r') al \<Longrightarrow> 0 < rem \<longrightarrow> r' = r \<Longrightarrow>
      run_post T P (update_loop fuel needs change cur rem (l, r') al)"
  shows "run_post T P (update_loop (Suc fuel) needs change cur rem (l, b # r) al)"
proof -
  obtain l1 b1 al1 where s1: "split_before cur (l, b # r) al = Inr (cur, (l1, b1 # r), al1)" "linv (s, e) (A, E) (K, T) V N cur rem (l1, b1 # r) al1"
      "index_ok cur rem (l1, b1 # r) al1" "m_address b1 = cur" "needs b1"
    using split_before_step [OF inv idx rem nd] by blast
  obtain b2 r2 al2 where s2: "split_after cur (rem * PageSize) (l1, b1 # r) al1 = Inr ((l1, b2 # r2), al2)"
      "linv (s, e) (A, E) (K, T) V N cur rem (l1, b2 # r2) al2" "m_address b2 = cur" "needs b2"
      "mb_size b2 = rem * PageSize \<or> mb_size b2 < rem * PageSize \<and> r2 = r \<and> m_index al2 \<le> 1"
    using split_after_step [OF s1(2,3) rem s1(5,4)] by blast
  from s2(2) rem have f: "mb_fits b2" "page_ok (mb_page b2)" "rem * PageSize = E - cur" "cur < E" "E < 2 ^ 64" "0 \<le> cur" "T \<Longrightarrow> pre b2"
      "tiles (mb_end b2) r2 e" "E \<le> e"
    using s2(3,4) by (auto simp: loop_inv_def pages_ok_def)
  have mul: "mul64 rem PageSize = rem * PageSize" using f by simp
  have sz: "mb_size b2 \<le> E - cur" using s2(5) f(3) by auto
  have step: "update_loop (Suc fuel) needs change cur rem (l, b # r) al =
      bind_run (change b2) (\<lambda>b'. update_loop fuel needs change (mb_end b2) (rem - m_num_pages b2) (l1 @ [b'], r2) al2)"
  proof -
    have np: "m_num_pages b2 \<le> rem" "0 \<le> m_num_pages b2" using sz f(1,3) by (auto simp: mb_size_def mb_fits_def PageSize_def)
    have "rem \<le> rem * PageSize" using rem by (simp add: PageSize_def)
    with np f have "sub64 rem (m_num_pages b2) = rem - m_num_pages b2" by simp
    moreover have "add64 cur (mb_size b2) = mb_end b2" using sz f s2(3) mb_size_pos [OF f(1)] by simp
    ultimately show ?thesis using rem nd s1(1) s2(1) f(1) mul
      by (simp add: Let_def iter_deref_def iter_next_def iter_write_def fits_simps)
  qed
  show ?thesis unfolding step
  proof (rule run_post_bind)
    show "run_post T (block_result effect b2) (change b2)"
      using change_page [OF en s2(4) f(2)] by (rule run_post_mono) (use f in auto)
    fix b' assume b': "block_result effect b2 b'"
    have E: "mb_end b2 = min E (mb_end b2)" using sz s2(3) by simp
    have rs: "(rem - m_num_pages b2) * PageSize = E - mb_end b2" using f(3) s2(3) by (simp add: left_diff_distrib mb_size_def)
    have "linv (s, e) (A, E) (K, T) V N (mb_end b2) (rem - m_num_pages b2) (l1 @ [b'], r2) al2"
      by (rule loop_pass [OF s2(2)]) (use b' s2(3) E rs rem in \<open>auto simp: block_result_def\<close>)
    moreover have lt: "0 < rem - m_num_pages b2 \<Longrightarrow> mb_size b2 < rem * PageSize"
      using rs f(3) s2(3) by (simp add: mb_size_def PageSize_def)
    then have "index_ok (mb_end b2) (rem - m_num_pages b2) (l1 @ [b'], r2) al2"
      using s2(3,5) f(3,8,9) by (cases r2) (auto simp: index_ok_def)
    ultimately show "run_post T P (update_loop fuel needs change (mb_end b2) (rem - m_num_pages b2) (l1 @ [b'], r2) al2)"
      using rest s2(5) lt by force
  qed
qed

lemma update_loop_ok:
  assumes en: "enabled"
  shows "linv (s, e) (A, E) (K, T) V N cur rem (l, r) al \<Longrightarrow> index_ok cur rem (l, r) al \<Longrightarrow> (0 < rem \<Longrightarrow> length r \<le> fuel) \<Longrightarrow>
    run_post T (\<lambda>(it, al). linv (s, e) (A, E) (K, T) V N E 0 it al) (update_loop fuel needs change cur rem (l, r) al)"
proof (induction fuel arbitrary: cur rem l r al)
  case 0
  then show ?case by (auto simp: loop_inv_def)
next
  case (Suc fuel)
  show ?case
  proof (cases "0 < rem")
    case False
    with Suc.prems(1) have "rem = 0 \<and> cur = E" by (auto simp: loop_inv_def)
    with Suc.prems show ?thesis by simp
  next
    case rem: True
    with Suc.prems(1) obtain b r1 where r: "r = b # r1" by (cases r) (auto simp: loop_inv_def)
    note inv = Suc.prems(1) [unfolded r] and idx = Suc.prems(2) [unfolded r]
    from inv rem have f: "mb_fits b" "rem * PageSize = E - cur" "cur < E" "E < 2 ^ 64" "0 \<le> cur" "page_ok (mb_page b)" "cur < mb_end b" "m_address b \<le> cur"
        "PageSize dvd E" "tiles (mb_end b) r1 e" "E \<le> e"
      by (auto simp: loop_inv_def pages_ok_def)
    have mul: "mul64 rem PageSize = rem * PageSize" using f by simp
    show ?thesis
    proof (cases "needs b")
      case True
      show ?thesis unfolding r
        by (rule update_loop_needs [OF inv idx rem True en]) (rule Suc.IH, use Suc.prems(3) [OF rem] r in auto)
    next
      case skip: False
      define rem' where "rem' = (if E < mb_end b then 0 else (E - mb_end b) div PageSize)"
      have "PageSize dvd E - mb_end b" using f(1,9) by (auto simp: mb_fits_def mb_size_dvd intro: dvd_diff)
      then have rs: "rem' * PageSize = E - min E (mb_end b)" by (auto simp: rem'_def min_def)
      have step: "update_loop (Suc fuel) needs change cur rem (l, r) al =
          update_loop fuel needs change (min E (mb_end b)) rem' (l @ [b], r1) al"
        using rem skip f mul by (auto simp: r Let_def iter_deref_def iter_next_def fits_simps rem'_def)
      have "linv (s, e) (A, E) (K, T) V N (min E (mb_end b)) rem' (l @ [b], r1) al"
        by (rule loop_pass [OF inv]) (use skip_page [OF en skip] f rs rem skip in auto)
      moreover have "index_ok (min E (mb_end b)) rem' (l @ [b], r1) al"
        using idx rem rs f(10,11) by (cases r1) (auto simp: index_ok_def rem'_def min_def split: if_splits)
      ultimately show ?thesis unfolding step using Suc.prems(3) [OF rem] r by (intro Suc.IH) auto
    qed
  qed
qed


end

section \<open>Whole updates\<close>

definition mbm_ok :: "KMemoryBlockManager \<Rightarrow> bool" where
  "mbm_ok m \<longleftrightarrow> m_start_address m < m_end_address m \<and> tiles (m_start_address m) (m_memory_block_tree m) (m_end_address m) \<and>
     pages_ok (m_memory_block_tree m) \<and> unmerged (\<lambda>x. True) (m_memory_block_tree m)"

text \<open>A range of pages within the space, and an allocator with its two blocks.\<close>

definition range_ok :: "KProcessAddress \<Rightarrow> size_t \<Rightarrow> KMemoryBlockManager \<Rightarrow> bool" where
  "range_ok address num_pages m \<longleftrightarrow> PageSize dvd address \<and> 0 \<le> num_pages \<and> m_start_address m \<le> address \<and>
     address < m_end_address m \<and> address + num_pages * PageSize \<le> m_end_address m"

definition ua_full :: "UpdateAllocator \<Rightarrow> bool" where
  "ua_full al \<longleftrightarrow> ua_ok al \<and> m_index al = 0"

text \<open>
  Where the range begins inside the first block, that block must need the change: otherwise no block ends at or below the address, and
  \<^verbatim>\<open>CoalesceForUpdate\<close> steps back from the first block.
\<close>

definition steps_back_ok :: "(KMemoryBlock \<Rightarrow> bool) \<Rightarrow> KProcessAddress \<Rightarrow> size_t \<Rightarrow> KMemoryBlockManager \<Rightarrow> bool" where
  "steps_back_ok needs address num_pages m \<longleftrightarrow> address = m_start_address m \<or> mb_end (hd (m_memory_block_tree m)) \<le> address \<or>
     0 < num_pages \<and> needs (hd (m_memory_block_tree m))"

abbreviation blocks_of :: "KMemoryBlockManager \<Rightarrow> UpdateAllocator \<Rightarrow> nat" where
  "blocks_of m al \<equiv> length (m_memory_block_tree m) + ua_blocks al"

text \<open>Where the merging begins: at the first block, or at one that lies below the range.\<close>

lemma coalesce_start:
  assumes t: "tiles (m_start_address m) (m_memory_block_tree m) (m_end_address m)" and r: "m_start_address m \<le> address" "address < m_end_address m"
    and fst_ok: "address \<noteq> m_start_address m \<Longrightarrow> mb_end (hd (m_memory_block_tree m)) \<le> address"
  obtains l p r where "(if address \<noteq> m_start_address m then iter_prev (FindIterator m address) else Inr (FindIterator m address)) = Inr (l, p # r)"
    "m_memory_block_tree m = l @ p # r" "l = [] \<or> m_address p < address"
proof -
  let ?t = "m_memory_block_tree m" and ?s = "m_start_address m" and ?e = "m_end_address m"
  obtain l b r' where f: "FindIterator m address = (l, b # r')" "?t = l @ b # r'" "m_address b \<le> address" "address < mb_end b"
    using tree_find_split [OF t, of "new_KMemoryBlock address 1 State_Free 0 0"] r
    by (auto simp: FindIterator_def new_KMemoryBlock_def)
  have below: "m_address p < address" if "p \<in> set l" for p
    using tiles_order [of ?s l b r' ?e p] tiles_block [OF t, of p] t f(2,3) that mb_size_pos [of p] by auto
  show ?thesis
  proof (cases "address = ?s")
    case True
    have "l = []" using below tiles_block [OF t] f(2) True by (cases l) fastforce+
    with True f that [of "[]" b r'] show ?thesis by simp
  next
    case False
    have "l \<noteq> []" using fst_ok [OF False] f(2,4) by (cases l) auto
    then obtain l' p where l: "l = l' @ [p]" by (meson rev_exhaust)
    with False f below [of p] that [of l' p "b # r'"] show ?thesis by (simp add: iter_prev_def)
  qed
qed

lemma unmerged_below:
  assumes t: "tiles s (l @ p # r) e" and um: "unmerged (\<lambda>x. x < a \<or> E < x) (l @ p # r)" and p: "l = [] \<or> m_address p < a"
  shows "unmerged (\<lambda>x. True) (l @ [p])" "unmerged (\<lambda>x. E < x) (p # r) \<or> E < a"
proof -
  have u: "unmerged (\<lambda>x. x < a \<or> E < x) (l @ [p])" "unmerged (\<lambda>x. x < a \<or> E < x) (p # r)"
    using um unmerged_cut [of _ l p r] by auto
  show "unmerged (\<lambda>x. True) (l @ [p])"
  proof (cases "l = []")
    case False
    show ?thesis
    proof (rule unmerged_mono [OF u(1)])
      fix c assume "c \<in> set (tl (l @ [p]))"
      then have "c \<in> set l \<or> c = p" using False by (cases l) auto
      then show "m_address c < a \<or> E < m_address c"
        using tiles_order [OF t, of c] tiles_block [OF t, of c] mb_size_pos [of c] p False by auto
    qed
  qed simp
  show "unmerged (\<lambda>x. E < x) (p # r) \<or> E < a" using unmerged_mono [OF u(2), of "\<lambda>x. E < x"] by auto
qed

lemma CoalesceForUpdate_ok:
  assumes t: "tiles (m_start_address m) (m_memory_block_tree m) (m_end_address m)" and pg: "pages_ok (m_memory_block_tree m)"
    and um: "unmerged (\<lambda>x. x < address \<or> address + n * PageSize < x) (m_memory_block_tree m)" and al: "ua_ok al" and r: "range_ok address n m"
    and fst_ok: "address \<noteq> m_start_address m \<Longrightarrow> mb_end (hd (m_memory_block_tree m)) \<le> address" and e: "m_end_address m < 2 ^ 64" "0 \<le> m_start_address m"
  shows "\<exists>m' al'. CoalesceForUpdate address n m al = Inr (m', al') \<and> mbm_ok m' \<and> m_start_address m' = m_start_address m \<and>
    m_end_address m' = m_end_address m \<and> view (m_memory_block_tree m') = view (m_memory_block_tree m) \<and> ua_ok al' \<and> blocks_of m' al' = blocks_of m al"
proof -
  have in_range: "m_start_address m \<le> address" "address < m_end_address m" "0 \<le> n" "address + n * PageSize \<le> m_end_address m"
    using r by (auto simp: range_ok_def)
  have nn: "0 \<le> n * PageSize" using in_range(3) by (simp add: PageSize_def)
  have rend: "add64 address (mul64 n PageSize) = address + n * PageSize"
    using in_range nn e by simp
  obtain l p r1 where it: "(if address \<noteq> m_start_address m then iter_prev (FindIterator m address) else Inr (FindIterator m address)) = Inr (l, p # r1)"
      "m_memory_block_tree m = l @ p # r1" "l = [] \<or> m_address p < address"
    using coalesce_start [OF t in_range(1,2) fst_ok] by blast
  obtain x where c: "coalesce_from (address + n * PageSize) (l, p # r1) al = Inr x" "merged (m_start_address m) (m_end_address m) (l @ p # r1) al x"
    using coalesce_from_ok [of "m_start_address m" l p r1 "m_end_address m" "address + n * PageSize" al]
      unmerged_below [of "m_start_address m" l p r1 "m_end_address m" address "address + n * PageSize"] t pg um it(2,3) al nn by auto
  have "CoalesceForUpdate address n m al = Inr (m\<lparr>m_memory_block_tree := fst x\<rparr>, snd x)"
    unfolding CoalesceForUpdate_def it(1) rend using c(1) by (simp add: case_prod_beta)
  with c(2) in_range it(2) show ?thesis by (auto simp: mbm_ok_def merged_def)
qed

lemma CoalesceForUpdate_first:
  assumes t: "tiles (m_start_address m) (m_memory_block_tree m) e" and r: "m_start_address m < address" "address < e"
    and hd: "address < mb_end (hd (m_memory_block_tree m))"
  shows "CoalesceForUpdate address n m al = Inl NullDeref"
proof -
  from t r obtain b bs where bs: "m_memory_block_tree m = b # bs" "m_address b = m_start_address m" "mb_fits b"
    by (cases "m_memory_block_tree m") auto
  with r hd have "FindIterator m address = ([], b # bs)"
    by (simp add: FindIterator_def Compare_fits new_KMemoryBlock_def)
  with r show ?thesis by (simp add: CoalesceForUpdate_def iter_prev_def)
qed

lemma mbm_ok_bounds:
  assumes "mbm_ok m"
  shows "0 \<le> m_start_address m" "m_end_address m < 2 ^ 64" "m_memory_block_tree m \<noteq> []" "m_address (hd (m_memory_block_tree m)) = m_start_address m"
proof -
  have t: "tiles (m_start_address m) (m_memory_block_tree m) (m_end_address m)" "m_start_address m < m_end_address m"
    using assms by (auto simp: mbm_ok_def)
  then show ne: "m_memory_block_tree m \<noteq> []" by auto
  with t show "m_address (hd (m_memory_block_tree m)) = m_start_address m" "0 \<le> m_start_address m"
    by (cases "m_memory_block_tree m"; auto simp: mb_fits_def)+
  obtain ts b where "m_memory_block_tree m = ts @ [b]" using ne by (meson rev_exhaust)
  with t show "m_end_address m < 2 ^ 64" by (auto simp: tiles_append mb_fits_def)
qed

text \<open>The blocks that meet a range.\<close>

definition meets :: "KProcessAddress \<Rightarrow> size_t \<Rightarrow> KMemoryBlock \<Rightarrow> bool" where
  "meets address num_pages b \<longleftrightarrow> m_address b < address + num_pages * PageSize \<and> address < mb_end b"

text \<open>What an update makes of a state: the map changes by \<open>effect\<close> on the range only, and no block is lost.\<close>

definition update_result :: "(page \<Rightarrow> page) \<Rightarrow> KProcessAddress \<Rightarrow> size_t \<Rightarrow> KMemoryBlockManager \<Rightarrow> UpdateAllocator \<Rightarrow>
    KMemoryBlockManager \<times> UpdateAllocator \<Rightarrow> bool" where
  "update_result effect address n m al = (\<lambda>(m', al'). mbm_ok m' \<and> m_start_address m' = m_start_address m \<and> m_end_address m' = m_end_address m \<and>
     view (m_memory_block_tree m') = on_range address (address + n * PageSize) effect (view (m_memory_block_tree m)) \<and>
     ua_ok al' \<and> blocks_of m' al' = blocks_of m al)"

context range_update
begin

text \<open>The state after the loop and before the merging.\<close>

lemma update_range_loop:
  assumes en: "enabled" and ok: "mbm_ok m" and r: "range_ok address n m" and al: "ua_full al"
    and K: "K \<Longrightarrow> address \<noteq> m_start_address m \<and> steps_back_ok needs address n m"
    and E: "E = address + n * PageSize" and V: "V = on_range address E effect (view (m_memory_block_tree m))"
    and T: "T = (\<forall>b\<in>set (m_memory_block_tree m). meets address n b \<and> needs b \<longrightarrow> pre b)"
  shows "run_post T (\<lambda>(it, al'). linv (m_start_address m, m_end_address m) (address, E) (K, T) V (blocks_of m al) E 0 it al')
      (update_loop (length (m_memory_block_tree m) + 1) needs change address n (FindIterator m address) al)"
proof -
  let ?t = "m_memory_block_tree m" and ?s = "m_start_address m" and ?e = "m_end_address m"
  note b = mbm_ok_bounds [OF ok]
  from ok have t: "tiles ?s ?t ?e" "pages_ok ?t" "unmerged (\<lambda>x. True) ?t" by (auto simp: mbm_ok_def)
  have rr: "PageSize dvd address" "0 \<le> n" "?s \<le> address" "address < ?e" "E \<le> ?e" using r by (auto simp: range_ok_def E)
  have nn: "0 \<le> n * PageSize" "0 < n \<longleftrightarrow> address < E" using rr(2) by (auto simp: PageSize_def E)
  define k where "k = new_KMemoryBlock address 1 State_Free 0 0"
  have k: "m_address k = address" by (simp add: k_def new_KMemoryBlock_def)
  obtain l c r where f: "tree_find k ?t = (l, c # r)" "?t = l @ c # r" "m_address c \<le> address" "address < mb_end c"
    using tree_find_split [OF t(1), of k] rr k by auto
  have K: "if l = [] then 0 < n \<and> needs c \<and> m_address c < address else mb_end (hd l) \<le> address" if K
  proof (cases "l = []")
    case True
    with K [OF that] f b(4) show ?thesis by (auto simp: steps_back_ok_def)
  next
    case False
    then have "mb_end (hd l) \<le> m_address c" using tiles_order [of ?s l c r ?e "hd l"] t(1) f(2) by simp
    with False f(3) show ?thesis by simp
  qed
  have um: "unmerged (\<lambda>x. x < address \<or> E < x) ?t" by (rule unmerged_mono [OF t(3)]) simp
  have "linv (?s, ?e) (address, E) (K, T) V (blocks_of m al) address n (l, c # r) al"
    using t(1,2) um al rr nn b(1,2) f(2-4) K
    by (auto simp: loop_inv_def ua_full_def V T meets_def tiles_append E)
  moreover have "index_ok address n (l, c # r) al" using al by (auto simp: index_ok_def ua_full_def)
  ultimately show ?thesis unfolding FindIterator_def k_def [symmetric] f(1)
    by (rule update_loop_ok [OF en]) (simp add: f(2))
qed

lemma loop_done:
  "linv (s, e) (A, E) (K, T) V N E 0 (l, r) al \<Longrightarrow>
   tiles s (l @ r) e \<and> pages_ok (l @ r) \<and> unmerged (\<lambda>x. x < A \<or> E < x) (l @ r) \<and> ua_ok al \<and> length (l @ r) + ua_blocks al = N \<and>
   view (l @ r) = V \<and> (K \<longrightarrow> l \<noteq> [] \<and> mb_end (hd l) \<le> A)"
  by (auto simp: loop_inv_def tiles_append split: if_splits)

lemma coalesce_loop_done:
  assumes ok: "mbm_ok m" and r: "range_ok address n m"
    and li: "linv (m_start_address m, m_end_address m) (address, address + n * PageSize) (K, T)
       (on_range address (address + n * PageSize) effect (view (m_memory_block_tree m))) (blocks_of m al) (address + n * PageSize) 0 (l, r') al'"
    and fst_ok: "address \<noteq> m_start_address m \<Longrightarrow> mb_end (hd (l @ r')) \<le> address"
  shows "\<exists>x. CoalesceForUpdate address n (m\<lparr>m_memory_block_tree := l @ r'\<rparr>) al' = Inr x \<and> update_result effect address n m al x"
proof -
  define m1 where "m1 = m\<lparr>m_memory_block_tree := l @ r'\<rparr>"
  have "\<exists>m' al''. CoalesceForUpdate address n m1 al' = Inr (m', al'') \<and> mbm_ok m' \<and> m_start_address m' = m_start_address m1 \<and>
      m_end_address m' = m_end_address m1 \<and> view (m_memory_block_tree m') = view (m_memory_block_tree m1) \<and> ua_ok al'' \<and>
      blocks_of m' al'' = blocks_of m1 al'"
    by (rule CoalesceForUpdate_ok)
      (use loop_done [OF li] r mbm_ok_bounds [OF ok] fst_ok in \<open>auto simp: m1_def range_ok_def\<close>)
  then show ?thesis using loop_done [OF li] by (auto simp: m1_def update_result_def)
qed

lemma update_range_ok:
  assumes en: "enabled" and ok: "mbm_ok m" and r: "range_ok address n m" and al: "ua_full al" and st: "steps_back_ok needs address n m"
  shows "run_post (\<forall>b\<in>set (m_memory_block_tree m). meets address n b \<and> needs b \<longrightarrow> pre b) (update_result effect address n m al)
    (update_range needs change address n m al)"
  unfolding update_range_def
proof (rule run_post_bind [OF update_range_loop [OF en ok r al _ refl refl refl]])
  show "address \<noteq> m_start_address m \<Longrightarrow> address \<noteq> m_start_address m \<and> steps_back_ok needs address n m" using st by simp
qed (use coalesce_loop_done [OF ok r] loop_done in \<open>fastforce simp: hd_append\<close>)

text \<open>Without the condition on the first block, an update that returns is still right.\<close>

lemma update_range_partial:
  assumes en: "enabled" and ok: "mbm_ok m" and r: "range_ok address n m" and al: "ua_full al"
    and ret: "update_range needs change address n m al = Inr x"
  shows "update_result effect address n m al x"
proof -
  obtain l r' al' where lp: "update_loop (length (m_memory_block_tree m) + 1) needs change address n (FindIterator m address) al = Inr ((l, r'), al')"
      and co: "CoalesceForUpdate address n (m\<lparr>m_memory_block_tree := l @ r'\<rparr>) al' = Inr x"
    using ret by (auto simp: update_range_def bind_run_eq_Inr)
  have li: "linv (m_start_address m, m_end_address m) (address, address + n * PageSize) (False, \<forall>b\<in>set (m_memory_block_tree m). meets address n b \<and> needs b \<longrightarrow> pre b)
       (on_range address (address + n * PageSize) effect (view (m_memory_block_tree m))) (blocks_of m al) (address + n * PageSize) 0 (l, r') al'"
    using update_range_loop [OF en ok r al _ refl refl refl, of False] unfolding lp by simp
  have "mb_end (hd (l @ r')) \<le> address" if "address \<noteq> m_start_address m"
  proof (rule ccontr)
    assume "\<not> mb_end (hd (l @ r')) \<le> address"
    then have "CoalesceForUpdate address n (m\<lparr>m_memory_block_tree := l @ r'\<rparr>) al' = Inl NullDeref"
      using CoalesceForUpdate_first [of "m\<lparr>m_memory_block_tree := l @ r'\<rparr>"] loop_done [OF li] r that by (auto simp: range_ok_def)
    with co show False by simp
  qed
  from coalesce_loop_done [OF ok r li this] co show ?thesis by simp
qed

end

end
