(* ===== verification/MemoryBlockSpace.thy ===== *)
theory MemoryBlockSpace
  imports MemoryBlockUpdates
begin

text \<open>
  The operations of the memory block manager against their effect on pages: every update and every lock function as an instance of
  \<open>range_update\<close>, the address space as a machine, and the search for a free area.
\<close>

section \<open>Effects on a page\<close>

definition page_has :: "KMemoryState \<Rightarrow> KMemoryPermission \<Rightarrow> KMemoryAttribute \<Rightarrow> page \<Rightarrow> bool" where
  "page_has s p a pg \<longleftrightarrow>
     pg_state pg = s \<and> pg_permission pg = p \<and> pg_attribute pg OR AttributeIgnoreMask = a OR AttributeIgnoreMask"

lemma HasProperties_page: "HasProperties b s p a \<longleftrightarrow> page_has s p a (mb_page b)"
  by (simp add: HasProperties_def page_has_def mb_page_def)

definition set_page :: "KMemoryState \<Rightarrow> KMemoryPermission \<Rightarrow> KMemoryAttribute \<Rightarrow> page \<Rightarrow> page" where
  "set_page s p a pg = pg\<lparr>pg_state := s, pg_permission := p,
     pg_attribute := a OR (pg_attribute pg AND (IpcLocked OR DeviceShared))\<rparr>"

definition set_page_if :: "(page \<Rightarrow> bool) \<Rightarrow> (page \<Rightarrow> page) \<Rightarrow> page \<Rightarrow> page" where
  "set_page_if test f pg = (if test pg then f pg else pg)"

definition set_attribute :: "KMemoryAttribute \<Rightarrow> KMemoryAttribute \<Rightarrow> page \<Rightarrow> page" where
  "set_attribute attr_mask attr pg = pg\<lparr>pg_attribute := (pg_attribute pg AND NOT attr_mask) OR attr\<rparr>"

definition share_page :: "page \<Rightarrow> page" where
  "share_page pg = pg\<lparr>pg_device_use_count := pg_device_use_count pg + 1, pg_attribute := pg_attribute pg OR DeviceShared\<rparr>"

definition unshare_page :: "page \<Rightarrow> page" where
  "unshare_page pg = pg\<lparr>pg_device_use_count := pg_device_use_count pg - 1,
     pg_attribute := (if pg_device_use_count pg = 1 then pg_attribute pg AND NOT DeviceShared else pg_attribute pg)\<rparr>"

definition lock_page :: "KMemoryPermission \<Rightarrow> page \<Rightarrow> page" where
  "lock_page perm pg = (if pg_ipc_lock_count pg = 0
     then pg\<lparr>pg_ipc_lock_count := 1, pg_original_permission := pg_permission pg,
             pg_permission := (perm AND IpcLockChangeMask) OR (pg_permission pg AND NOT IpcLockChangeMask),
             pg_attribute := pg_attribute pg OR IpcLocked\<rparr>
     else pg\<lparr>pg_ipc_lock_count := pg_ipc_lock_count pg + 1, pg_attribute := pg_attribute pg OR IpcLocked\<rparr>)"

definition unlock_page :: "page \<Rightarrow> page" where
  "unlock_page pg = (if pg_ipc_lock_count pg = 1
     then pg\<lparr>pg_ipc_lock_count := 0, pg_permission := pg_original_permission pg, pg_original_permission := 0,
             pg_attribute := pg_attribute pg AND NOT IpcLocked\<rparr>
     else pg\<lparr>pg_ipc_lock_count := pg_ipc_lock_count pg - 1\<rparr>)"

section \<open>The updates as instances\<close>

lemma keep_attribute:
  fixes x a ig :: "'a::len word"
  assumes "x OR ig = a OR ig" "a AND ig = 0"
  shows "a OR (x AND ig) = x"
proof (rule bit_word_eqI)
  fix n
  have "bit (x OR ig) n = bit (a OR ig) n" "bit (a AND ig) n = False" using assms by simp_all
  then show "bit (a OR (x AND ig)) n = bit x n" by (auto simp: bit_simps)
qed

lemma bit_and_zero: "x AND y = (0 :: 'a::len word) \<Longrightarrow> \<not> (bit x n \<and> bit y n)"
  by (metis bit_0_eq bit_and_iff bot_apply bot_bool_def)

lemma or_and_not:
  fixes x m :: "'a::len word"
  assumes "x AND m = 0"
  shows "(x OR m) AND NOT m = x"
proof (rule bit_word_eqI)
  fix n assume "n < LENGTH('a)"
  then show "bit ((x OR m) AND NOT m) n = bit x n" using bit_and_zero [OF assms, of n] by (auto simp: bit_simps)
qed

lemma or_absorb:
  fixes x m :: "'a::len word"
  assumes "x AND m = m"
  shows "x OR m = x"
proof (rule bit_word_eqI)
  fix n
  have "bit (x AND m) n = bit m n" using assms by simp
  then show "bit (x OR m) n = bit x n" by (auto simp: bit_simps)
qed

lemma attribute_bits: "IpcLocked AND DeviceShared = 0" "DeviceShared AND IpcLocked = 0"
  "IpcLocked AND IpcLocked = IpcLocked" "DeviceShared AND DeviceShared = DeviceShared" "IpcLocked \<noteq> 0" "DeviceShared \<noteq> 0"
  by (simp_all add: IpcLocked_def DeviceShared_def)

lemma and_part_zero:
  fixes a m n :: "'a::len word"
  shows "a AND (m OR n) = 0 \<Longrightarrow> a AND m = 0" "a AND (m OR n) = 0 \<Longrightarrow> a AND n = 0"
  by (simp_all add: bit.conj_disj_distrib or_eq_0_iff)

lemma set_page_ok:
  assumes "a AND (IpcLocked OR DeviceShared) = 0" "page_ok pg"
  shows "page_ok (set_page s p a pg)"
proof -
  have "(a OR (pg_attribute pg AND (IpcLocked OR DeviceShared))) AND IpcLocked = pg_attribute pg AND IpcLocked"
    "(a OR (pg_attribute pg AND (IpcLocked OR DeviceShared))) AND DeviceShared = pg_attribute pg AND DeviceShared"
    using and_part_zero [OF assms(1)] by (simp_all add: bit.conj_disj_distrib2 bit.conj_disj_distrib and.assoc attribute_bits)
  with assms(2) show ?thesis by (simp add: page_ok_def set_page_def)
qed

lemma mb_Update_page:
  assumes "a AND (IpcLocked OR DeviceShared) = 0" "page_ok (mb_page b)"
  shows "run_post (m_original_permission b = 0 \<and> m_attribute b AND IpcLocked = 0)
    (block_result (set_page s p a) b)
    (mb_Update s p a is_left sm cm b)"
  using set_page_ok [OF assms, of s p] by (auto simp: mb_Update_def ensure_def Let_def mb_page_def set_page_def block_result_def)

interpretation upd: range_update "a AND (IpcLocked OR DeviceShared) = 0" "\<lambda>b. \<not> HasProperties b s p a"
  "\<lambda>b. mb_Update s p a (m_address b = address) sm cm b" "\<lambda>b. m_original_permission b = 0 \<and> m_attribute b AND IpcLocked = 0"
  "set_page s p a" for s p a address sm cm
proof unfold_locales
  fix b assume en: "a AND (IpcLocked OR DeviceShared) = 0"
  show "\<not> HasProperties b s p a \<Longrightarrow> page_ok (mb_page b) \<Longrightarrow> run_post (m_original_permission b = 0 \<and> m_attribute b AND IpcLocked = 0)
    (block_result (set_page s p a) b)
    (mb_Update s p a (m_address b = address) sm cm b)" by (rule mb_Update_page [OF en])
  assume "\<not> \<not> HasProperties b s p a"
  then show "set_page s p a (mb_page b) = mb_page b" using keep_attribute [OF _ en, of "m_attribute b"]
    by (simp add: HasProperties_def set_page_def mb_page_def AttributeIgnoreMask_def)
qed (auto simp: HasProperties_page mb_Split_def Let_def ensure_def split: if_splits)

interpretation upm: range_update "a AND (IpcLocked OR DeviceShared) = 0" "\<lambda>b. HasProperties b ts tp ta \<and> \<not> HasProperties b s p a"
  "mb_Update s p a False sm cm" "\<lambda>b. m_original_permission b = 0 \<and> m_attribute b AND IpcLocked = 0"
  "set_page_if (\<lambda>pg. page_has ts tp ta pg \<and> \<not> page_has s p a pg) (set_page s p a)" for ts tp ta s p a sm cm
proof unfold_locales
  fix b assume en: "a AND (IpcLocked OR DeviceShared) = 0"
  show "HasProperties b ts tp ta \<and> \<not> HasProperties b s p a \<Longrightarrow> page_ok (mb_page b) \<Longrightarrow>
    run_post (m_original_permission b = 0 \<and> m_attribute b AND IpcLocked = 0)
    (block_result (set_page_if (\<lambda>pg. page_has ts tp ta pg \<and> \<not> page_has s p a pg) (set_page s p a)) b)
    (mb_Update s p a False sm cm b)"
    by (rule run_post_mono [OF mb_Update_page [OF en]])
      (auto simp: HasProperties_page set_page_if_def block_result_def)
qed (auto simp: HasProperties_page set_page_if_def mb_Split_def Let_def ensure_def split: if_splits)

interpretation upa: range_update
  "attr_mask AND IpcLocked = 0 \<and> attr_mask AND DeviceShared = 0 \<and> attr AND NOT attr_mask = 0"
  "\<lambda>b. m_attribute b AND attr_mask \<noteq> attr" "mb_UpdateAttribute attr_mask attr" "\<lambda>b. True"
  "set_attribute attr_mask attr" for attr_mask attr
proof unfold_locales
  fix b assume en: "attr_mask AND IpcLocked = 0 \<and> attr_mask AND DeviceShared = 0 \<and> attr AND NOT attr_mask = 0"
  have sub: "bit attr n \<Longrightarrow> bit attr_mask n" for n
    using en bit_and_zero [of attr "NOT attr_mask" n] bit_imp_le_length [of attr n] by (auto simp: bit_simps)
  have keep: "((x AND NOT attr_mask) OR attr) AND k = x AND k" if "attr_mask AND k = 0" for x k
  proof (rule bit_word_eqI)
    fix n assume "n < LENGTH(8)"
    then show "bit (((x AND NOT attr_mask) OR attr) AND k) n = bit (x AND k) n"
      using sub [of n] bit_and_zero [OF that, of n] by (auto simp: bit_simps)
  qed
  show "m_attribute b AND attr_mask \<noteq> attr \<Longrightarrow> page_ok (mb_page b) \<Longrightarrow> run_post True
    (block_result (set_attribute attr_mask attr) b)
    (mb_UpdateAttribute attr_mask attr b)"
    using en keep by (simp add: mb_UpdateAttribute_def set_attribute_def mb_page_def page_ok_def block_result_def)
  assume "\<not> m_attribute b AND attr_mask \<noteq> attr"
  then have "(m_attribute b AND NOT attr_mask) OR attr = m_attribute b"
    by (auto intro!: bit_word_eqI simp: bit_simps)
  then show "set_attribute attr_mask attr (mb_page b) = mb_page b" by (simp add: set_attribute_def mb_page_def)
qed (auto simp: mb_page_def)


section \<open>The lock functions as instances\<close>

text \<open>
  A lock function changes the page properties of a block by \<open>effect\<close> whether the block is at the left or the right end of the range
  or not; \<open>pre\<close> excludes its assertions in all cases.
\<close>

locale lock_law =
  fixes lock :: lock_function
    and pre :: "KMemoryPermission \<Rightarrow> KMemoryBlock \<Rightarrow> bool"
    and effect :: "KMemoryPermission \<Rightarrow> page \<Rightarrow> page"
  assumes lock_block: "page_ok (mb_page b) \<Longrightarrow> run_post (pre perm b) (block_result (effect perm) b) (lock perm is_left is_right b)"
    and lock_split: "pre perm b \<Longrightarrow> mb_Split b c = Inr (x, y) \<Longrightarrow> pre perm x \<and> pre perm y"

sublocale lock_law \<subseteq> range_update True "\<lambda>b. True"
  "\<lambda>b. let cur_info = GetMemoryInfo b in lock perm (i_address cur_info = address) (info_GetEndAddress cur_info = end_address) b"
  "pre perm" "effect perm" for perm address end_address
  by unfold_locales (auto intro: lock_block dest: lock_split)

context lock_law
begin

text \<open>A lock that returns, and a lock whose assertions cannot fail.\<close>

lemma lock_returns:
  "mbm_UpdateLock address n lock perm m al = Inr x \<Longrightarrow> mbm_ok m \<Longrightarrow> range_ok address n m \<Longrightarrow> ua_full al \<Longrightarrow>
   update_result (effect perm) address n m al x"
  by (rule update_range_partial [of m address n al]) (auto simp: mbm_UpdateLock_def ensure_eq_Inr Let_def)

lemma lock_total:
  assumes "mbm_ok m" "range_ok address n m" "ua_full al" "0 < n" "\<And>b. b \<in> set (m_memory_block_tree m) \<Longrightarrow> meets address n b \<Longrightarrow> pre perm b"
  shows "\<exists>x. mbm_UpdateLock address n lock perm m al = Inr x \<and> update_result (effect perm) address n m al x"
proof -
  have "steps_back_ok (\<lambda>b. True) address n m" using assms(4) by (simp add: steps_back_ok_def)
  moreover have "mbm_UpdateLock address n lock perm m al = update_range (\<lambda>b. True)
      (\<lambda>b. let cur_info = GetMemoryInfo b
           in lock perm (i_address cur_info = address) (info_GetEndAddress cur_info = add64 address (mul64 n PageSize)) b) address n m al"
    using assms(2) by (simp add: mbm_UpdateLock_def range_ok_def IsAligned_PageSize Let_def)
  ultimately show ?thesis
    using run_post_total [OF update_range_ok [OF TrueI assms(1-3), of perm address "add64 address (mul64 n PageSize)"]] assms(5) by simp
qed

end

lemma page_device_simps [simp]:
  "mb_page (b\<lparr>m_device_disable_merge_left_count := c\<rparr>) = mb_page b"
  "mb_page (b\<lparr>m_device_disable_merge_right_count := c\<rparr>) = mb_page b"
  "mb_page (b\<lparr>m_ipc_disable_merge_count := c\<rparr>) = mb_page b"
  "mb_page (b\<lparr>m_disable_merge_attribute := d\<rparr>) = mb_page b"
  by (simp_all add: mb_page_def)

lemmas merge_state_defs = UpdateDeviceDisableMergeStateForShareLeft_def UpdateDeviceDisableMergeStateForShareRight_def
  UpdateDeviceDisableMergeStateForShare_def UpdateDeviceDisableMergeStateForUnshareLeft_def
  UpdateDeviceDisableMergeStateForUnshareRight_def UpdateDeviceDisableMergeStateForUnshare_def

text \<open>The functions that only keep blocks from being merged.\<close>

definition same_block_page :: "KMemoryBlock \<Rightarrow> KMemoryBlock \<Rightarrow> bool" where
  "same_block_page b b' \<longleftrightarrow> m_address b' = m_address b \<and> m_num_pages b' = m_num_pages b \<and> mb_page b' = mb_page b"

definition merge_counts_free :: "KMemoryBlock \<Rightarrow> bool" where
  "merge_counts_free b \<longleftrightarrow> m_device_disable_merge_left_count b \<noteq> - 1 \<and> m_device_disable_merge_right_count b \<noteq> - 1"

lemma word_inc_pos: "0 < w + (1 :: 'a::len word) \<longleftrightarrow> w \<noteq> - 1"
  by (metis eq_neg_iff_add_eq_0 word_gt_0)

lemma word_inc_zero: "w + (1 :: 'a::len word) = 0 \<longleftrightarrow> w = - 1"
  by (simp add: eq_neg_iff_add_eq_0)

lemma share_merge_state:
  "run_post (merge_counts_free b) (same_block_page b) (UpdateDeviceDisableMergeStateForShare perm is_left is_right b)"
  "run_post (merge_counts_free b) (same_block_page b) (UpdateDeviceDisableMergeStateForShareLeft perm is_left is_right b)"
  "run_post (merge_counts_free b) (same_block_page b) (UpdateDeviceDisableMergeStateForShareRight perm is_left is_right b)"
  by (auto simp: merge_state_defs Let_def ensure_def same_block_page_def merge_counts_free_def word_inc_pos)

lemma unshare_merge_state:
  "run_post False (same_block_page b) (UpdateDeviceDisableMergeStateForUnshare perm is_left is_right b)"
  "run_post False (same_block_page b) (UpdateDeviceDisableMergeStateForUnshareRight perm is_left is_right b)"
  "run_post True (same_block_page b) (UpdateDeviceDisableMergeStateForUnshareLeft perm is_left is_right b)"
  by (auto simp: merge_state_defs Let_def ensure_def same_block_page_def)


text \<open>What a lock function does after the counts have changed.\<close>

lemma lock_after: "run_post t (same_block_page b1) m \<Longrightarrow> block_result f b b1 \<Longrightarrow> (t' \<Longrightarrow> t) \<Longrightarrow> run_post t' (block_result f b) m"
  by (erule run_post_mono) (auto simp: same_block_page_def block_result_def)

lemma attribute_or_and: "(x OR DeviceShared) AND IpcLocked = x AND IpcLocked" "(x OR DeviceShared) AND DeviceShared = DeviceShared"
  "(x OR IpcLocked) AND DeviceShared = x AND DeviceShared" "(x OR IpcLocked) AND IpcLocked = IpcLocked"
  by (simp_all add: bit.conj_disj_distrib2 attribute_bits)

lemma attribute_not_and: "(x AND NOT DeviceShared) AND IpcLocked = x AND IpcLocked" "(x AND NOT DeviceShared) AND DeviceShared = 0"
  "(x AND NOT IpcLocked) AND DeviceShared = x AND DeviceShared" "(x AND NOT IpcLocked) AND IpcLocked = 0"
proof -
  have "NOT DeviceShared AND IpcLocked = IpcLocked" "NOT IpcLocked AND DeviceShared = DeviceShared"
    by (simp_all add: IpcLocked_def DeviceShared_def)
  then show "(x AND NOT DeviceShared) AND IpcLocked = x AND IpcLocked" "(x AND NOT DeviceShared) AND DeviceShared = 0"
    "(x AND NOT IpcLocked) AND DeviceShared = x AND DeviceShared" "(x AND NOT IpcLocked) AND IpcLocked = 0"
    by (simp_all add: and.assoc)
qed

lemmas attribute_simps = attribute_bits attribute_or_and attribute_not_and

definition share_free :: "KMemoryBlock \<Rightarrow> bool" where
  "share_free b \<longleftrightarrow> (m_attribute b AND DeviceShared = DeviceShared \<or> m_device_use_count b = 0) \<and> m_device_use_count b \<noteq> - 1 \<and>
     merge_counts_free b"

lemma ShareToDevice_block:
  assumes "page_ok (mb_page b)"
  shows "run_post (share_free b) (block_result share_page b) (ShareToDevice perm is_left is_right b)"
proof (cases "(m_attribute b AND DeviceShared = DeviceShared \<or> m_device_use_count b = 0) \<and> m_device_use_count b \<noteq> - 1")
  case False
  then show ?thesis by (auto simp: ShareToDevice_def share_free_def Let_def ensure_def word_inc_pos)
next
  case True
  define b1 where "b1 = b\<lparr>m_device_use_count := m_device_use_count b + 1, m_attribute := m_attribute b OR DeviceShared\<rparr>"
  have "block_result share_page b b1"
    using assms True word_inc_pos [of "m_device_use_count b"]
    by (auto simp: block_result_def page_ok_def mb_page_def share_page_def b1_def attribute_simps)
  moreover have "share_free b \<Longrightarrow> merge_counts_free b1" by (simp add: share_free_def merge_counts_free_def b1_def)
  ultimately have "run_post (share_free b) (block_result share_page b) (UpdateDeviceDisableMergeStateForShare perm is_left is_right b1)"
    by (rule lock_after [OF share_merge_state(1)])
  with True show ?thesis by (simp add: ShareToDevice_def Let_def word_inc_pos b1_def)
qed

text \<open>Both functions that undo it, with the rest of the work as \<open>k\<close>.\<close>

lemma unshare_block:
  assumes ok: "page_ok (mb_page b)" and k: "\<And>b1. run_post False (same_block_page b1) (k b1)"
  shows "run_post False (block_result unshare_page b)
    (ensure (m_attribute b AND DeviceShared = DeviceShared)
      (let old_count = m_device_use_count b; b = b\<lparr>m_device_use_count := old_count - 1\<rparr>
       in ensure (0 < old_count) (k (if old_count = 1 then b\<lparr>m_attribute := m_attribute b AND NOT DeviceShared\<rparr> else b))))"
proof -
  define b1 where "b1 = (if m_device_use_count b = 1
    then b\<lparr>m_device_use_count := 0, m_attribute := m_attribute b AND NOT DeviceShared\<rparr>
    else b\<lparr>m_device_use_count := m_device_use_count b - 1\<rparr>)"
  show ?thesis
  proof (cases "m_attribute b AND DeviceShared = DeviceShared \<and> 0 < m_device_use_count b")
    case True
    then have "block_result unshare_page b b1"
      using ok by (auto simp: block_result_def page_ok_def mb_page_def unshare_page_def b1_def attribute_simps)
    from lock_after [OF k this] True show ?thesis by (auto simp: Let_def b1_def cong: if_cong)
  qed (auto simp: ensure_def Let_def)
qed

definition ipc_free :: "KMemoryPermission \<Rightarrow> KMemoryBlock \<Rightarrow> bool" where
  "ipc_free perm b \<longleftrightarrow> (m_attribute b AND IpcLocked = IpcLocked \<or> m_ipc_lock_count b = 0) \<and> m_ipc_lock_count b \<noteq> - 1 \<and>
     m_ipc_disable_merge_count b \<noteq> - 1 \<and>
     (m_ipc_lock_count b = 0 \<longrightarrow> m_original_permission b = 0 \<and> m_permission b OR perm OR NotMapped = m_permission b OR NotMapped \<and>
        (m_permission b AND UserExecute \<noteq> UserExecute \<or> perm = UserRead))"

text \<open>The last part of \<^verbatim>\<open>LockForIpc\<close> and of \<^verbatim>\<open>UnlockForIpc\<close> at the left end of a range.\<close>

lemma ipc_left_state:
  "run_post (m_ipc_disable_merge_count b \<noteq> - 1) (same_block_page b)
    (if is_left then let b = b\<lparr>m_disable_merge_attribute := d b, m_ipc_disable_merge_count := m_ipc_disable_merge_count b + 1\<rparr>
       in ensure (0 < m_ipc_disable_merge_count b) (Inr b) else Inr b)"
  "run_post False (same_block_page b)
    (if is_left then let old = m_ipc_disable_merge_count b; b = b\<lparr>m_ipc_disable_merge_count := old - 1\<rparr>
       in ensure (0 < old) (Inr (if old = 1 then b\<lparr>m_disable_merge_attribute := e b\<rparr> else b)) else Inr b)"
  by (auto simp: ensure_def Let_def same_block_page_def word_inc_pos)

lemma LockForIpc_block:
  assumes "page_ok (mb_page b)"
  shows "run_post (ipc_free perm b) (block_result (lock_page perm) b) (LockForIpc perm is_left is_right b)"
proof -
  define b1 where "b1 = (if m_ipc_lock_count b = 0
    then b\<lparr>m_ipc_lock_count := 1, m_original_permission := m_permission b,
           m_permission := (perm AND IpcLockChangeMask) OR (m_permission b AND NOT IpcLockChangeMask), m_attribute := m_attribute b OR IpcLocked\<rparr>
    else b\<lparr>m_ipc_lock_count := m_ipc_lock_count b + 1, m_attribute := m_attribute b OR IpcLocked\<rparr>)"
  define k where "k = (\<lambda>b :: KMemoryBlock. if is_left then let b = b\<lparr>m_disable_merge_attribute := m_disable_merge_attribute b OR IpcLeft,
      m_ipc_disable_merge_count := m_ipc_disable_merge_count b + 1\<rparr> in ensure (0 < m_ipc_disable_merge_count b) (Inr b) else Inr b)"
  define ok where "ok \<longleftrightarrow> (m_attribute b AND IpcLocked = IpcLocked \<or> m_ipc_lock_count b = 0) \<and> m_ipc_lock_count b \<noteq> - 1 \<and>
     (m_ipc_lock_count b = 0 \<longrightarrow> m_original_permission b = 0 \<and> m_permission b OR perm OR NotMapped = m_permission b OR NotMapped \<and>
        (m_permission b AND UserExecute \<noteq> UserExecute \<or> perm = UserRead))"
  have eq: "LockForIpc perm is_left is_right b = (if ok then k b1 else Inl AssertFailed)"
    by (cases "m_ipc_lock_count b = 0")
      (simp_all add: LockForIpc_def Let_def ensure_def ok_def b1_def k_def word_inc_pos cong: if_cong)
  show ?thesis
  proof (cases ok)
    case True
    have cnt: "m_ipc_lock_count b + 1 \<noteq> 0" using True by (simp add: ok_def word_inc_zero)
    have "block_result (lock_page perm) b b1"
      using assms cnt by (simp add: block_result_def lock_page_def mb_page_def b1_def page_ok_def attribute_simps)
    moreover have "run_post (m_ipc_disable_merge_count b1 \<noteq> - 1) (same_block_page b1) (k b1)" unfolding k_def by (rule ipc_left_state)
    moreover have "ipc_free perm b \<Longrightarrow> m_ipc_disable_merge_count b1 \<noteq> - 1" by (simp add: ipc_free_def b1_def)
    ultimately show ?thesis using lock_after True by (simp add: eq)
  qed (auto simp: eq ok_def ipc_free_def)
qed

lemma UnlockForIpc_block:
  assumes "page_ok (mb_page b)"
  shows "run_post False (block_result unlock_page b) (UnlockForIpc perm is_left is_right b)"
proof -
  define b1 where "b1 = (if m_ipc_lock_count b = 1
    then b\<lparr>m_ipc_lock_count := 0, m_permission := m_original_permission b, m_original_permission := 0,
           m_attribute := m_attribute b AND NOT IpcLocked\<rparr>
    else b\<lparr>m_ipc_lock_count := m_ipc_lock_count b - 1\<rparr>)"
  define k where "k = (\<lambda>b :: KMemoryBlock. if is_left then let old = m_ipc_disable_merge_count b; b = b\<lparr>m_ipc_disable_merge_count := old - 1\<rparr>
       in ensure (0 < old) (Inr (if old = 1 then b\<lparr>m_disable_merge_attribute := m_disable_merge_attribute b AND NOT IpcLeft\<rparr> else b)) else Inr b)"
  define ok where "ok \<longleftrightarrow> m_attribute b AND IpcLocked = IpcLocked \<and> 0 < m_ipc_lock_count b \<and>
     (m_ipc_lock_count b = 1 \<longrightarrow> m_original_permission b \<noteq> 0)"
  have eq: "UnlockForIpc perm is_left is_right b = (if ok then k b1 else Inl AssertFailed)"
    by (cases "m_ipc_lock_count b = 1")
      (simp_all add: UnlockForIpc_def Let_def ensure_def ok_def b1_def k_def cong: if_cong)
  show ?thesis
  proof (cases ok)
    case True
    have "block_result unlock_page b b1"
      using assms by (simp add: block_result_def unlock_page_def mb_page_def b1_def page_ok_def attribute_simps)
    moreover have "run_post False (same_block_page b1) (k b1)" unfolding k_def by (rule ipc_left_state)
    ultimately show ?thesis using lock_after True by (simp add: eq)
  qed (simp add: eq)
qed

text \<open>The two halves of a block inherit the conditions.\<close>

lemma Split_fields:
  assumes "mb_Split b c = Inr (x, y)"
  shows "mb_page x = mb_page b" "mb_page y = mb_page b" "m_device_disable_merge_left_count x = m_device_disable_merge_left_count b"
    "m_device_disable_merge_left_count y = 0" "m_device_disable_merge_right_count x = 0"
    "m_device_disable_merge_right_count y = m_device_disable_merge_right_count b"
    "m_ipc_disable_merge_count x = m_ipc_disable_merge_count b" "m_ipc_disable_merge_count y = 0"
  using assms by (auto simp: mb_Split_def ensure_def Let_def mb_page_def split: if_splits)

lemma page_fields: "mb_page x = mb_page b \<Longrightarrow> m_permission x = m_permission b \<and> m_original_permission x = m_original_permission b \<and>
    m_attribute x = m_attribute b \<and> m_ipc_lock_count x = m_ipc_lock_count b \<and> m_device_use_count x = m_device_use_count b"
  by (simp add: mb_page_def)

lemma split_merge_counts_free: "merge_counts_free b \<Longrightarrow> mb_Split b c = Inr (x, y) \<Longrightarrow> merge_counts_free x \<and> merge_counts_free y"
  by (simp add: merge_counts_free_def Split_fields)

lemma split_share_free:
  assumes f: "share_free b" and sp: "mb_Split b c = Inr (x, y)"
  shows "share_free x \<and> share_free y"
proof -
  have "m_attribute x = m_attribute b" "m_device_use_count x = m_device_use_count b" "m_attribute y = m_attribute b"
      "m_device_use_count y = m_device_use_count b"
    using page_fields [OF Split_fields(1) [OF sp]] page_fields [OF Split_fields(2) [OF sp]] by blast+
  moreover have "merge_counts_free x" "merge_counts_free y" using split_merge_counts_free [OF _ sp] f by (auto simp: share_free_def)
  ultimately show ?thesis using f by (simp add: share_free_def)
qed

lemma split_ipc_free:
  assumes f: "ipc_free perm b" and sp: "mb_Split b c = Inr (x, y)"
  shows "ipc_free perm x \<and> ipc_free perm y"
proof -
  have px: "m_permission x = m_permission b" "m_original_permission x = m_original_permission b" "m_attribute x = m_attribute b"
      "m_ipc_lock_count x = m_ipc_lock_count b" and py: "m_permission y = m_permission b" "m_original_permission y = m_original_permission b"
      "m_attribute y = m_attribute b" "m_ipc_lock_count y = m_ipc_lock_count b"
    using page_fields [OF Split_fields(1) [OF sp]] page_fields [OF Split_fields(2) [OF sp]] by blast+
  have "(0 :: u16) \<noteq> - 1" by simp
  with f show ?thesis unfolding ipc_free_def px py Split_fields(7,8) [OF sp] by blast
qed

lemma same_page_result: "page_ok (mb_page b) \<Longrightarrow> run_post t (same_block_page b) m \<Longrightarrow> run_post t (block_result (\<lambda>pg. pg) b) m"
  by (erule run_post_mono) (auto simp: same_block_page_def block_result_def)

interpretation share: lock_law ShareToDevice "\<lambda>perm. share_free" "\<lambda>perm. share_page"
  by unfold_locales (simp add: ShareToDevice_block, rule split_share_free)

interpretation unshare: lock_law UnshareToDevice "\<lambda>perm b. False" "\<lambda>perm. unshare_page"
  by unfold_locales (unfold UnshareToDevice_def, auto intro: unshare_block unshare_merge_state)

interpretation unshare_right: lock_law UnshareToDeviceRight "\<lambda>perm b. False" "\<lambda>perm. unshare_page"
  by unfold_locales (unfold UnshareToDeviceRight_def, auto intro: unshare_block unshare_merge_state)

interpretation ipc: lock_law LockForIpc ipc_free lock_page
  by unfold_locales (simp add: LockForIpc_block, rule split_ipc_free)

interpretation ipc_unlock: lock_law UnlockForIpc "\<lambda>perm b. False" "\<lambda>perm. unlock_page"
  by unfold_locales (simp_all add: UnlockForIpc_block)

interpretation merge_share: lock_law UpdateDeviceDisableMergeStateForShare "\<lambda>perm. merge_counts_free" "\<lambda>perm pg. pg"
  by unfold_locales (simp add: same_page_result share_merge_state, rule split_merge_counts_free)

interpretation merge_share_left: lock_law UpdateDeviceDisableMergeStateForShareLeft "\<lambda>perm. merge_counts_free" "\<lambda>perm pg. pg"
  by unfold_locales (simp add: same_page_result share_merge_state, rule split_merge_counts_free)

interpretation merge_share_right: lock_law UpdateDeviceDisableMergeStateForShareRight "\<lambda>perm. merge_counts_free" "\<lambda>perm pg. pg"
  by unfold_locales (simp add: same_page_result share_merge_state, rule split_merge_counts_free)

interpretation merge_unshare: lock_law UpdateDeviceDisableMergeStateForUnshare "\<lambda>perm b. False" "\<lambda>perm pg. pg"
  by unfold_locales (simp_all add: same_page_result unshare_merge_state)

interpretation merge_unshare_left: lock_law UpdateDeviceDisableMergeStateForUnshareLeft "\<lambda>perm b. True" "\<lambda>perm pg. pg"
  by unfold_locales (simp_all add: same_page_result unshare_merge_state)

interpretation merge_unshare_right: lock_law UpdateDeviceDisableMergeStateForUnshareRight "\<lambda>perm b. False" "\<lambda>perm pg. pg"
  by unfold_locales (simp_all add: same_page_result unshare_merge_state)

section \<open>The address space as a machine\<close>

text \<open>The lock functions the page table passes to \<^verbatim>\<open>UpdateLock\<close>, and the operations.\<close>

datatype lock_name = LkShareToDevice | LkUnshareToDevice | LkUnshareToDeviceRight | LkLockForIpc | LkUnlockForIpc
  | LkForShare | LkForShareLeft | LkForShareRight | LkForUnshare | LkForUnshareLeft | LkForUnshareRight

fun lock_fun :: "lock_name \<Rightarrow> lock_function" where
  "lock_fun LkShareToDevice = ShareToDevice"
| "lock_fun LkUnshareToDevice = UnshareToDevice"
| "lock_fun LkUnshareToDeviceRight = UnshareToDeviceRight"
| "lock_fun LkLockForIpc = LockForIpc"
| "lock_fun LkUnlockForIpc = UnlockForIpc"
| "lock_fun LkForShare = UpdateDeviceDisableMergeStateForShare"
| "lock_fun LkForShareLeft = UpdateDeviceDisableMergeStateForShareLeft"
| "lock_fun LkForShareRight = UpdateDeviceDisableMergeStateForShareRight"
| "lock_fun LkForUnshare = UpdateDeviceDisableMergeStateForUnshare"
| "lock_fun LkForUnshareLeft = UpdateDeviceDisableMergeStateForUnshareLeft"
| "lock_fun LkForUnshareRight = UpdateDeviceDisableMergeStateForUnshareRight"

datatype mbm_op =
    OpUpdate KProcessAddress size_t KMemoryState KMemoryPermission KMemoryAttribute DisableMerge DisableMerge
  | OpUpdateIfMatch KProcessAddress size_t KMemoryState KMemoryPermission KMemoryAttribute KMemoryState KMemoryPermission KMemoryAttribute DisableMerge DisableMerge
  | OpUpdateLock KProcessAddress size_t lock_name KMemoryPermission
  | OpUpdateAttribute KProcessAddress size_t KMemoryAttribute KMemoryAttribute

fun mbm_run :: "mbm_op \<Rightarrow> KMemoryBlockManager \<Rightarrow> UpdateAllocator \<Rightarrow> (KMemoryBlockManager \<times> UpdateAllocator) run" where
  "mbm_run (OpUpdate address n s p a sd cd) = mbm_Update address n s p a sd cd"
| "mbm_run (OpUpdateIfMatch address n ts tp ta s p a sd cd) = mbm_UpdateIfMatch address n ts tp ta s p a sd cd"
| "mbm_run (OpUpdateLock address n f p) = mbm_UpdateLock address n (lock_fun f) p"
| "mbm_run (OpUpdateAttribute address n attr_mask attr) = mbm_UpdateAttribute address n attr_mask attr"

text \<open>One operation with the allocator its caller constructs on the stack and deletes afterwards; the state is the manager and the
  number of blocks in the slab.\<close>

definition mbm_step :: "mbm_op \<Rightarrow> KMemoryBlockManager \<times> nat \<Rightarrow> (KMemoryBlockManager \<times> nat) run" where
  "mbm_step op = (\<lambda>(m, slab).
     bind_run (new_UpdateAllocator slab MaxBlocks) (\<lambda>(result, al).
       if result = R_SUCCEED then bind_run (mbm_run op m al) (\<lambda>(m, al). Inr (m, delete_UpdateAllocator al))
       else Inr (m, delete_UpdateAllocator al)))"

fun op_range :: "mbm_op \<Rightarrow> KProcessAddress \<times> size_t" where
  "op_range (OpUpdate address n _ _ _ _ _) = (address, n)"
| "op_range (OpUpdateIfMatch address n _ _ _ _ _ _ _ _) = (address, n)"
| "op_range (OpUpdateLock address n _ _) = (address, n)"
| "op_range (OpUpdateAttribute address n _ _) = (address, n)"

text \<open>Ranges within the space, and attribute changes that the mask covers and that leave the lock attributes alone.\<close>

definition op_allowed :: "KProcessAddress \<Rightarrow> KProcessAddress \<Rightarrow> mbm_op \<Rightarrow> bool" where
  "op_allowed st nd op \<longleftrightarrow>
     (case op_range op of (address, n) \<Rightarrow> 0 \<le> n \<and> st \<le> address \<and> address < nd \<and> address + n * PageSize \<le> nd) \<and>
     (case op of OpUpdateAttribute _ _ attr_mask attr \<Rightarrow>
        attr_mask AND IpcLocked = 0 \<and> attr_mask AND DeviceShared = 0 \<and> attr AND NOT attr_mask = 0
      | _ \<Rightarrow> True)"

definition space_ok :: "KProcessAddress \<Rightarrow> KProcessAddress \<Rightarrow> nat \<Rightarrow> KMemoryBlockManager \<times> nat \<Rightarrow> bool" where
  "space_ok st nd N = (\<lambda>(m, slab). mbm_ok m \<and> m_start_address m = st \<and> m_end_address m = nd \<and>
     length (m_memory_block_tree m) + slab = N)"

text \<open>What each operation does to a page of its range.\<close>

fun lock_effect :: "lock_name \<Rightarrow> KMemoryPermission \<Rightarrow> page \<Rightarrow> page" where
  "lock_effect LkShareToDevice p = share_page"
| "lock_effect LkUnshareToDevice p = unshare_page"
| "lock_effect LkUnshareToDeviceRight p = unshare_page"
| "lock_effect LkLockForIpc p = lock_page p"
| "lock_effect LkUnlockForIpc p = unlock_page"
| "lock_effect _ p = (\<lambda>pg. pg)"

fun op_effect :: "mbm_op \<Rightarrow> page \<Rightarrow> page" where
  "op_effect (OpUpdate address n s p a _ _) = set_page s p a"
| "op_effect (OpUpdateIfMatch address n ts tp ta s p a _ _) =
     set_page_if (\<lambda>pg. page_has ts tp ta pg \<and> \<not> page_has s p a pg) (set_page s p a)"
| "op_effect (OpUpdateLock address n f p) = lock_effect f p"
| "op_effect (OpUpdateAttribute address n attr_mask attr) = set_attribute attr_mask attr"

lemma UpdateLock_result:
  assumes "mbm_ok m" "range_ok address n m" "ua_full al" "mbm_UpdateLock address n (lock_fun f) p m al = Inr x"
  shows "update_result (lock_effect f p) address n m al x"
  using assms
  by (cases f) (simp_all add: share.lock_returns unshare.lock_returns unshare_right.lock_returns ipc.lock_returns
      ipc_unlock.lock_returns merge_share.lock_returns merge_share_left.lock_returns merge_share_right.lock_returns
      merge_unshare.lock_returns merge_unshare_left.lock_returns merge_unshare_right.lock_returns)

lemma mbm_run_result:
  assumes "mbm_ok m" "op_allowed (m_start_address m) (m_end_address m) op" "ua_full al" "mbm_run op m al = Inr x" "op_range op = (address, n)"
  shows "update_result (op_effect op) address n m al x"
proof -
  have al: "IsAligned address PageSize" using assms(4,5)
    by (cases op) (auto simp: mbm_Update_def mbm_UpdateIfMatch_def mbm_UpdateLock_def mbm_UpdateAttribute_def ensure_eq_Inr Let_def)
  with assms(2,5) have r: "range_ok address n m" by (auto simp: op_allowed_def range_ok_def IsAligned_PageSize)
  show ?thesis
  proof (cases op)
    case (OpUpdate address' n' s p a sd cd)
    with assms(4,5) show ?thesis 
      by (auto intro: upd.update_range_partial [OF _ assms(1) r assms(3)] simp: mbm_Update_def ensure_eq_Inr)
  next
    case (OpUpdateIfMatch address' n' ts tp ta s p a sd cd)
    with assms(4,5) show ?thesis 
      by (auto intro: upm.update_range_partial [OF _ assms(1) r assms(3)] simp: mbm_UpdateIfMatch_def ensure_eq_Inr)
  next
    case (OpUpdateLock address' n' f p)
    with assms(4,5) show ?thesis using UpdateLock_result [OF assms(1) r assms(3)] by auto
  next
    case (OpUpdateAttribute address' n' attr_mask attr)
    with assms(2,4,5) show ?thesis 
      by (auto intro: upa.update_range_partial [OF _ assms(1) r assms(3)] simp: mbm_UpdateAttribute_def ensure_eq_Inr op_allowed_def)
  qed
qed


lemma step_space_ok:
  assumes ok: "space_ok st nd N (m, slab)" and op: "op_allowed st nd op" and st: "mbm_step op (m, slab) = Inr s'"
  shows "space_ok st nd N s'"
proof (cases "2 \<le> slab")
  case True
  obtain address n where rng: "op_range op = (address, n)" by fastforce
  obtain al where al: "new_UpdateAllocator slab MaxBlocks = Inr (R_SUCCEED, al)" "ua_full al" "ua_blocks al = slab"
    using new_UpdateAllocator_ok [of 2 slab] True by (auto simp: ua_full_def MaxBlocks_def)
  with st obtain m' al' where run: "mbm_run op m al = Inr (m', al')" "s' = (m', delete_UpdateAllocator al')"
    by (auto simp: mbm_step_def bind_run_eq_Inr)
  have "update_result (op_effect op) address n m al (m', al')"
    by (rule mbm_run_result) (use ok op al run rng in \<open>auto simp: space_ok_def\<close>)
  then show ?thesis using ok run(2) al(3) delete_UpdateAllocator_ok by (auto simp: update_result_def space_ok_def)
next
  case False
  then obtain al where "new_UpdateAllocator slab MaxBlocks = Inr (ResultOutOfResource, al)" "delete_UpdateAllocator al = slab"
    using new_UpdateAllocator_fails [of 2 slab] by (auto simp: MaxBlocks_def)
  with st ok show ?thesis by (auto simp: mbm_step_def)
qed

interpretation mbm: inv_machine mbm_step "space_ok st nd N" "op_allowed st nd" for st nd N
  by unfold_locales (metis step_space_ok surj_pair)

text \<open>A space begins as one free block.\<close>

lemma Initialize_ok:
  assumes "PageSize dvd st" "PageSize dvd nd" "0 \<le> st" "st < nd" "nd < 2 ^ 64" "0 < slab"
  shows "\<exists>m. mbm_Initialize st nd fresh slab new_KMemoryBlockManager = Inr (R_SUCCEED, slab - 1, m) \<and> space_ok st nd slab (m, slab - 1) \<and>
    view (m_memory_block_tree m) = (\<lambda>x. if st \<le> x \<and> x < nd then Some (mb_page (new_KMemoryBlock st 1 State_Free 0 0)) else None)"
proof -
  define b where "b = mb_Initialize st (sub64 nd st div PageSize) State_Free 0 0 fresh"
  have "(nd - st) div PageSize * PageSize = nd - st" using assms by (intro dvd_div_mult_self dvd_diff)
  then have b: "m_address b = st" "mb_end b = nd" "m_num_pages b = (nd - st) div PageSize"
    using assms by (auto simp: b_def mb_Initialize_def mb_size_def)
  have "0 < m_num_pages b" using b(3) assms \<open>(nd - st) div PageSize * PageSize = nd - st\<close>
    by (metis PageSize_pos(1) diff_gt_0_iff_gt mult_less_cancel_right_pos mult_zero_left zero_less_mult_pos2)
  with b assms have f: "mb_fits b" by (simp add: mb_fits_def)
  have pg: "mb_page b = mb_page (new_KMemoryBlock st 1 State_Free 0 0)" by (simp add: b_def mb_page_def mb_Initialize_def new_KMemoryBlock_def)
  then have "page_ok (mb_page b)" by (simp add: page_ok_def mb_page_def new_KMemoryBlock_def)
  moreover have "mbm_Initialize st nd fresh slab new_KMemoryBlockManager =
      Inr (R_SUCCEED, slab - 1, \<lparr>m_memory_block_tree = [b], m_start_address = st, m_end_address = nd\<rparr>)"
    using assms by (simp add: mbm_Initialize_def IsAligned_PageSize new_KMemoryBlockManager_def b_def)
  ultimately show ?thesis using assms b(1,2) f pg by (auto simp: space_ok_def mbm_ok_def pages_ok_def)
qed

text \<open>Finalizing gives every block back and reports the whole space.\<close>

lemma finalize_blocks_eq:
  "finalize_blocks t slab calls = (slab + length t, calls @ map (\<lambda>b. (m_address b, mb_GetSize b)) t)"
  by (induction t slab calls rule: finalize_blocks.induct) auto

lemma tiles_sum: "tiles a t e \<Longrightarrow> sum_list (map mb_GetSize t) = e - a"
  by (induction t arbitrary: a) (auto simp: fits_simps)

text \<open>The self-check of the manager accepts every such state.\<close>

lemma lock_counts_wrong_page: "lock_counts_wrong (GetMemoryInfo b) \<longleftrightarrow> \<not> page_ok (mb_page b)"
  by (auto simp: lock_counts_wrong_def page_ok_def GetMemoryInfo_def mb_page_def)

lemma check_from_ok: "tiles a (b # t) e \<Longrightarrow> pages_ok (b # t) \<Longrightarrow> unmerged (\<lambda>x. True) (b # t) \<Longrightarrow> check_from b t"
proof (induction t arbitrary: a b)
  case (Cons c t)
  have "check_from c t" using Cons.prems by (intro Cons.IH) (auto simp: pages_ok_def)
  with Cons.prems show ?case by (simp add: fits_simps pages_ok_def lock_counts_wrong_page)
qed (simp add: pages_ok_def lock_counts_wrong_page)

lemma CheckState_ok: "mbm_ok m \<Longrightarrow> CheckState m = Inr True"
  by (cases "m_memory_block_tree m") (auto simp: mbm_ok_def CheckState_def intro: check_from_ok)

end
