(* ===== verification/MemoryBlockFreeArea.thy ===== *)
theory MemoryBlockFreeArea
  imports MemoryBlockUpdates
begin

text \<open>
  \<^verbatim>\<open>KMemoryBlockManager::FindFreeArea\<close> against its specification: the lowest address at which the request fits.
\<close>

section \<open>Free areas\<close>

text \<open>
  An address \<open>x\<close> where \<open>num_pages\<close> pages fit into a free block and into the region, with guard pages on both sides and at the offset
  from a multiple of the alignment.
\<close>

definition area_slot :: "KProcessAddress \<Rightarrow> KProcessAddress \<Rightarrow> size_t \<Rightarrow> size_t \<Rightarrow> size_t \<Rightarrow> size_t \<Rightarrow> KMemoryBlock \<Rightarrow> KProcessAddress \<Rightarrow> bool" where
  "area_slot region_start region_end num_pages alignment offset guard_pages b x \<longleftrightarrow>
     m_memory_state b = State_Free \<and> region_start + guard_pages * PageSize \<le> x \<and> m_address b + guard_pages * PageSize \<le> x \<and>
     alignment dvd x - offset \<and> x + (num_pages + guard_pages) * PageSize \<le> region_end \<and>
     x + (num_pages + guard_pages) * PageSize \<le> mb_end b"

text \<open>Sizes for which no sum in the search wraps around.\<close>

definition search_sizes :: "size_t \<Rightarrow> size_t \<Rightarrow> size_t \<Rightarrow> size_t \<Rightarrow> KProcessAddress \<Rightarrow> bool" where
  "search_sizes num_pages alignment offset guard_pages e \<longleftrightarrow> 0 < num_pages \<and> 0 \<le> guard_pages \<and> 0 \<le> offset \<and> offset < alignment \<and>
     e + guard_pages * PageSize + 2 * alignment + (num_pages + guard_pages) * PageSize < 2 ^ 64"

text \<open>The smallest address from \<open>a\<close> on at the offset.\<close>

definition align_from :: "int \<Rightarrow> int \<Rightarrow> int \<Rightarrow> int" where
  "align_from a alignment offset =
     (let o_area = AlignDown a alignment + offset in if a \<le> o_area then o_area else o_area + alignment)"

lemma align_from_least:
  assumes "0 < al" "0 \<le> off" "off < al"
  shows "a \<le> align_from a al off" "align_from a al off < a + al" "al dvd align_from a al off - off"
    "\<And>x. a \<le> x \<Longrightarrow> al dvd x - off \<Longrightarrow> align_from a al off \<le> x"
proof -
  define j where "j = a div al"
  have d: "AlignDown a al = al * j" by (simp add: AlignDown_def j_def minus_mod_eq_mult_div)
  have m: "al * j \<le> a" "a < al * j + al" using assms pos_mod_sign [of al a] pos_mod_bound [of al a]
    by (simp_all add: j_def minus_mod_eq_mult_div [symmetric])
  have c: "align_from a al off = (if a \<le> al * j + off then al * j + off else al * j + off + al)" by (simp add: align_from_def d)
  show "a \<le> align_from a al off" "align_from a al off < a + al" "al dvd align_from a al off - off"
    using m assms unfolding c by auto
  fix x assume x: "a \<le> x" "al dvd x - off"
  then obtain k where k: "x = off + al * k" by (metis add.commute diff_add_cancel dvd_def)
  show "align_from a al off \<le> x"
  proof (rule ccontr)
    assume "\<not> align_from a al off \<le> x"
    then have lt: "off + al * k < (if a \<le> al * j + off then al * j + off else al * j + off + al)" by (simp add: c k)
    show False
    proof (cases "a \<le> al * j + off")
      case True
      with lt assms(1) have "k \<le> j - 1" by simp
      then have "al * k \<le> al * (j - 1)" using assms(1) by (intro mult_left_mono) auto
      with x(1) k m assms show False by (simp add: right_diff_distrib)
    next
      case False
      with lt have "al * k < al * (j + 1)" by (simp add: distrib_left)
      then have "k \<le> j" using assms(1) by (simp add: mult_less_cancel_left)
      then have "al * k \<le> al * j" using assms(1) by (intro mult_left_mono) auto
      with x(1) k False show False by simp
    qed
  qed
qed

lemma free_area_at_eq:
  assumes sz: "search_sizes np al off g e" and rs: "0 \<le> rs" "rs < e" and b: "0 \<le> i_address info" "i_address info < e"
  shows "free_area_at rs np al off g info =
    (let x = align_from (max rs (i_address info) + g * PageSize) al off in (x, x + (np + g) * PageSize - 1))"
proof -
  define G where "G = g * PageSize"
  define P where "P = np * PageSize"
  define a where "a = max rs (i_address info) + G"
  define x where "x = align_from a al off"
  have al: "0 < al" "0 \<le> off" "off < al" using sz by (auto simp: search_sizes_def)
  have nn: "0 \<le> P" "0 \<le> G" using sz by (auto simp: search_sizes_def PageSize_def P_def G_def)
  have ng: "(np + g) * PageSize = P + G" by (simp add: algebra_simps P_def G_def)
  have lim: "e + G + 2 * al + P + G < 2 ^ 64" using sz by (simp add: search_sizes_def ng G_def [symmetric])
  have a: "0 \<le> a" "a < e + G" using rs b nn by (auto simp: a_def)
  note x = align_from_least [OF al, of a, folded x_def]
  have d: "0 \<le> AlignDown a al" "AlignDown a al \<le> a" using a al by (auto simp: AlignDown_def zmod_le_nonneg_dividend)
  have s1: "(if i_address info \<le> rs then rs else i_address info) = max rs (i_address info)" by simp
  have s2: "mul64 g PageSize = G" "mul64 np PageSize = P"
    using nn lim rs al unfolding P_def G_def by (intro mul64_exact; linarith)+
  have s3: "add64 (max rs (i_address info)) G = a"
    using a lim al nn add64_exact [of "max rs (i_address info)" G, folded a_def] by linarith
  have s4: "add64 (AlignDown a al) off = AlignDown a al + off" using d a lim al nn by (intro add64_exact) auto
  have s5: "(if a \<le> AlignDown a al + off then AlignDown a al + off else add64 (AlignDown a al + off) al) = x"
    using d a lim al nn by (simp add: x_def align_from_def Let_def)
  have s6: "sub64 (add64 (add64 x P) G) 1 = x + (P + G) - 1"
    using x(1,2) a nn lim al search_sizes_def sz by (simp add: P_def PageSize_def)
  show ?thesis unfolding free_area_at_def Let_def s1 s2 s3 s4 s5 s6 ng by (simp add: x_def a_def G_def)
qed

lemma area_slot_least:
  assumes sz: "search_sizes np al off g e" and x: "x = align_from (max rs (m_address b) + g * PageSize) al off"
  shows "(\<exists>y. area_slot rs re np al off g b y) \<longleftrightarrow> area_slot rs re np al off g b x"
    "area_slot rs re np al off g b y \<Longrightarrow> x \<le> y"
proof -
  have al: "0 < al" "0 \<le> off" "off < al" using sz by (auto simp: search_sizes_def)
  note l = align_from_least [OF al, of "max rs (m_address b) + g * PageSize", folded x]
  show le: "x \<le> y" if "area_slot rs re np al off g b y" for y
    using l(4) [of y] that by (auto simp: area_slot_def)
  show "(\<exists>y. area_slot rs re np al off g b y) \<longleftrightarrow> area_slot rs re np al off g b x"
  proof
    assume "\<exists>y. area_slot rs re np al off g b y"
    then obtain y where y: "area_slot rs re np al off g b y" ..
    with le [OF y] l(1,3) show "area_slot rs re np al off g b x" by (auto simp: area_slot_def)
  qed blast
qed

text \<open>The search at one block: stop behind the region, take the lowest address that fits, or go on.\<close>

lemma find_free_area_step:
  assumes sz: "search_sizes np al off g e" and rs: "0 \<le> rs" "rs < e" and b: "mb_fits b" "0 \<le> m_address b" "m_address b < e"
    and x: "x = align_from (max rs (m_address b) + g * PageSize) al off"
  shows "find_free_area rs (re - 1) np al off g (b # t) =
    (if re - 1 < m_address b then 0 else if area_slot rs re np al off g b x then x
     else find_free_area rs (re - 1) np al off g t)"
proof -
  have pos: "0 < (np + g) * PageSize" "0 \<le> g * PageSize" "2 \<le> (np + g) * PageSize" using sz by (auto simp: search_sizes_def PageSize_def)
  have al: "0 < al" "0 \<le> off" "off < al" using sz by (auto simp: search_sizes_def)
  have area: "free_area_at rs np al off g (GetMemoryInfo b) = (x, x + (np + g) * PageSize - 1)"
    using free_area_at_eq [OF sz rs, of "GetMemoryInfo b"] b by (simp add: Let_def x)
  note l = align_from_least [OF al, of "max rs (m_address b) + g * PageSize", folded x]
  have accept: "area_slot rs re np al off g b x \<longleftrightarrow> m_memory_state b = State_Free \<and> m_address b \<le> x \<and> x < x + (np + g) * PageSize - 1 \<and>
      x + (np + g) * PageSize - 1 \<le> re - 1 \<and> x + (np + g) * PageSize - 1 \<le> mb_end b - 1"
    using l(1,3) pos by (auto simp: area_slot_def)
  have st: "i_state (GetMemoryInfo b) = m_memory_state b" by (simp add: GetMemoryInfo_def)
  show ?thesis using accept by (auto simp: Let_def area st fits_simps b(1))
qed

definition least_slot :: "KProcessAddress \<Rightarrow> KProcessAddress \<Rightarrow> size_t \<Rightarrow> size_t \<Rightarrow> size_t \<Rightarrow> size_t \<Rightarrow> MemoryBlockTree \<Rightarrow> KProcessAddress \<Rightarrow> bool" where
  "least_slot rs re np al off g t r \<longleftrightarrow>
     (if \<exists>b\<in>set t. \<exists>x. area_slot rs re np al off g b x
      then (\<exists>b\<in>set t. area_slot rs re np al off g b r) \<and> (\<forall>b\<in>set t. \<forall>x. area_slot rs re np al off g b x \<longrightarrow> r \<le> x)
      else r = 0)"

lemma find_free_area_least:
  assumes sz: "search_sizes np al off g e" and rs: "0 \<le> rs" "rs < e"
  shows "tiles a t e \<Longrightarrow> 0 \<le> a \<Longrightarrow> least_slot rs re np al off g t (find_free_area rs (re - 1) np al off g t)"
proof (induction t arbitrary: a)
  case (Cons b t)
  define x where "x = align_from (max rs (m_address b) + g * PageSize) al off"
  have b: "mb_fits b" "m_address b = a" "tiles (mb_end b) t e" using Cons.prems by auto
  have be: "m_address b < e" using tiles_le [OF b(3)] mb_size_pos [OF b(1)] by simp
  have pos: "0 < (np + g) * PageSize" "0 \<le> g * PageSize" using sz by (auto simp: search_sizes_def PageSize_def)
  have later: "mb_end b \<le> m_address c" if "c \<in> set t" for c using tiles_block [OF b(3) that] by simp
  note slot = area_slot_least [OF sz x_def, of re]
  have step: "find_free_area rs (re - 1) np al off g (b # t) =
      (if re - 1 < m_address b then 0 else if area_slot rs re np al off g b x then x else find_free_area rs (re - 1) np al off g t)"
    using find_free_area_step [OF sz rs b(1) _ be x_def] Cons.prems(2) b(2) by simp
  consider "re - 1 < m_address b" | "\<not> re - 1 < m_address b" "area_slot rs re np al off g b x"
    | "\<not> re - 1 < m_address b" "\<not> area_slot rs re np al off g b x" by blast
  then show ?case
  proof cases
    case 1
    have "\<not> area_slot rs re np al off g c y" if "c \<in> set (b # t)" for c y
    proof -
      have "m_address b \<le> m_address c" using that later [of c] mb_size_pos [OF b(1)] by auto
      with 1 pos show ?thesis by (auto simp: area_slot_def)
    qed
    with 1 show ?thesis unfolding step by (auto simp: least_slot_def)
  next
    case 2
    have "x \<le> y" if "c \<in> set (b # t)" "area_slot rs re np al off g c y" for c y
    proof (cases "c = b")
      case False
      with that later [of c] have "mb_end b \<le> m_address c" by simp
      with that 2(2) pos show ?thesis by (auto simp: area_slot_def)
    qed (use that slot(2) in simp)
    with 2 show ?thesis unfolding step by (auto simp: least_slot_def)
  next
    case 3
    then have "\<not> Ex (area_slot rs re np al off g b)" "\<And>y. \<not> area_slot rs re np al off g b y" using slot(1) by blast+
    with 3 Cons.IH [OF b(3)] Cons.prems(2) b(2) mb_size_pos [OF b(1)] show ?thesis
      unfolding step by (auto simp: least_slot_def split: if_splits)
  qed
qed (simp add: least_slot_def)

lemma FindFreeArea_least:
  assumes ok: "mbm_ok m" and rs: "m_start_address m \<le> rs" "rs < m_end_address m" and rn: "0 < rn" "rs + rn * PageSize < 2 ^ 64"
    and sz: "search_sizes np al off g (m_end_address m)"
  shows "least_slot rs (rs + rn * PageSize) np al off g (m_memory_block_tree m) (FindFreeArea rs rn np al off g m)"
proof -
  let ?re = "rs + rn * PageSize" and ?t = "m_memory_block_tree m"
  have t: "tiles (m_start_address m) ?t (m_end_address m)" using ok by (simp add: mbm_ok_def)
  note bd = mbm_ok_bounds [OF ok]
  obtain l b r where f: "FindIterator m rs = (l, b # r)" "?t = l @ b # r" "m_address b \<le> rs" "rs < mb_end b"
    using tree_find_split [OF t, of "new_KMemoryBlock rs 1 State_Free 0 0"] rs
    by (auto simp: FindIterator_def new_KMemoryBlock_def)
  have tr: "tiles (m_address b) (b # r) (m_end_address m)" using t f(2) by (auto simp: tiles_append)
  have pos: "0 < rn * PageSize" "0 < (np + g) * PageSize" "0 \<le> g * PageSize"
    using rn sz by (auto simp: search_sizes_def PageSize_def)
  have "mul64 rn PageSize = rn * PageSize" using pos(1) rn rs bd by (intro mul64_exact; linarith)
  moreover have "add64 rs (rn * PageSize) = ?re" using pos(1) rn rs bd by (intro add64_exact; linarith)
  moreover have "sub64 ?re 1 = ?re - 1" using pos(1) rn rs bd by (intro sub64_exact; linarith)
  ultimately have ff: "FindFreeArea rs rn np al off g m = find_free_area rs (?re - 1) np al off g (b # r)"
    using sz by (simp add: FindFreeArea_def f(1) search_sizes_def del: find_free_area.simps)
  have below: "\<not> area_slot rs ?re np al off g c y" if "c \<in> set l" for c y
    using tiles_order [of "m_start_address m" l b r "m_end_address m" c] t f(2,3) that pos by (auto simp: area_slot_def)
  have "least_slot rs ?re np al off g (b # r) (find_free_area rs (?re - 1) np al off g (b # r))"
    using find_free_area_least [OF sz _ rs(2) tr] bd rs tiles_block [OF t, of b] f(2) by auto
  with below show ?thesis unfolding ff f(2) least_slot_def by (auto split: if_splits simp del: find_free_area.simps)
qed

end
