(* ===== verification/MemoryBlocks.thy ===== *)
theory MemoryBlocks
  imports MemoryBlockSpace MemoryBlockFreeArea
begin

text \<open>
  The properties of the map of a guest address space, and a sample space for their instances: 256 pages from 0x8000000 on.
\<close>

section \<open>A sample space\<close>

definition sample_start :: KProcessAddress where "sample_start = 0x8000000"
definition sample_end :: KProcessAddress where "sample_end = 0x8100000"

definition sample_block :: KMemoryBlock where
  "sample_block = new_KMemoryBlock sample_start 0x100 State_Free 0 0"

definition sample_space :: KMemoryBlockManager where
  "sample_space = \<lparr>m_memory_block_tree = [sample_block], m_start_address = sample_start, m_end_address = sample_end\<rparr>"

definition sample_allocator :: UpdateAllocator where
  "sample_allocator = \<lparr>m_blocks = [True, True], m_index = 0, slab_available = 5\<rparr>"

lemmas sample_defs = sample_start_def sample_end_def sample_block_def sample_space_def sample_allocator_def

lemma sample_fits: "mb_fits sample_block" "mb_end sample_block = sample_end" "m_address sample_block = sample_start"
  by (simp_all add: sample_defs new_KMemoryBlock_def mb_fits_def mb_size_def PageSize_def)

lemma sample_ok: "mbm_ok sample_space"
  using sample_fits by (simp add: mbm_ok_def sample_space_def sample_start_def sample_end_def pages_ok_def page_ok_def mb_page_def
      sample_block_def new_KMemoryBlock_def)

lemma sample_allocator_full: "ua_full sample_allocator"
  by (simp add: ua_full_def ua_ok_def sample_allocator_def numeral_2_eq_2)

lemma sample_range: "range_ok (sample_start + k * 0x1000) n sample_space \<longleftrightarrow> 0 \<le> n \<and> 0 \<le> k \<and> k < 0x100 \<and> k + n \<le> 0x100"
  by (auto simp: range_ok_def sample_defs PageSize_def)

section \<open>Properties\<close>

text \<open>C33: \<^verbatim>\<open>Update\<close> refines the assignment of page properties to a range.  On a well-formed space, for a range of pages within it whose blocks to
  change are not locked, and with the two blocks an allocator holds, it returns; the pages of the range then have the new state, permission and
  attribute, keeping their lock attributes, every other page is as before, the space is well formed and merged again, and no block
  was lost.  The range must not begin inside the first block when that block has the properties already.\<close>

theorem memory_update_refines_page_map:
  assumes "mbm_ok m" "range_ok address n m" "ua_full al" "a AND (IpcLocked OR DeviceShared) = 0"
    and "address = m_start_address m \<or> mb_end (hd (m_memory_block_tree m)) \<le> address \<or>
      0 < n \<and> \<not> HasProperties (hd (m_memory_block_tree m)) s p a"
    and "\<forall>b\<in>set (m_memory_block_tree m). meets address n b \<and> \<not> HasProperties b s p a \<longrightarrow>
      m_original_permission b = 0 \<and> m_attribute b AND IpcLocked = 0"
  shows "\<exists>m' al'. mbm_Update address n s p a set_attr clear_attr m al = Inr (m', al') \<and> mbm_ok m' \<and>
    m_start_address m' = m_start_address m \<and> m_end_address m' = m_end_address m \<and>
    (\<forall>x. view (m_memory_block_tree m') x =
       (if address \<le> x \<and> x < address + n * PageSize then map_option (set_page s p a) (view (m_memory_block_tree m) x)
        else view (m_memory_block_tree m) x)) \<and>
    length (m_memory_block_tree m') + ua_blocks al' = length (m_memory_block_tree m) + ua_blocks al"
proof -
  have "steps_back_ok (\<lambda>b. \<not> HasProperties b s p a) address n m" using assms(5) by (simp add: steps_back_ok_def)
  from run_post_total [OF upd.update_range_ok [OF assms(4,1,2,3) this] assms(6), of address set_attr clear_attr]
  obtain m' al' where r: "update_range (\<lambda>b. \<not> HasProperties b s p a) (\<lambda>b. mb_Update s p a (m_address b = address) set_attr clear_attr b) address n m al = Inr (m', al')"
    "update_result (set_page s p a) address n m al (m', al')" by auto
  have "mbm_Update address n s p a set_attr clear_attr m al = Inr (m', al')"
    using r(1) assms(2,4) by (simp add: mbm_Update_def range_ok_def IsAligned_PageSize)
  with r(2) show ?thesis by (auto simp: update_result_def on_range_def)
qed

theorem memory_update_refines_page_map_witness:
  "\<exists>m' al'. mbm_Update 0x8004000 3 State_Normal UserReadWrite 0 DisableMerge_Normal 0 sample_space sample_allocator = Inr (m', al') \<and> mbm_ok m' \<and>
     map (\<lambda>x. map_option pg_state (view (m_memory_block_tree m') x)) [0x8003FFF, 0x8004000, 0x8006FFF, 0x8007000, 0x8100000] =
       [Some State_Free, Some State_Normal, Some State_Normal, Some State_Free, None]"
proof -
  have sp: "m_memory_block_tree sample_space = [sample_block]" "m_start_address sample_space = sample_start" by (simp_all add: sample_space_def)
  have hp: "\<not> HasProperties sample_block State_Normal UserReadWrite 0"
    by (simp add: HasProperties_def sample_block_def new_KMemoryBlock_def permission_defs)
  have r: "range_ok 0x8004000 3 sample_space" using sample_range [of 4 3] by (simp add: sample_start_def)
  have "\<exists>m' al'. mbm_Update 0x8004000 3 State_Normal UserReadWrite 0 DisableMerge_Normal 0 sample_space sample_allocator = Inr (m', al') \<and> mbm_ok m' \<and>
    m_start_address m' = m_start_address sample_space \<and> m_end_address m' = m_end_address sample_space \<and>
    (\<forall>x. view (m_memory_block_tree m') x =
       (if 0x8004000 \<le> x \<and> x < 0x8004000 + 3 * PageSize
        then map_option (set_page State_Normal UserReadWrite 0) (view (m_memory_block_tree sample_space) x)
        else view (m_memory_block_tree sample_space) x)) \<and>
    length (m_memory_block_tree m') + ua_blocks al' = length (m_memory_block_tree sample_space) + ua_blocks sample_allocator"
    by (rule memory_update_refines_page_map [OF sample_ok r sample_allocator_full])
      (use hp in \<open>simp_all add: sp, simp add: sample_block_def new_KMemoryBlock_def\<close>)
  then obtain m' al' where m': "mbm_Update 0x8004000 3 State_Normal UserReadWrite 0 DisableMerge_Normal 0 sample_space sample_allocator = Inr (m', al')"
      "mbm_ok m'" and v: "\<And>x. view (m_memory_block_tree m') x =
       (if 0x8004000 \<le> x \<and> x < 0x8004000 + 3 * PageSize
        then map_option (set_page State_Normal UserReadWrite 0) (view (m_memory_block_tree sample_space) x)
        else view (m_memory_block_tree sample_space) x)" by blast
  have "pg_state (mb_page sample_block) = State_Free" by (simp add: mb_page_def sample_block_def new_KMemoryBlock_def)
  then show ?thesis using m' sample_fits
    by (intro exI [of _ m'] exI [of _ al']) (simp add: v sp sample_start_def sample_end_def PageSize_def set_page_def)
qed

text \<open>C34: A memory block manager stays well formed.  Whatever sequence of updates, conditional updates, attribute changes and locks runs on
  a fresh space, with ranges within the space, after every run that returns the blocks tile the space from its start to its end in
  order, none could be merged with its neighbour, the self-check \<^verbatim>\<open>CheckState\<close> of the manager succeeds, and the blocks of the tree and of the slab are
  as many as at the start; finalizing then gives all of them back and reports a total size of the whole space.\<close>

theorem memory_space_well_formed:
  assumes "mbm_Initialize st nd fresh slab0 new_KMemoryBlockManager = Inr (R_SUCCEED, slab1, m0)" "0 \<le> st" "st < nd" "nd < 2 ^ 64"
    and "list_all (op_allowed st nd) ops" "run_ops mbm_step ops (m0, slab1) = Inr (m, slab)"
  shows "tiles st (m_memory_block_tree m) nd \<and> unmerged (\<lambda>x. True) (m_memory_block_tree m) \<and> CheckState m = Inr True \<and>
    length (m_memory_block_tree m) + slab = slab0 \<and>
    (\<exists>calls. mbm_Finalize slab m = (slab0, calls, m\<lparr>m_memory_block_tree := []\<rparr>) \<and> sum_list (map snd calls) = nd - st)"
proof -
  have "0 < slab0" "PageSize dvd st" "PageSize dvd nd"
    using assms(1) by (auto simp: mbm_Initialize_def ensure_eq_Inr IsAligned_PageSize split: if_splits)
  then have "space_ok st nd slab0 (m0, slab1)" using Initialize_ok [of st nd slab0 fresh] assms(1-4) by auto
  then have ok: "space_ok st nd slab0 (m, slab)" using mbm.run_inv assms(5,6) by blast
  then have m: "mbm_ok m" "m_start_address m = st" "m_end_address m = nd" "length (m_memory_block_tree m) + slab = slab0"
    by (auto simp: space_ok_def)
  then have t: "tiles st (m_memory_block_tree m) nd" "unmerged (\<lambda>x. True) (m_memory_block_tree m)" by (auto simp: mbm_ok_def)
  show ?thesis using t m(4) CheckState_ok [OF m(1)] tiles_sum [OF t(1)]
    by (simp add: mbm_Finalize_def finalize_blocks_eq add.commute comp_def)
qed

theorem memory_space_well_formed_witness:
  "\<exists>m slab. run_ops mbm_step [OpUpdate 0x8004000 3 State_Normal UserReadWrite 0 DisableMerge_Normal 0,
      OpUpdateLock 0x8005000 1 LkLockForIpc UserRead, OpUpdateLock 0x8005000 1 LkUnlockForIpc 0] (sample_space, 6) = Inr (m, slab) \<and>
    CheckState m = Inr True \<and> length (m_memory_block_tree m) + slab = 7"
proof -
  let ?ops = "[OpUpdate 0x8004000 3 State_Normal UserReadWrite 0 DisableMerge_Normal 0,
      OpUpdateLock 0x8005000 1 LkLockForIpc UserRead, OpUpdateLock 0x8005000 1 LkUnlockForIpc 0]"
  have init: "mbm_Initialize sample_start sample_end (new_KMemoryBlock 0 0 0 0 0) 7 new_KMemoryBlockManager = Inr (R_SUCCEED, 6, sample_space)"
    by code_simp
  have al: "list_all (op_allowed sample_start sample_end) ?ops" by (simp add: op_allowed_def sample_defs PageSize_def)
  have "isl (run_ops mbm_step ?ops (sample_space, 6)) = False" by code_simp
  then obtain m slab where run: "run_ops mbm_step ?ops (sample_space, 6) = Inr (m, slab)"
    by (cases "run_ops mbm_step ?ops (sample_space, 6)") auto
  with memory_space_well_formed [OF init _ _ _ al run] show ?thesis by (simp add: sample_defs)
qed


text \<open>C35: Every update and every lock function acts on pages: when an operation on a range of a well-formed space returns, each page of the range has changed by the
  effect of the operation on its own properties, wherever block boundaries lay, and every other page is as before.  For the
  functions that only keep blocks from being merged the effect is none at all.\<close>

theorem memory_operation_acts_on_pages:
  assumes "mbm_ok m" "op_allowed (m_start_address m) (m_end_address m) op" "2 \<le> slab" "mbm_step op (m, slab) = Inr (m', slab')"
    and "op_range op = (address, n)"
  shows "view (m_memory_block_tree m') x =
    (if address \<le> x \<and> x < address + n * PageSize then map_option (op_effect op) (view (m_memory_block_tree m) x)
     else view (m_memory_block_tree m) x)"
proof -
  obtain al where al: "new_UpdateAllocator slab MaxBlocks = Inr (R_SUCCEED, al)" "ua_full al"
    using new_UpdateAllocator_ok [of 2 slab] assms(3) by (auto simp: ua_full_def MaxBlocks_def)
  with assms(4) obtain al' where "mbm_run op m al = Inr (m', al')" by (auto simp: mbm_step_def bind_run_eq_Inr)
  from mbm_run_result [OF assms(1,2) al(2) this assms(5)] show ?thesis by (simp add: update_result_def on_range_def)
qed

theorem memory_operation_acts_on_pages_witness:
  "\<exists>m' slab'. mbm_step (OpUpdateLock 0x8002000 1 LkShareToDevice 0) (sample_space, 6) = Inr (m', slab') \<and>
    view (m_memory_block_tree m') 0x8002010 = map_option share_page (view (m_memory_block_tree sample_space) 0x8002010) \<and>
    view (m_memory_block_tree m') 0x8003000 = view (m_memory_block_tree sample_space) 0x8003000"
proof -
  let ?op = "OpUpdateLock 0x8002000 1 LkShareToDevice 0"
  have "isl (mbm_step ?op (sample_space, 6)) = False" by code_simp
  then obtain m' slab' where run: "mbm_step ?op (sample_space, 6) = Inr (m', slab')"
    by (cases "mbm_step ?op (sample_space, 6)") auto
  have al: "op_allowed (m_start_address sample_space) (m_end_address sample_space) ?op" by (simp add: op_allowed_def sample_defs PageSize_def)
  have "view (m_memory_block_tree m') x =
      (if 0x8002000 \<le> x \<and> x < 0x8002000 + 1 * PageSize then map_option (op_effect ?op) (view (m_memory_block_tree sample_space) x)
       else view (m_memory_block_tree sample_space) x)" for x
    by (rule memory_operation_acts_on_pages [OF sample_ok al _ run]) simp_all
  then show ?thesis using run by (auto simp: PageSize_def)
qed

text \<open>C36: \<^verbatim>\<open>FindFreeArea\<close> returns the lowest address at which the request fits: in a region that begins in the space, there is a free block that holds
  the pages there with the guard pages on both sides, within the region and at the offset from a multiple of the alignment, and no
  such address is lower; it returns zero when there is none.  The sizes are such that no sum wraps around.\<close>

theorem find_free_area_lowest:
  assumes "mbm_ok m" "m_start_address m \<le> region_start" "region_start < m_end_address m" "0 < region_num_pages"
    and "region_start + region_num_pages * PageSize < 2 ^ 64" "search_sizes num_pages alignment offset guard_pages (m_end_address m)"
  shows "let fits = (\<lambda>x. \<exists>b\<in>set (m_memory_block_tree m).
        area_slot region_start (region_start + region_num_pages * PageSize) num_pages alignment offset guard_pages b x);
      area = FindFreeArea region_start region_num_pages num_pages alignment offset guard_pages m
    in if \<exists>x. fits x then fits area \<and> (\<forall>x. fits x \<longrightarrow> area \<le> x) else area = 0"
  using FindFreeArea_least [OF assms] unfolding least_slot_def Let_def by (auto split: if_splits)

theorem find_free_area_lowest_witness:
  "FindFreeArea 0x8003000 0x80 2 0x10000 0x2000 1 sample_space = 0x8012000"
proof -
  let ?r = "FindFreeArea 0x8003000 0x80 2 0x10000 0x2000 1 sample_space"
  let ?fits = "\<lambda>x. \<exists>b\<in>set (m_memory_block_tree sample_space). area_slot 0x8003000 (0x8003000 + 0x80 * PageSize) 2 0x10000 0x2000 1 b x"
  have th: "if \<exists>x. ?fits x then ?fits ?r \<and> (\<forall>x. ?fits x \<longrightarrow> ?r \<le> x) else ?r = 0"
    using find_free_area_lowest [OF sample_ok, of "0x8003000" "0x80" 2 "0x10000" "0x2000" 1]
    by (simp add: Let_def sample_start_def sample_end_def sample_space_def search_sizes_def PageSize_def)
  have at: "?fits 0x8012000" by (simp add: area_slot_def sample_defs new_KMemoryBlock_def mb_size_def PageSize_def)
  with th have r: "?fits ?r" "?r \<le> 0x8012000" by (auto split: if_splits)
  then obtain k where "?r - 0x2000 = 0x10000 * k" "0x8004000 \<le> ?r"
    by (auto simp: area_slot_def sample_space_def PageSize_def)
  with r(2) show ?thesis by presburger
qed

text \<open>C37: The list of blocks in order stands for the red-black tree: for a search tree of any shape whose blocks lie one behind
  the other, with gaps between them or without, \<^verbatim>\<open>RB_FIND\<close> finds the block the search of the list finds.  Insertion
  agrees as well, into any gap: where the list insertion succeeds it puts the block behind all blocks that end at or
  before its address and ahead of those that begin behind it, and \<^verbatim>\<open>RB_INSERT\<close> gives a tree with these nodes in this order;
  it fails exactly when a block of the tree holds the address of the new one, and then \<^verbatim>\<open>RB_INSERT\<close> leaves the tree alone.\<close>

theorem block_tree_as_list:
  assumes "apart (inorder t)"
  shows "RB_FIND k t = (case snd (tree_find k (inorder t)) of [] \<Rightarrow> None | b # _ \<Rightarrow> Some b) \<and>
    (case tree_insert k (inorder t) of
       Inl f \<Rightarrow> f = NullDeref \<and> RB_INSERT k t = t \<and> (\<exists>b\<in>set (inorder t). m_address b \<le> m_address k \<and> m_address k < mb_end b)
     | Inr (l, r) \<Rightarrow> inorder (RB_INSERT k t) = l @ r \<and>
         (\<exists>r'. r = k # r' \<and> inorder t = l @ r' \<and> (\<forall>b\<in>set l. mb_end b \<le> m_address k) \<and> (\<forall>b\<in>set r'. m_address k < m_address b)))"
  using RB_FIND_eq_find [OF assms, of k] RB_INSERT_inorder [OF assms, of k] tree_insert_place [OF assms, of k]
  by (cases "tree_insert k (inorder t)") (auto simp: tree_find_eq_find)

text \<open>Blocks of two pages, three of them with gaps between; the new one goes left and then right.\<close>

definition sample_part :: "KProcessAddress \<Rightarrow> KMemoryBlock" where
  "sample_part a = new_KMemoryBlock a 2 0 0 0"

theorem block_tree_as_list_witness:
  "(let t = \<langle>\<langle>\<langle>\<rangle>, sample_part 0x8000000, \<langle>\<rangle>\<rangle>, sample_part 0x8008000, \<langle>\<langle>\<rangle>, sample_part 0x8010000, \<langle>\<rangle>\<rangle>\<rangle>
    in RB_FIND (sample_part 0x8011234) t = Some (sample_part 0x8010000) \<and>
       inorder (RB_INSERT (sample_part 0x8002000) t) =
         [sample_part 0x8000000, sample_part 0x8002000, sample_part 0x8008000, sample_part 0x8010000])"
proof -
  let ?t = "\<langle>\<langle>\<langle>\<rangle>, sample_part 0x8000000, \<langle>\<rangle>\<rangle>, sample_part 0x8008000, \<langle>\<langle>\<rangle>, sample_part 0x8010000, \<langle>\<rangle>\<rangle>\<rangle>"
  have ap: "apart (inorder ?t)" by (simp add: apart_def mb_fits_def mb_size_def sample_part_def new_KMemoryBlock_def PageSize_def)
  have f: "snd (tree_find (sample_part 0x8011234) (inorder ?t)) = [sample_part 0x8010000]" by code_simp
  have i: "tree_insert (sample_part 0x8002000) (inorder ?t) =
      Inr ([sample_part 0x8000000], [sample_part 0x8002000, sample_part 0x8008000, sample_part 0x8010000])" by code_simp
  show ?thesis
    using block_tree_as_list [OF ap, of "sample_part 0x8011234"] block_tree_as_list [OF ap, of "sample_part 0x8002000"]
    unfolding Let_def f i by simp
qed

text \<open>C38: Unlocking undoes locking.  On a block whose counts and attributes agree, \<^verbatim>\<open>LockForIpc\<close> returns when its assertions hold, and
  \<^verbatim>\<open>UnlockForIpc\<close> at the same end of a range then gives back the block, with its permission, attributes, counts and merge state.\<close>

theorem ipc_unlock_undoes_lock:
  assumes f: "ipc_free perm b" "m_permission b \<noteq> 0" "m_ipc_lock_count b = 0 \<longrightarrow> m_attribute b AND IpcLocked = 0"
    and l: "m_disable_merge_attribute b AND IpcLeft = (if m_ipc_disable_merge_count b = 0 then 0 else IpcLeft)"
  shows "bind_run (LockForIpc perm is_left is_right b) (UnlockForIpc perm' is_left is_right') = Inr b"
proof -
  have dm: "m_ipc_disable_merge_count b = 0 \<Longrightarrow> (m_disable_merge_attribute b OR IpcLeft) AND NOT IpcLeft = m_disable_merge_attribute b"
    "m_ipc_disable_merge_count b \<noteq> 0 \<Longrightarrow> m_disable_merge_attribute b OR IpcLeft = m_disable_merge_attribute b"
    using l or_and_not or_absorb by auto
  have at: "m_ipc_lock_count b = 0 \<Longrightarrow> (m_attribute b OR IpcLocked) AND NOT IpcLocked = m_attribute b"
    "m_ipc_lock_count b \<noteq> 0 \<Longrightarrow> m_attribute b OR IpcLocked = m_attribute b"
    "(m_attribute b OR IpcLocked) AND IpcLocked = IpcLocked"
    using f or_and_not or_absorb by (auto simp: ipc_free_def attribute_simps)
  have c: "m_ipc_lock_count b \<noteq> - 1" "m_ipc_disable_merge_count b \<noteq> - 1" using f by (auto simp: ipc_free_def)
  show ?thesis
  proof (cases "m_ipc_lock_count b = 0")
    case True
    with f have "m_original_permission b = 0" by (simp add: ipc_free_def)
    with True f c at dm show ?thesis
      by (cases is_left; cases "m_ipc_disable_merge_count b = 0"; cases b)
       (simp_all add: LockForIpc_def UnlockForIpc_def ipc_free_def Let_def ensure_def word_inc_pos)
  next
    case False
    with f have "m_attribute b AND IpcLocked = IpcLocked" by (simp add: ipc_free_def)
    with False f c at dm show ?thesis
      by (cases is_left; cases "m_ipc_disable_merge_count b = 0"; cases b)
       (simp_all add: LockForIpc_def UnlockForIpc_def ipc_free_def Let_def ensure_def word_inc_pos)
  qed
qed

theorem ipc_unlock_undoes_lock_witness:
  "\<exists>b. LockForIpc UserRead True True (sample_block\<lparr>m_permission := UserReadWrite\<rparr>) = Inr b \<and> m_permission b \<noteq> UserReadWrite \<and>
     UnlockForIpc 0 True True b = Inr (sample_block\<lparr>m_permission := UserReadWrite\<rparr>)"
proof -
  let ?b = "sample_block\<lparr>m_permission := UserReadWrite\<rparr>"
  have "bind_run (LockForIpc UserRead True True ?b) (UnlockForIpc 0 True True) = Inr ?b"
    by (rule ipc_unlock_undoes_lock)
      (simp_all add: ipc_free_def sample_block_def new_KMemoryBlock_def permission_defs IpcLocked_def IpcLeft_def)
  then obtain b where b: "LockForIpc UserRead True True ?b = Inr b" "UnlockForIpc 0 True True b = Inr ?b"
    by (auto simp: bind_run_eq_Inr)
  have "map_sum (\<lambda>e. e) m_permission (LockForIpc UserRead True True ?b) = Inr 0x09" by code_simp
  with b(1) have "m_permission b = 0x09" by simp
  with b show ?thesis by (intro exI [of _ b]) (simp add: permission_defs)
qed

text \<open>C39: An update that has nothing to do can crash.  When the range lies inside the first block of the space, does not begin at its start, and the block has
  the properties already, \<^verbatim>\<open>Update\<close> leaves the tree as it is and the merging that follows steps back from the first block
  to the end iterator and from there through a null node.\<close>

theorem update_inside_first_block_faults:
  assumes "mbm_ok m" "range_ok address n m" "m_start_address m < address"
    and "0 < n" "address + n * PageSize \<le> mb_end (hd (m_memory_block_tree m))"
    and "HasProperties (hd (m_memory_block_tree m)) s p a" "a AND (IpcLocked OR DeviceShared) = 0"
  shows "mbm_Update address n s p a set_attr clear_attr m al = Inl NullDeref"
proof -
  have t: "tiles (m_start_address m) (m_memory_block_tree m) (m_end_address m)" using assms(1) by (simp add: mbm_ok_def)
  have r: "address < m_end_address m" "PageSize dvd address" "address + n * PageSize \<le> m_end_address m" using assms(2) by (auto simp: range_ok_def)
  note bd = mbm_ok_bounds [OF assms(1)]
  obtain b bs where bs: "m_memory_block_tree m = b # bs" using bd(3) by (cases "m_memory_block_tree m") auto
  with t have b: "mb_fits b" "m_address b = m_start_address m" by auto
  have pos: "0 < n * PageSize" using assms(4) by (simp add: PageSize_def)
  have it: "FindIterator m address = ([], b # bs)"
    using assms(3,5) b bs pos by (simp add: FindIterator_def Compare_fits new_KMemoryBlock_def)
  have rs: "mul64 n PageSize = n * PageSize" using pos r(3) bd assms(3) by (intro mul64_exact; linarith)
  have ends: "add64 address (n * PageSize) = address + n * PageSize" using pos r(3) bd assms(3) by (intro add64_exact; linarith)
  have stop: "sub64 (address + n * PageSize) (mb_end b) div PageSize = 0" if "\<not> address + n * PageSize < mb_end b"
    using that assms(5) bs by simp
  have "update_loop (length (m_memory_block_tree m) + 1) (\<lambda>b. \<not> HasProperties b s p a)
      (\<lambda>b. mb_Update s p a (m_address b = address) set_attr clear_attr b) address n (FindIterator m address) al = Inr (([b], bs), al)"
    using assms(4,6) bs b(1) stop by (simp add: it Let_def iter_deref_def iter_next_def rs ends fits_simps)
  moreover have "CoalesceForUpdate address n m al = Inl NullDeref"
    using CoalesceForUpdate_first [OF t assms(3) r(1)] assms(5) pos by simp
  moreover have "m\<lparr>m_memory_block_tree := [b] @ bs\<rparr> = m" using bs by simp
  ultimately show ?thesis using r(2) assms(7) by (simp add: mbm_Update_def update_range_def IsAligned_PageSize)
qed

theorem update_inside_first_block_faults_witness:
  "mbm_Update 0x8004000 3 State_Free 0 0 0 0 sample_space sample_allocator = Inl NullDeref"
proof -
  have r: "range_ok 0x8004000 3 sample_space" using sample_range [of 4 3] by (simp add: sample_start_def)
  have "m_memory_block_tree sample_space = [sample_block]" "m_start_address sample_space = sample_start" by (simp_all add: sample_space_def)
  then show ?thesis using sample_fits
    by (intro update_inside_first_block_faults [OF sample_ok r])
      (simp_all add: sample_start_def sample_end_def PageSize_def, simp add: HasProperties_def sample_block_def new_KMemoryBlock_def)
qed

text \<open>The self-check never looks at the lock counts of the first of several blocks.\<close>

lemma CheckState_misses_first:
  "CheckState (sample_space\<lparr>m_memory_block_tree :=
     [sample_block\<lparr>m_num_pages := 1, m_attribute := IpcLocked\<rparr>, sample_block\<lparr>m_address := 0x8001000, m_num_pages := 0xFF\<rparr>]\<rparr>) = Inr True"
  "lock_counts_wrong (GetMemoryInfo (sample_block\<lparr>m_num_pages := 1, m_attribute := IpcLocked\<rparr>))"
  by code_simp+

end
