(* ===== verification/Spec2Isabelle.thy ===== *)
theory Spec2Isabelle
  imports KHandleTable KResourceLimit LifecycleManager CheatEngine MaxwellMacros BufferQueue
    MemoryBlocks
begin

text \<open>
  A verification of the core logic of the suyu emulator: kernel objects, resource accounting and address spaces, the applet
  lifecycle, the display's buffer queue, the cheat engine with the guest memory it edits, and the GPU's macro processor.

  \<^bold>\<open>The program.\<close>  The emulator runs a guest program.  Guest code calls the emulated kernel (\<^verbatim>\<open>src/core/hle/kernel\<close>), which
  names its reference-counted objects to a process by handles, charges what the process uses to a resource limit and keeps a map of
  the blocks of the process's address space.
  System services (\<^verbatim>\<open>src/core/hle/service\<close>) run beside it; the applet manager tells each applet whether it has focus and
  suspends its process, and a buffer queue carries the frames a game draws to the display.  Guest memory (\<^verbatim>\<open>src/core/memory.cpp\<close>) is reached through a page table of host pointers.  Twelve times a
  second the cheat engine (\<^verbatim>\<open>src/core/memory\<close>) runs the user's cheats, programs of a small virtual machine, on that memory.
  The GPU (\<^verbatim>\<open>src/video_core\<close>) takes method writes; methods from 0xE00 on call macros, programs that were uploaded through other
  methods and are interpreted on the 3D engine.

  \<^bold>\<open>Conventions.\<close>  One function per function of the source, with the name of the source; a name that would clash carries
  its class as a prefix.  Classes are records, enumerations datatypes, integers words of their width.  A run ends in
  \<open>Inr\<close> of a result or \<open>Inl\<close> of a fault: a failed assertion, an access outside an array, a null pointer, undefined
  arithmetic, code the source calls unreachable, or no fuel left.  A \<^verbatim>\<open>Result\<close> of the emulated system is an ordinary
  value.  Operations under a lock are one step.  Library code, host services and other threads are parameters.

  \<^bold>\<open>The theories.\<close>

  \<^item> \<open>Prelude\<close>: words of the machine widths, bit fields (\<^verbatim>\<open>common/bit_field.h\<close>), the type of runs with its laws,
    lemmas on lists.
  \<^item> \<open>KAutoObject\<close>: reference counts (\<^verbatim>\<open>k_auto_object.h\<close>).  A count never goes below zero or wraps.
  \<^item> \<open>KHandleTable\<close>: \<^verbatim>\<open>k_handle_table.{h,cpp}\<close>.  The invariant says that the free list threads exactly the free
    entries and that linear ids are in range.  The abstraction is a finite map from handles to objects; adding,
    removing, reserving, looking up several handles and finalising are shown to be the operations of that map, with
    the matching changes of reference counts.
  \<^item> \<open>KResourceLimit\<close>: \<^verbatim>\<open>k_resource_limit.{h,cpp}\<close> and the scoped reservation.  The counters stay ordered
    (current below limit, hint below current), waiting ends, and an uncommitted reservation is given back.
  \<^item> \<open>LifecycleManager\<close>: \<^verbatim>\<open>am/lifecycle_manager.{h,cpp}\<close> and the locked operations of \<^verbatim>\<open>am/applet.cpp\<close>.  The messages an applet is
    owed form a priority queue that \<^verbatim>\<open>PopMessage\<close> refines; after any sequence of operations each is delivered.
  \<^item> \<open>CheatDecode\<close>, \<open>CheatVm\<close>: \<^verbatim>\<open>dmnt_cheat_vm.{h,cpp}\<close>.  Decoding is total and stays inside the program; skipping finds the
    end of its own block; every opcode has its effect; arithmetic is modulo the width.  The locale
    \<open>cheat_callbacks\<close> says what the machine needs of its embedder.
  \<^item> \<open>GuestMemory\<close>: \<^verbatim>\<open>ReadBlock\<close>, \<^verbatim>\<open>WriteBlock\<close> and the page walk of \<^verbatim>\<open>memory.cpp\<close>, equal to a bytewise reference.
  \<^item> \<open>CheatEngine\<close>: \<^verbatim>\<open>cheat_engine.{h,cpp}\<close>.  The standard callbacks interpret \<open>cheat_callbacks\<close> on guest memory, so a
    run of cheats is memory safe and confined to the extents of the process; the text format round-trips.
  \<^item> \<open>MacroInterpreter\<close>: \<^verbatim>\<open>macro_interpreter.cpp\<close>.  The recursive handling of delay slots is refined to a machine with a
    program counter and a next one; carry chains compute wide sums.  The locale \<open>macro_target\<close> is the interface
    to the 3D engine.
  \<^item> \<open>MacroEngine\<close>: upload, cache and call of macros (\<^verbatim>\<open>macro.cpp\<close>).  A cached program runs what was uploaded.
  \<^item> \<open>MaxwellMacros\<close>: the methods of \<^verbatim>\<open>maxwell_3d.cpp\<close> that write registers and upload, bind and call macros; it
    interprets \<open>macro_target\<close> and composes the three layers.
  \<^item> \<open>BufferQueueCore\<close>, \<open>BufferQueueConsumer\<close>, \<open>BufferQueueProducer\<close>: the buffer queue of \<^verbatim>\<open>service/nvnflinger\<close>
    (\<^verbatim>\<open>buffer_queue_core.cpp\<close>, \<^verbatim>\<open>buffer_queue_consumer.cpp\<close>, \<^verbatim>\<open>buffer_queue_producer.cpp\<close>), one function per operation, with the sections between locks
    as separate steps.  \<open>BufferQueueInvariant\<close> shows that each operation keeps the slots and the queued frames in step;
    \<open>BufferQueue\<close> composes them to a machine, an instance of the locale \<open>checked_machine\<close>, and shows that it is safe
    and that frames arrive in order.

  \<^item> \<open>KMemoryBlock\<close>, \<open>KMemoryBlockManager\<close>: \<^verbatim>\<open>k_memory_block.h\<close> and \<^verbatim>\<open>k_memory_block_manager.{h,cpp}\<close>, the map of an address space as a
    tree of blocks, with the splitting, merging and locking of blocks and the allocator of an update; addresses are integers with the 64-bit wrap-around
    written out.  \<open>MemoryBlockUpdates\<close> proves the loop of the updates once, in the locale \<open>range_update\<close>: it returns, keeps the blocks a tiling,
    leaves nothing to merge, and changes the map from addresses to page properties on the range only.  \<open>MemoryBlockFreeArea\<close> does the search for
    free areas.  \<open>MemoryBlockSpace\<close> interprets \<open>range_update\<close> for each update and, through the locale \<open>lock_law\<close>, for each lock function, and
    the machine of the operations; \<open>MemoryBlocks\<close> holds the properties.

  \<^bold>\<open>Loops and fuel.\<close>  \<^verbatim>\<open>DmntCheatVm::Execute\<close> takes one unit of fuel per executed opcode and the macro interpreter one per
  step of its loop.  A cheat without loop ends needs no more units than its program has words, a macro whose branches
  all go forward no more than its words; both bounds are proved.  Programs that loop may run forever in the source too.
  \<^verbatim>\<open>KResourceLimit::Reserve\<close> takes the list of what other threads do in each round of its wait and is shown to return when
  the timeout has passed; a producer that waits for a free slot takes the rounds of its consumer the same way, and its wait
  is a total function of them.  The loop of a memory block update has one unit more than there are blocks, which is shown to be enough.
  All other recursions are total functions.

  \<^bold>\<open>Parameters and hypotheses.\<close>  What the GPU does to host memory on a CPU access of a cached page (the properties are
  about memory of which it holds no newer copy); the hash of a macro, the native replacements of macros and the
  traversal order of a hash map (some permutation of its keys); the effects of the 3D engine's other methods.
  Each property with hypotheses is followed by a concrete instance of them.

  \<^bold>\<open>Not modelled.\<close>  Threads, scheduling, page table management and IPC of the kernel; the processor recompiler (a
  library); file systems, loaders, audio, input, networking and user interfaces, which are mostly input and output;
  the shader recompiler, the GPU's caches and back ends; the x64 macro recompiler and the native macros; a macro that
  itself calls macros; the parcels in which clients pack their calls of the buffer queue; the balancing and the removal of the red-black tree; logging.
\<close>

end
